(* ===== verification/Go_Prelude.thy ===== *)
theory Go_Prelude
  imports Main "HOL-Library.Finite_Map"
begin

section \<open>What the model takes from the Go language\<close>

text \<open>
  Types and lemmas shared by every component of the model.

  \<^item> \<open>go_error\<close> is the type of the non-nil values of Go's \<open>error\<close>: the sentinel errors
    declared in \<^verbatim>\<open>pkg/state/error.go\<close>, \<^verbatim>\<open>pkg/server/error.go\<close> and
    \<^verbatim>\<open>cmd/error.go\<close>, the sentinels of the standard library the code compares with, and
    \<open>Foreign\<close> for an error value made by a package outside the repository. \<open>StatusError\<close> and
    \<open>StatusErrorf\<close> are gRPC status errors, the second with the text of another error behind its
    message; \<open>Wrapped\<close> is an error that wraps another one.
  \<^item> \<open>outcome\<close> is the result of a call that returns \<open>(T, error)\<close> or panics.
  \<^item> A Go map is an \<open>fmap\<close>. The order in which \<open>range\<close> visits a map is unspecified in Go:
    an operation that ranges over a map takes the list of keys in the order of the visit, and
    \<open>enumerates\<close> says that the list is such an order. A theorem that holds for every
    enumeration holds for every order the runtime can choose.
\<close>

subsection \<open>Errors, panics and outcomes\<close>

datatype status_code =
    StatusOK
  | StatusCanceled
  | StatusUnknown
  | StatusInvalidArgument
  | StatusDeadlineExceeded
  | StatusNotFound
  | StatusAlreadyExists
  | StatusPermissionDenied
  | StatusResourceExhausted
  | StatusFailedPrecondition
  | StatusAborted
  | StatusOutOfRange
  | StatusUnimplemented
  | StatusInternal
  | StatusUnavailable
  | StatusDataLoss
  | StatusUnauthenticated

datatype go_error =
    ErrNoParentFound
  | ErrEmptyListenerAddress
  | ErrEmptyHTTP2TLSConfig
  | ErrEmptyListener
  | ErrNonEmptyListener
  | ErrNonEmptyHTTPServer
  | ErrEmptyHTTPHandler
  | ErrNoBackendProvider
  | ErrNoBackendFound
  | ErrEmptyAwsTfstateBucket
  | ErrInvalidTfstateSourceSelector
  | EOF
  | ErrServerClosed
  | DeadlineExceeded
  | Canceled
  | NumSyntax string
  | NumRange string
  | Foreign string
  | StatusError status_code string
  | StatusErrorf status_code string go_error
  | Wrapped string go_error

text \<open>
  \<open>errors.Is\<close> looks for its target along the wrapped errors; a status error does not wrap the error
  whose text it shows.
\<close>

fun errors_Is :: "go_error \<Rightarrow> go_error \<Rightarrow> bool" where
  "errors_Is (Wrapped m e) target \<longleftrightarrow> Wrapped m e = target \<or> errors_Is e target"
| "errors_Is e target \<longleftrightarrow> e = target"

text \<open>The run-time panics the modelled code can reach, and the two explicit ones.\<close>

datatype go_panic =
    NilDereference
  | InterfaceConversion
  | CloseOfClosedChannel
  | SendOnClosedChannel
  | NilMapAssignment
  | InvalidWriteHeaderCode
  | MakeSliceLen
  | MakeChanSize
  | PanicValue go_error
  | LogPanic string

datatype 'a outcome = Ok 'a | Err go_error | Panic go_panic

text \<open>
  Sequencing of calls on a state: \<open>and_then m f\<close> is the Go idiom
  \<^verbatim>\<open>x, err := m(); if err != nil { return err }; f(x)\<close>, where a panic of \<open>m\<close> also ends the
  function.
\<close>

fun and_then :: "'a outcome \<times> 's \<Rightarrow> ('a \<Rightarrow> 's \<Rightarrow> 'b outcome \<times> 's) \<Rightarrow> 'b outcome \<times> 's" where
  "and_then (Ok a, s) f = f a s"
| "and_then (Err e, s) f = (Err e, s)"
| "and_then (Panic p, s) f = (Panic p, s)"

lemma and_then_Ok_iff:
  "and_then m f = (Ok b, t) \<longleftrightarrow> (\<exists>a s. m = (Ok a, s) \<and> f a s = (Ok b, t))"
  by (cases "(m, f)" rule: and_then.cases) auto

lemma and_then_Err_iff:
  "and_then m f = (Err e, t) \<longleftrightarrow>
     m = (Err e, t) \<or> (\<exists>a s. m = (Ok a, s) \<and> f a s = (Err e, t))"
  by (cases "(m, f)" rule: and_then.cases) auto

lemma and_then_Panic_iff:
  "and_then m f = (Panic p, t) \<longleftrightarrow>
     m = (Panic p, t) \<or> (\<exists>a s. m = (Ok a, s) \<and> f a s = (Panic p, t))"
  by (cases "(m, f)" rule: and_then.cases) auto

lemmas and_then_iffs = and_then_Ok_iff and_then_Err_iff and_then_Panic_iff

text \<open>What both steps keep, the sequence keeps.\<close>

lemma and_then_invariant:
  assumes "P (snd m)" and "\<And>a s. m = (Ok a, s) \<Longrightarrow> P s \<Longrightarrow> P (snd (f a s))"
  shows "P (snd (and_then m f))"
  using assms by (cases "(m, f)" rule: and_then.cases) auto

text \<open>
  \<open>for_each body xs s\<close> is \<^verbatim>\<open>for _, x := range xs { if err := body(x); err != nil { return err } }\<close>
  over a slice, for a body that works on the state \<open>s\<close>.
\<close>

fun for_each :: "('x \<Rightarrow> 's \<Rightarrow> unit outcome \<times> 's) \<Rightarrow> 'x list \<Rightarrow> 's \<Rightarrow> unit outcome \<times> 's" where
  "for_each body [] s = (Ok (), s)"
| "for_each body (x # xs) s = and_then (body x s) (\<lambda>_ s'. for_each body xs s')"

lemma and_then_assoc:
  "and_then (and_then m f) g = and_then m (\<lambda>a s. and_then (f a s) g)"
  by (cases "(m, f)" rule: and_then.cases) auto

lemma for_each_append:
  "for_each body (xs @ ys) s = and_then (for_each body xs s) (\<lambda>_ s'. for_each body ys s')"
proof (induction xs arbitrary: s)
  case Nil
  then show ?case by simp
next
  case (Cons x xs)
  have "for_each body (xs @ ys) = (\<lambda>s. and_then (for_each body xs s) (\<lambda>_ s'. for_each body ys s'))"
    by (rule ext) (rule Cons.IH)
  then show ?case by (simp add: and_then_assoc)
qed

lemma for_each_invariant:
  "(\<And>x s. x \<in> set xs \<Longrightarrow> P s \<Longrightarrow> P (snd (body x s))) \<Longrightarrow> P s \<Longrightarrow> P (snd (for_each body xs s))"
  by (induction xs arbitrary: s) (simp_all add: and_then_invariant)

lemma for_each_map_eq:
  "(\<And>x s. x \<in> set xs \<Longrightarrow> body (f x) s = body' (g x) s) \<Longrightarrow>
     for_each body (map f xs) s = for_each body' (map g xs) s"
proof (induction xs arbitrary: s)
  case (Cons x xs)
  then have "for_each body (map f xs) = for_each body' (map g xs)" by (intro ext) simp
  with Cons.prems show ?case by simp
qed simp

text \<open>A body that never fails: the loop is a fold.\<close>

text \<open>
  A body that decodes its element and stores the result: the loop stores the results in front of
  the first failure and returns that failure.
\<close>

fun decode_all :: "('x \<Rightarrow> go_error + 'y) \<Rightarrow> 'x list \<Rightarrow> unit outcome \<times> 'y list" where
  "decode_all dec [] = (Ok (), [])"
| "decode_all dec (x # xs) =
     (case dec x of
        Inl e \<Rightarrow> (Err e, [])
      | Inr y \<Rightarrow> (let (r, ys) = decode_all dec xs in (r, y # ys)))"

lemma for_each_decode:
  assumes "\<And>x s. x \<in> set xs \<Longrightarrow>
     body x s = (case dec x of Inl e \<Rightarrow> (Err e, s) | Inr y \<Rightarrow> (Ok (), store y s))"
  shows "for_each body xs s =
     (fst (decode_all dec xs), fold store (snd (decode_all dec xs)) s)"
  using assms by (induction xs arbitrary: s) (simp_all add: split_beta split: sum.split)

subsection \<open>Go maps and the order of a range loop\<close>

type_synonym ('k, 'v) gomap = "('k, 'v) fmap"

definition enumerates :: "'k list \<Rightarrow> ('k, 'v) gomap \<Rightarrow> bool" where
  "enumerates ks m \<longleftrightarrow> distinct ks \<and> set ks = fmdom' m"

lemma enumerates_empty [simp]: "enumerates ks fmempty \<longleftrightarrow> ks = []"
  by (auto simp: enumerates_def)

lemma enumerates_exists: "\<exists>ks. enumerates ks m"
  using finite_distinct_list [OF finite_fmdom' [of m]] by (auto simp: enumerates_def)

lemma enumerates_lookup:
  "enumerates ks m \<Longrightarrow> k \<in> set ks \<longleftrightarrow> (\<exists>v. fmlookup m k = Some v)"
  by (auto simp: enumerates_def fmlookup_dom'_iff)

text \<open>A loop that copies a map entry by entry builds an equal map, whatever the order.\<close>

fun copy_entries :: "('v \<Rightarrow> 'w) \<Rightarrow> ('k, 'v) gomap \<Rightarrow> 'k list \<Rightarrow> ('k, 'w) gomap \<Rightarrow> ('k, 'w) gomap" where
  "copy_entries f m [] acc = acc"
| "copy_entries f m (k # ks) acc =
     (case fmlookup m k of
        None \<Rightarrow> copy_entries f m ks acc
      | Some v \<Rightarrow> copy_entries f m ks (fmupd k (f v) acc))"

lemma lookup_copy_entries:
  "fmlookup (copy_entries f m ks acc) k =
     (if k \<in> set ks \<and> k \<in> fmdom' m then map_option f (fmlookup m k) else fmlookup acc k)"
  by (induction f m ks acc rule: copy_entries.induct)
     (auto split: option.splits simp: fmlookup_dom'_iff)

lemma copy_entries_all:
  assumes "enumerates ks m"
  shows "copy_entries f m ks fmempty = fmmap f m"
proof (rule fmap_ext)
  fix k
  show "fmlookup (copy_entries f m ks fmempty) k = fmlookup (fmmap f m) k"
    using assms by (cases "fmlookup m k") (auto simp: lookup_copy_entries enumerates_def fmdom'I fmdom'_notI)
qed

text \<open>Deleting keys one by one, as a loop around \<open>delete(m, k)\<close> does.\<close>

fun delete_keys :: "'k list \<Rightarrow> ('k, 'v) gomap \<Rightarrow> ('k, 'v) gomap" where
  "delete_keys [] m = m"
| "delete_keys (k # ks) m = delete_keys ks (fmdrop k m)"

lemma delete_keys_eq [simp]: "delete_keys ks m = fmdrop_set (set ks) m"
  by (induction ks arbitrary: m) simp_all

lemma fmap_replace:
  "fmdrop_set (fmdom' m - fmdom' n) (m ++\<^sub>f n) = n"
  by (rule fmap_ext) (auto simp: fmlookup_dom'_iff)

end
