(* ===== verification/Dependency_Graph.thy ===== *)
theory Dependency_Graph
  imports Go_Prelude
begin

section \<open>The dependency graph (\<^verbatim>\<open>pkg/state/dependency_graph.go\<close>)\<close>

text \<open>
  \<open>graph[T]\<close> keeps one heap node per key. A node is allocated by \<open>addNode\<close> only, is stored in
  \<open>g.nodes\<close> under its key at once, and is never removed or replaced, so a pointer \<open>*node[T]\<close>
  and the key of its node determine each other: the model writes the pointer as that key.
  \<open>container/list\<close> stores \<open>any\<close> values: \<open>NodePtr k\<close> is the boxed pointer to the node of \<open>k\<close> and
  \<open>Value v\<close> a boxed \<open>T\<close>; \<open>e.Value.(T)\<close> is the type assertion, which panics on the former,
  because \<open>T\<close> (\<open>*serverpb.Router_Route\<close> in this program) is a concrete type that is not
  \<open>*node[T]\<close>.
\<close>

subsection \<open>Data and operations\<close>

record 'a node =
  val :: 'a
  dependencies :: "string list"

record 'a graph =
  nodes :: "(string, 'a node) gomap"
  keyGetter :: "'a \<Rightarrow> string"

definition NewGraph :: "('a \<Rightarrow> string) \<Rightarrow> 'a graph" where
  "NewGraph kg = \<lparr>nodes = fmempty, keyGetter = kg\<rparr>"

definition addNode :: "'a graph \<Rightarrow> 'a \<Rightarrow> string \<times> 'a graph" where
  "addNode g v =
     (let key = keyGetter g v in
      case fmlookup (nodes g) key of
        None \<Rightarrow> (key, g\<lparr>nodes := fmupd key \<lparr>val = v, dependencies = []\<rparr> (nodes g)\<rparr>)
      | Some n \<Rightarrow> (key, g))"

definition AddSingleNode :: "'a graph \<Rightarrow> 'a \<Rightarrow> 'a graph" where
  "AddSingleNode g v = snd (addNode g v)"

definition AddEdge :: "'a graph \<Rightarrow> 'a \<Rightarrow> 'a \<Rightarrow> 'a graph" where
  "AddEdge g v w =
     (let (fromNode, g1) = addNode g v;
          (toNode, g2) = addNode g1 w
      in case fmlookup (nodes g2) fromNode of
           None \<Rightarrow> g2
         | Some n \<Rightarrow>
             g2\<lparr>nodes := fmupd fromNode (n\<lparr>dependencies := dependencies n @ [toNode]\<rparr>) (nodes g2)\<rparr>)"

datatype 'a any = NodePtr string | Value 'a

text \<open>The local variables of \<open>TopologicalSort\<close> that the closure \<open>visit\<close> captures.\<close>

record 'a sort_state =
  visited :: "(string, bool) gomap"
  sorted_list :: "'a any list"

function visit :: "'a graph \<Rightarrow> string \<Rightarrow> 'a sort_state \<Rightarrow> go_error option \<times> 'a sort_state"
  and visit_deps :: "'a graph \<Rightarrow> string list \<Rightarrow> 'a sort_state \<Rightarrow> go_error option \<times> 'a sort_state"
where
  "visit g n st =
     (case fmlookup (nodes g) n of
        None \<Rightarrow> (None, st)
      | Some nd \<Rightarrow>
          (let key = keyGetter g (val nd) in
           if key \<in> fmdom' (visited st) then (None, st)
           else
             (case visit_deps g (dependencies nd) (st\<lparr>visited := fmupd key True (visited st)\<rparr>) of
                (Some err, st') \<Rightarrow> (Some err, st')
              | (None, st') \<Rightarrow> (None, st'\<lparr>sorted_list := NodePtr n # sorted_list st'\<rparr>))))"
| "visit_deps g [] st = (None, st)"
| "visit_deps g (d # ds) st =
     (case visit g d st of
        (Some err, st') \<Rightarrow> (Some err, st')
      | (None, st') \<Rightarrow> visit_deps g ds st')"
  by pat_completeness auto

lemma visit_visited_mono:
  "visit_visit_deps_dom (Inl (g, n, st)) \<Longrightarrow> fmdom' (visited st) \<subseteq> fmdom' (visited (snd (visit g n st)))"
  "visit_visit_deps_dom (Inr (g, ds, st)) \<Longrightarrow> fmdom' (visited st) \<subseteq> fmdom' (visited (snd (visit_deps g ds st)))"
proof (induction g n st and g ds st rule: visit_visit_deps.pinduct)
  case (1 g n st)
  then show ?case
    by (fastforce simp: visit.psimps Let_def split: option.splits prod.splits)
next
  case (2 g st)
  then show ?case by (simp add: visit_deps.psimps)
next
  case (3 g d ds st)
  then show ?case
    by (fastforce simp: visit_deps.psimps split: option.splits prod.splits)
qed

text \<open>The keys that can still be marked: a finite set that each new visit shrinks.\<close>

definition unvisited :: "'a graph \<Rightarrow> 'a sort_state \<Rightarrow> string set" where
  "unvisited g st = (\<lambda>n. keyGetter g (val n)) ` fmran' (nodes g) - fmdom' (visited st)"

lemma finite_unvisited [simp]: "finite (unvisited g st)"
  by (simp add: unvisited_def fmran'_alt_def)

lemma unvisited_mark:
  assumes "fmlookup (nodes g) n = Some nd" and "keyGetter g (val nd) \<notin> fmdom' (visited st)"
  shows "unvisited g (st\<lparr>visited := fmupd (keyGetter g (val nd)) True (visited st)\<rparr>) \<subset> unvisited g st"
  using assms by (auto simp: unvisited_def fmran'I)

termination visit
proof (relation "inv_image (finite_psubset <*lex*> less_than)
    (\<lambda>x. case x of Inl (g, n, st) \<Rightarrow> (unvisited g st, 0)
                 | Inr (g, ds, st) \<Rightarrow> (unvisited g st, length ds))", goal_cases)
  case 1
  then show ?case by (simp add: wf_lex_prod)
next
  case (2 g n st nd key)
  then show ?case by (auto simp: finite_psubset_def dest: unvisited_mark)
next
  case (3 g d ds st)
  then show ?case by simp
next
  case (4 g d ds st e st')
  then have "fmdom' (visited st) \<subseteq> fmdom' (visited st')"
    using visit_visited_mono(1) [of g d st] by (metis snd_conv)
  then have "unvisited g st' \<subseteq> unvisited g st"
    by (auto simp: unvisited_def)
  then show ?case by (auto simp: finite_psubset_def)
qed

declare visit.simps [simp del]


text \<open>The loop over \<open>g.nodes\<close>, whose order the runtime picks: \<open>ks\<close>.\<close>

fun visit_roots :: "'a graph \<Rightarrow> string list \<Rightarrow> 'a sort_state \<Rightarrow> go_error option \<times> 'a sort_state" where
  "visit_roots g [] st = (None, st)"
| "visit_roots g (k # ks) st =
     (case fmlookup (nodes g) k of
        None \<Rightarrow> visit_roots g ks st
      | Some nd \<Rightarrow>
          (let key = keyGetter g (val nd) in
           if key \<in> fmdom' (visited st) then visit_roots g ks st
           else
             (case visit g k st of
                (Some err, st') \<Rightarrow> (Some err, st')
              | (None, st') \<Rightarrow> visit_roots g ks st')))"

text \<open>The final loop, with the type assertion of each element.\<close>

fun collect_values :: "'a any list \<Rightarrow> 'a list \<Rightarrow> 'a list outcome" where
  "collect_values [] result = Ok result"
| "collect_values (Value v # e) result = collect_values e (result @ [v])"
| "collect_values (NodePtr k # e) result = Panic InterfaceConversion"

definition sort_nodes :: "'a graph \<Rightarrow> string list \<Rightarrow> go_error option \<times> 'a sort_state" where
  "sort_nodes g ks = visit_roots g ks \<lparr>visited = fmempty, sorted_list = []\<rparr>"

definition TopologicalSort :: "'a graph \<Rightarrow> string list \<Rightarrow> 'a list outcome" where
  "TopologicalSort g ks =
     (case sort_nodes g ks of
        (Some err, st) \<Rightarrow> Err err
      | (None, st) \<Rightarrow> collect_values (sorted_list st) [])"

subsection \<open>What a visit does\<close>

definition edges :: "'a graph \<Rightarrow> (string \<times> string) set" where
  "edges g = {(k, d). \<exists>n. fmlookup (nodes g) k = Some n \<and> d \<in> set (dependencies n)}"

text \<open>
  The invariant of the graph: a node is stored under the key of its value, and every
  dependency is a node of the graph.
\<close>

definition wf_graph :: "'a graph \<Rightarrow> bool" where
  "wf_graph g \<longleftrightarrow>
     (\<forall>k n. fmlookup (nodes g) k = Some n \<longrightarrow>
        keyGetter g (val n) = k \<and> set (dependencies n) \<subseteq> fmdom' (nodes g))"

lemma wf_graph_key: "wf_graph g \<Longrightarrow> fmlookup (nodes g) k = Some n \<Longrightarrow> keyGetter g (val n) = k"
  by (simp add: wf_graph_def)

lemma wf_graph_deps:
  "wf_graph g \<Longrightarrow> fmlookup (nodes g) k = Some n \<Longrightarrow> set (dependencies n) \<subseteq> fmdom' (nodes g)"
  by (simp add: wf_graph_def)

fun ptr_keys :: "'a any list \<Rightarrow> string list" where
  "ptr_keys [] = []"
| "ptr_keys (NodePtr k # xs) = k # ptr_keys xs"
| "ptr_keys (Value v # xs) = ptr_keys xs"

definition pushed :: "'a sort_state \<Rightarrow> string set" where
  "pushed st = set (ptr_keys (sorted_list st))"

definition on_stack :: "'a sort_state \<Rightarrow> string set" where
  "on_stack st = fmdom' (visited st) - pushed st"

definition sort_ok :: "'a graph \<Rightarrow> 'a sort_state \<Rightarrow> bool" where
  "sort_ok g st \<longleftrightarrow>
     distinct (ptr_keys (sorted_list st)) \<and> pushed st \<subseteq> fmdom' (visited st)
     \<and> fmdom' (visited st) \<subseteq> fmdom' (nodes g)
     \<and> sorted_list st = map NodePtr (ptr_keys (sorted_list st))"

definition visited_all :: "'a graph \<Rightarrow> string set \<Rightarrow> 'a sort_state \<Rightarrow> go_error option \<times> 'a sort_state \<Rightarrow> bool" where
  "visited_all g ns st res \<longleftrightarrow>
     fst res = None \<and> sort_ok g (snd res) \<and> ns \<subseteq> fmdom' (visited (snd res))
     \<and> pushed st \<subseteq> pushed (snd res) \<and> on_stack (snd res) = on_stack st"

lemma visited_all_mono:
  assumes "visited_all g ns st res"
  shows "fmdom' (visited st) \<subseteq> fmdom' (visited (snd res))"
  using assms by (auto simp: visited_all_def on_stack_def sort_ok_def)

lemma visited_all_skip:
  "sort_ok g st \<Longrightarrow> ns \<subseteq> fmdom' (visited st) \<Longrightarrow> visited_all g ns st (None, st)"
  by (simp add: visited_all_def)

lemma visited_all_seq:
  assumes "visited_all g ns st (r, st1)" and "visited_all g ms st1 res"
  shows "visited_all g (ns \<union> ms) st res"
  using assms visited_all_mono [OF assms(2)] by (auto simp: visited_all_def)

text \<open>Marking a node puts it on the stack; pushing it to the list takes it off again.\<close>

lemma sort_ok_mark:
  assumes "sort_ok g st" "n \<in> fmdom' (nodes g)" "n \<notin> fmdom' (visited st)"
  shows "sort_ok g (st\<lparr>visited := fmupd n True (visited st)\<rparr>)"
    and "on_stack (st\<lparr>visited := fmupd n True (visited st)\<rparr>) = insert n (on_stack st)"
  using assms by (auto simp: sort_ok_def on_stack_def pushed_def)

lemma visited_all_push:
  assumes st: "sort_ok g st" and n: "n \<in> fmdom' (nodes g)" "n \<notin> fmdom' (visited st)"
    and all: "visited_all g ds (st\<lparr>visited := fmupd n True (visited st)\<rparr>) (r, st')"
  shows "visited_all g {n} st (None, st'\<lparr>sorted_list := NodePtr n # sorted_list st'\<rparr>)"
proof -
  from all sort_ok_mark (2) [OF st n] have on: "on_stack st' = insert n (on_stack st)"
    and ok: "sort_ok g st'" by (simp_all add: visited_all_def)
  from n(2) have nst: "n \<notin> on_stack st" by (simp add: on_stack_def)
  from on have "n \<notin> pushed st'" and "n \<in> fmdom' (visited st')" by (auto simp: on_stack_def)
  then show ?thesis using all on ok nst
    by (auto simp: visited_all_def sort_ok_def on_stack_def pushed_def)
qed

lemma visit_effect:
  "wf_graph g \<Longrightarrow> sort_ok g st \<Longrightarrow> n \<in> fmdom' (nodes g) \<Longrightarrow> visited_all g {n} st (visit g n st)"
  "wf_graph g \<Longrightarrow> sort_ok g st \<Longrightarrow> set ds \<subseteq> fmdom' (nodes g) \<Longrightarrow> visited_all g (set ds) st (visit_deps g ds st)"
proof (induction g n st and g ds st rule: visit_visit_deps.induct)
  case (1 g n st)
  then obtain nd where nd: "fmlookup (nodes g) n = Some nd" by (auto simp: fmlookup_dom'_iff)
  with 1 have key: "keyGetter g (val nd) = n" by (simp add: wf_graph_key)
  show ?case
  proof (cases "n \<in> fmdom' (visited st)")
    case True
    with nd key 1 show ?thesis by (simp add: visit.simps visited_all_skip)
  next
    case False
    let ?st = "st\<lparr>visited := fmupd n True (visited st)\<rparr>"
    obtain r st' where run: "visit_deps g (dependencies nd) ?st = (r, st')" by fastforce
    from False key nd 1 have "visited_all g (set (dependencies nd)) ?st (r, st')"
      by (auto simp: sort_ok_mark wf_graph_deps simp flip: run)
    moreover from this have "r = None" by (simp add: visited_all_def)
    ultimately show ?thesis using nd key False run 1
      by (auto simp: visit.simps intro: visited_all_push)
  qed
next
  case (2 g st)
  then show ?case by (simp add: visited_all_skip)
next
  case (3 g d ds st)
  obtain r st1 where run: "visit g d st = (r, st1)" by fastforce
  with 3 have one: "visited_all g {d} st (r, st1)" by simp
  then have "r = None" and "sort_ok g st1" by (simp_all add: visited_all_def)
  with 3 run have "visited_all g (set ds) st1 (visit_deps g ds st1)" by auto
  from visited_all_seq [OF one this] show ?case
    using run \<open>r = None\<close> by simp
qed
subsection \<open>The order of the list\<close>

fun deps_follow :: "'a graph \<Rightarrow> string list \<Rightarrow> bool" where
  "deps_follow g [] = True"
| "deps_follow g (k # ks) = ((\<forall>d. (k, d) \<in> edges g \<longrightarrow> d \<in> set ks) \<and> deps_follow g ks)"

definition precedes :: "'k \<Rightarrow> 'k \<Rightarrow> 'k list \<Rightarrow> bool" where
  "precedes a b xs \<longleftrightarrow> (\<exists>us vs ws. xs = us @ a # vs @ b # ws)"

lemma precedes_Cons: "b \<in> set xs \<Longrightarrow> precedes a b (a # xs)"
  unfolding precedes_def by (metis append_Nil split_list)

lemma precedes_ConsI: "precedes a b xs \<Longrightarrow> precedes a b (x # xs)"
  unfolding precedes_def by (metis append_Cons)

lemma deps_follow_precedes:
  "deps_follow g ks \<Longrightarrow> a \<in> set ks \<Longrightarrow> (a, b) \<in> edges g \<Longrightarrow> precedes a b ks"
  by (induction ks) (auto intro: precedes_Cons precedes_ConsI)

abbreviation listed :: "'a sort_state \<Rightarrow> string list" where
  "listed st \<equiv> ptr_keys (sorted_list st)"

lemma edges_lookup: "fmlookup (nodes g) n = Some nd \<Longrightarrow> (n, d) \<in> edges g \<longleftrightarrow> d \<in> set (dependencies nd)"
  by (simp add: edges_def)

lemma visit_order:
  "wf_graph g \<Longrightarrow> acyclic (edges g) \<Longrightarrow> sort_ok g st \<Longrightarrow> n \<in> fmdom' (nodes g) \<Longrightarrow>
     \<forall>x\<in>on_stack st. (x, n) \<in> (edges g)\<^sup>+ \<Longrightarrow> deps_follow g (listed st) \<Longrightarrow>
     deps_follow g (listed (snd (visit g n st)))"
  "wf_graph g \<Longrightarrow> acyclic (edges g) \<Longrightarrow> sort_ok g st \<Longrightarrow> set ds \<subseteq> fmdom' (nodes g) \<Longrightarrow>
     \<forall>x\<in>on_stack st. \<forall>d\<in>set ds. (x, d) \<in> (edges g)\<^sup>+ \<Longrightarrow> deps_follow g (listed st) \<Longrightarrow>
     deps_follow g (listed (snd (visit_deps g ds st)))"
proof (induction g n st and g ds st rule: visit_visit_deps.induct)
  case (1 g n st)
  then obtain nd where nd: "fmlookup (nodes g) n = Some nd" by (auto simp: fmlookup_dom'_iff)
  with 1 have key: "keyGetter g (val nd) = n" by (simp add: wf_graph_key)
  show ?case
  proof (cases "n \<in> fmdom' (visited st)")
    case True
    with nd key 1 show ?thesis by (simp add: visit.simps)
  next
    case False
    let ?st = "st\<lparr>visited := fmupd n True (visited st)\<rparr>"
    obtain r st' where run: "visit_deps g (dependencies nd) ?st = (r, st')" by fastforce
    note mark = sort_ok_mark [OF 1(4) 1(5) False]
    have deps: "set (dependencies nd) \<subseteq> fmdom' (nodes g)" using 1(2) nd by (rule wf_graph_deps)
    have all: "visited_all g (set (dependencies nd)) ?st (r, st')"
      using visit_effect (2) [OF 1(2) mark(1) deps] run by simp
    have reach: "(x, d) \<in> (edges g)\<^sup>+" if "x \<in> on_stack ?st" "d \<in> set (dependencies nd)" for x d
      using that 1(6) mark(2) nd by (auto simp: edges_lookup intro: trancl_into_trancl)
    with 1 nd key False mark(1) deps run have follow: "deps_follow g (listed st')"
      by fastforce
    have "set (dependencies nd) \<subseteq> pushed st'"
    proof
      fix d assume d: "d \<in> set (dependencies nd)"
      then have "d \<notin> on_stack ?st" using reach [of d d] 1(3) by (auto simp: acyclic_def)
      then show "d \<in> pushed st'" using all d by (auto simp: visited_all_def on_stack_def)
    qed
    then have "deps_follow g (n # listed st')"
      using follow nd by (auto simp: edges_lookup pushed_def)
    then show ?thesis using nd key False run all by (simp add: visit.simps visited_all_def)
  qed
next
  case (2 g st)
  then show ?case by simp
next
  case (3 g d ds st)
  obtain r st1 where run: "visit g d st = (r, st1)" by fastforce
  with 3 have "visited_all g {d} st (r, st1)" using visit_effect (1) [of g st d] by simp
  then have "r = None" and "sort_ok g st1" and "on_stack st1 = on_stack st"
    by (simp_all add: visited_all_def)
  with 3 run show ?case by fastforce
qed

subsection \<open>The whole sort\<close>

text \<open>Between two roots no node is on the stack, so each root starts from a clean state.\<close>

lemma visit_roots_effect:
  assumes "wf_graph g" and "sort_ok g st" and "on_stack st = {}" and "set ks \<subseteq> fmdom' (nodes g)"
  shows "visited_all g (set ks) st (visit_roots g ks st)"
  using assms(2-)
proof (induction ks arbitrary: st)
  case Nil
  then show ?case by (simp add: visited_all_skip)
next
  case (Cons k ks)
  then obtain nd where nd: "fmlookup (nodes g) k = Some nd" by (auto simp: fmlookup_dom'_iff)
  with assms(1) have key: "keyGetter g (val nd) = k" by (simp add: wf_graph_key)
  obtain r st1 where run: "visit g k st = (r, st1)" by fastforce
  with Cons.prems assms(1) have one: "visited_all g {k} st (r, st1)"
    using visit_effect (1) [of g st k] by simp
  show ?case
  proof (cases "k \<in> fmdom' (visited st)")
    case True
    with Cons nd key visited_all_seq [OF visited_all_skip [of g st "{k}"]] show ?thesis by simp
  next
    case False
    from one have "r = None" "sort_ok g st1" "on_stack st1 = {}"
      using Cons.prems by (simp_all add: visited_all_def)
    with Cons False nd key run visited_all_seq [OF one] show ?thesis by simp
  qed
qed

lemma visit_roots_order:
  assumes "wf_graph g" and "acyclic (edges g)" and "sort_ok g st" and "on_stack st = {}"
    and "set ks \<subseteq> fmdom' (nodes g)" and "deps_follow g (listed st)"
  shows "deps_follow g (listed (snd (visit_roots g ks st)))"
  using assms(3-)
proof (induction ks arbitrary: st)
  case Nil
  then show ?case by simp
next
  case (Cons k ks)
  then obtain nd where nd: "fmlookup (nodes g) k = Some nd" by (auto simp: fmlookup_dom'_iff)
  obtain r st1 where run: "visit g k st = (r, st1)" by fastforce
  with Cons.prems assms(1) have "visited_all g {k} st (r, st1)"
    using visit_effect (1) [of g st k] by simp
  then have "r = None" "sort_ok g st1" "on_stack st1 = {}"
    using Cons.prems by (simp_all add: visited_all_def)
  moreover have "deps_follow g (listed st1)"
    using visit_order (1) [of g st k] Cons.prems assms(1,2) run by simp
  ultimately show ?case using Cons nd run by (simp add: Let_def)
qed

lemma sort_nodes_effect:
  assumes "wf_graph g" and "enumerates ks (nodes g)"
  obtains st where "sort_nodes g ks = (None, st)" and "sorted_list st = map NodePtr (listed st)"
    and "distinct (listed st)" and "set (listed st) = fmdom' (nodes g)"
proof -
  let ?init = "\<lparr>visited = fmempty, sorted_list = []\<rparr> :: 'a sort_state"
  have init: "sort_ok g ?init" "on_stack ?init = {}"
    by (simp_all add: sort_ok_def on_stack_def pushed_def)
  obtain r st where run: "sort_nodes g ks = (r, st)" by fastforce
  from assms(2) have ks: "set ks = fmdom' (nodes g)" by (simp add: enumerates_def)
  with visit_roots_effect [OF assms(1) init, of ks] run
  have all: "visited_all g (fmdom' (nodes g)) ?init (r, st)"
    by (simp add: sort_nodes_def)
  then have "set (listed st) = fmdom' (nodes g)"
    using init by (auto simp: visited_all_def sort_ok_def on_stack_def pushed_def)
  with all run show ?thesis by (intro that [of st]) (auto simp: visited_all_def sort_ok_def)
qed

lemma collect_pointers: "collect_values (map NodePtr ks) [] = (if ks = [] then Ok [] else Panic InterfaceConversion)"
  by (cases ks) simp_all

lemma no_nodes_iff: "fmdom' (nodes g) = {} \<longleftrightarrow> nodes g = fmempty"
  by (metis fmap_ext fmdom'_empty fmdom'_notI fmempty_lookup fmlookup_dom'_iff empty_iff option.exhaust)

lemma TopologicalSort_collects:
  assumes "wf_graph g" and "enumerates ks (nodes g)"
  obtains L where "TopologicalSort g ks = collect_values (map NodePtr L) []" and "set L = fmdom' (nodes g)"
proof -
  obtain st where st: "sort_nodes g ks = (None, st)" "sorted_list st = map NodePtr (listed st)"
    "set (listed st) = fmdom' (nodes g)"
    using sort_nodes_effect [OF assms] by metis
  then have "TopologicalSort g ks = collect_values (map NodePtr (listed st)) []"
    by (simp add: TopologicalSort_def)
  with st(3) show ?thesis using that by blast
qed

subsection \<open>The graph as an abstract structure\<close>

text \<open>
  What the callers of \<open>Graph[T]\<close> rely on: the keys of the nodes, the value first stored under
  each key, and the edges.
\<close>

definition node_value :: "'a graph \<Rightarrow> string \<Rightarrow> 'a option" where
  "node_value g k = map_option val (fmlookup (nodes g) k)"

lemma wf_graph_NewGraph: "wf_graph (NewGraph kg)"
  by (simp add: wf_graph_def NewGraph_def)

lemma keyGetter_NewGraph [simp]: "keyGetter (NewGraph kg) = kg"
  by (simp add: NewGraph_def)

lemma node_value_NewGraph: "node_value (NewGraph kg) k = None"
  by (simp add: NewGraph_def node_value_def)

lemma edges_NewGraph: "edges (NewGraph kg) = {}"
  by (simp add: edges_def NewGraph_def)

lemma fst_addNode [simp]: "fst (addNode g v) = keyGetter g v"
  by (simp add: addNode_def Let_def split: option.split)

lemma keyGetter_addNode [simp]: "keyGetter (snd (addNode g v)) = keyGetter g"
  by (simp add: addNode_def Let_def split: option.split)

lemma lookup_addNode:
  "fmlookup (nodes (snd (addNode g v))) k =
     (if k = keyGetter g v \<and> fmlookup (nodes g) k = None then Some \<lparr>val = v, dependencies = []\<rparr>
      else fmlookup (nodes g) k)"
  by (auto simp: addNode_def Let_def split: option.split)

lemma dom_addNode [simp]: "fmdom' (nodes (snd (addNode g v))) = insert (keyGetter g v) (fmdom' (nodes g))"
  by (auto simp: addNode_def Let_def fmlookup_dom'_iff split: option.split)

lemma wf_addNode: "wf_graph g \<Longrightarrow> wf_graph (snd (addNode g v))"
  by (auto simp: wf_graph_def lookup_addNode)

lemma edges_addNode [simp]: "edges (snd (addNode g v)) = edges g"
  by (auto simp: edges_def lookup_addNode split: if_splits)

lemma node_value_addNode:
  "node_value (snd (addNode g v)) k =
     (if k = keyGetter g v \<and> node_value g k = None then Some v else node_value g k)"
  by (auto simp: node_value_def lookup_addNode)

lemma AddEdge_alt:
  obtains n where "fmlookup (nodes (snd (addNode (snd (addNode g v)) w))) (keyGetter g v) = Some n"
    and "AddEdge g v w = (snd (addNode (snd (addNode g v)) w))
      \<lparr>nodes := fmupd (keyGetter g v) (n\<lparr>dependencies := dependencies n @ [keyGetter g w]\<rparr>)
         (nodes (snd (addNode (snd (addNode g v)) w)))\<rparr>"
proof -
  let ?g2 = "snd (addNode (snd (addNode g v)) w)"
  have "keyGetter g v \<in> fmdom' (nodes ?g2)" by simp
  then obtain n where "fmlookup (nodes ?g2) (keyGetter g v) = Some n"
    by (auto simp only: fmlookup_dom'_iff)
  then show ?thesis by (intro that) (simp_all add: AddEdge_def split_beta)
qed

lemma keyGetter_AddEdge [simp]: "keyGetter (AddEdge g v w) = keyGetter g"
  by (rule AddEdge_alt [of g v w]) simp

lemma dom_AddEdge [simp]:
  "fmdom' (nodes (AddEdge g v w)) = insert (keyGetter g v) (insert (keyGetter g w) (fmdom' (nodes g)))"
  by (rule AddEdge_alt [of g v w]) auto

lemma wf_AddEdge:
  assumes "wf_graph g"
  shows "wf_graph (AddEdge g v w)"
proof (rule AddEdge_alt [of g v w])
  fix n
  let ?g2 = "snd (addNode (snd (addNode g v)) w)"
  assume n: "fmlookup (nodes ?g2) (keyGetter g v) = Some n"
    and eq: "AddEdge g v w = ?g2\<lparr>nodes := fmupd (keyGetter g v)
      (n\<lparr>dependencies := dependencies n @ [keyGetter g w]\<rparr>) (nodes ?g2)\<rparr>"
  have "wf_graph ?g2" using assms by (intro wf_addNode)
  then show ?thesis using n unfolding eq wf_graph_def by auto
qed

lemma edges_AddEdge: "edges (AddEdge g v w) = insert (keyGetter g v, keyGetter g w) (edges g)"
proof (rule AddEdge_alt [of g v w])
  fix n
  let ?g2 = "snd (addNode (snd (addNode g v)) w)"
  assume n: "fmlookup (nodes ?g2) (keyGetter g v) = Some n"
    and eq: "AddEdge g v w = ?g2\<lparr>nodes := fmupd (keyGetter g v)
      (n\<lparr>dependencies := dependencies n @ [keyGetter g w]\<rparr>) (nodes ?g2)\<rparr>"
  have "edges (AddEdge g v w) = insert (keyGetter g v, keyGetter g w) (edges ?g2)"
    unfolding eq edges_def using n by (fastforce split: if_splits)
  then show ?thesis by simp
qed

lemma node_value_AddEdge:
  "node_value (AddEdge g v w) k =
     (if k = keyGetter g v \<and> node_value g k = None then Some v
      else if k = keyGetter g w \<and> node_value g k = None then Some w
      else node_value g k)"
proof (rule AddEdge_alt [of g v w])
  fix n
  let ?g2 = "snd (addNode (snd (addNode g v)) w)"
  assume n: "fmlookup (nodes ?g2) (keyGetter g v) = Some n"
    and eq: "AddEdge g v w = ?g2\<lparr>nodes := fmupd (keyGetter g v)
      (n\<lparr>dependencies := dependencies n @ [keyGetter g w]\<rparr>) (nodes ?g2)\<rparr>"
  have "node_value (AddEdge g v w) k = node_value ?g2 k"
    unfolding eq using n by (auto simp: node_value_def)
  then show ?thesis by (auto simp: node_value_addNode)
qed

subsection \<open>The interface \<open>Graph[T]\<close>\<close>

text \<open>
  The contract of the interface for its client, the routes state: which keys, edges and values a
  graph has after each of the two insertions. \<open>key\<close> is the function given to \<open>NewGraph\<close>.
\<close>

locale graph_interface =
  fixes key :: "'a \<Rightarrow> string"
    and graph_inv :: "'g \<Rightarrow> bool"
    and value_of :: "'g \<Rightarrow> string \<Rightarrow> 'a option"
    and edges_of :: "'g \<Rightarrow> (string \<times> string) set"
    and add_single :: "'g \<Rightarrow> 'a \<Rightarrow> 'g"
    and add_edge :: "'g \<Rightarrow> 'a \<Rightarrow> 'a \<Rightarrow> 'g"
  assumes single_inv: "graph_inv g \<Longrightarrow> graph_inv (add_single g v)"
    and edge_inv: "graph_inv g \<Longrightarrow> graph_inv (add_edge g v w)"
    and single_value: "graph_inv g \<Longrightarrow> value_of (add_single g v) k =
          (if k = key v \<and> value_of g k = None then Some v else value_of g k)"
    and edge_value: "graph_inv g \<Longrightarrow> value_of (add_edge g v w) k =
          (if k = key v \<and> value_of g k = None then Some v
           else if k = key w \<and> value_of g k = None then Some w
           else value_of g k)"
    and single_edges: "graph_inv g \<Longrightarrow> edges_of (add_single g v) = edges_of g"
    and edge_edges: "graph_inv g \<Longrightarrow> edges_of (add_edge g v w) = insert (key v, key w) (edges_of g)"

definition graph_ok :: "('a \<Rightarrow> string) \<Rightarrow> 'a graph \<Rightarrow> bool" where
  "graph_ok key g \<longleftrightarrow> wf_graph g \<and> keyGetter g = key"

lemma graph_ok_NewGraph: "graph_ok key (NewGraph key)"
  by (simp add: graph_ok_def wf_graph_NewGraph)

interpretation graph_impl: graph_interface key "graph_ok key" node_value edges AddSingleNode AddEdge
  for key :: "'a \<Rightarrow> string"
  by unfold_locales
     (auto simp: graph_ok_def AddSingleNode_def wf_addNode wf_AddEdge node_value_addNode
        node_value_AddEdge edges_AddEdge)

subsection \<open>Properties\<close>

text \<open>
  C4. For every graph whose edges form no cycle and every order in which the runtime ranges over
  the nodes, the depth-first loops of \<open>TopologicalSort\<close> return no error and build a list of
  pointers to nodes in which every node of the graph occurs exactly once and every node stands
  before each of its dependencies.
\<close>

theorem sort_nodes_topological:
  assumes "wf_graph g" and "acyclic (edges g)" and "enumerates ks (nodes g)"
  shows "\<exists>st L. sort_nodes g ks = (None, st) \<and> sorted_list st = map NodePtr L \<and> distinct L
           \<and> set L = fmdom' (nodes g) \<and> (\<forall>(a, b) \<in> edges g. precedes a b L)"
proof -
  obtain st where st: "sort_nodes g ks = (None, st)" "sorted_list st = map NodePtr (listed st)"
    "distinct (listed st)" "set (listed st) = fmdom' (nodes g)"
    using sort_nodes_effect [OF assms(1,3)] .
  have "deps_follow g (listed st)"
    using visit_roots_order [OF assms(1,2), of "\<lparr>visited = fmempty, sorted_list = []\<rparr>" ks] st(1) assms(3)
    by (simp add: sort_nodes_def sort_ok_def on_stack_def pushed_def enumerates_def)
  moreover have "a \<in> fmdom' (nodes g)" if "(a, b) \<in> edges g" for a b
    using that by (auto simp: edges_def fmdom'I)
  ultimately have "\<forall>(a, b) \<in> edges g. precedes a b (listed st)"
    using st(4) by (auto intro: deps_follow_precedes)
  with st show ?thesis by blast
qed

text \<open>A graph of two nodes, with the edge from \<open>b\<close> to \<open>a\<close>, for the witnesses.\<close>

definition two_nodes :: "string graph" where
  "two_nodes = AddEdge (NewGraph id) ''b'' ''a''"

lemma two_nodes_simps:
  "nodes two_nodes = fmupd ''b'' \<lparr>val = ''b'', dependencies = [''a'']\<rparr>
     (fmupd ''a'' \<lparr>val = ''a'', dependencies = []\<rparr> (fmupd ''b'' \<lparr>val = ''b'', dependencies = []\<rparr> fmempty))"
  "keyGetter two_nodes = id"
  by (simp_all add: two_nodes_def AddEdge_def addNode_def NewGraph_def Let_def)

lemma two_nodes_ok:
  "wf_graph two_nodes" "acyclic (edges two_nodes)" "enumerates [''a'', ''b''] (nodes two_nodes)"
proof -
  show "wf_graph two_nodes" by (simp add: two_nodes_def wf_AddEdge wf_graph_NewGraph)
  have "edges two_nodes = {(''b'', ''a'')}"
    by (simp add: two_nodes_def edges_AddEdge edges_NewGraph)
  then show "acyclic (edges two_nodes)" by (simp add: acyclic_insert) (simp add: acyclic_def)
  show "enumerates [''a'', ''b''] (nodes two_nodes)"
    by (auto simp: enumerates_def two_nodes_simps)
qed

theorem sort_nodes_topological_witness:
  "(\<exists>st L. sort_nodes two_nodes [''a'', ''b''] = (None, st) \<and> sorted_list st = map NodePtr L
      \<and> distinct L \<and> set L = fmdom' (nodes two_nodes)
      \<and> (\<forall>(a, b) \<in> edges two_nodes. precedes a b L))
   \<and> sorted_list (snd (sort_nodes two_nodes [''a'', ''b''])) = [NodePtr ''b'', NodePtr ''a'']"
  by (intro conjI sort_nodes_topological two_nodes_ok)
     (simp add: sort_nodes_def visit.simps two_nodes_simps Let_def)

text \<open>
  \<open>TopologicalSort\<close> returns an empty list for an empty graph and panics on every other graph,
  whatever the order of the nodes: the list holds \<open>*node[T]\<close> values and the last loop asserts
  that they are \<open>T\<close>.
\<close>

theorem TopologicalSort_outcome:
  assumes "wf_graph g" and "enumerates ks (nodes g)"
  shows "TopologicalSort g ks = (if nodes g = fmempty then Ok [] else Panic InterfaceConversion)"
proof -
  obtain L where "TopologicalSort g ks = collect_values (map NodePtr L) []" "set L = fmdom' (nodes g)"
    using TopologicalSort_collects [OF assms] .
  then show ?thesis using no_nodes_iff [of g] by (cases "L = []") (auto simp: collect_pointers)
qed

theorem TopologicalSort_outcome_witness:
  "TopologicalSort two_nodes [''a'', ''b''] = Panic InterfaceConversion"
  using TopologicalSort_outcome [OF two_nodes_ok(1,3)] two_nodes_simps(1)
  by (auto dest: arg_cong [where f = fmdom'])

text \<open>
  C40. A cycle is not an error: for every graph, cyclic or not, the loops end, return no error and
  list every node exactly once.
\<close>

theorem sort_nodes_accepts_cycles:
  assumes "wf_graph g" and "enumerates ks (nodes g)"
  shows "\<exists>st L. sort_nodes g ks = (None, st) \<and> sorted_list st = map NodePtr L \<and> distinct L
           \<and> set L = fmdom' (nodes g)"
  using sort_nodes_effect [OF assms] by metis


text \<open>A graph of one node that depends on itself.\<close>

theorem sort_nodes_accepts_cycles_witness:
  "\<exists>st L. sort_nodes (AddEdge (NewGraph id) ''a'' ''a'') [''a''] = (None, st)
     \<and> sorted_list st = map NodePtr L \<and> distinct L
     \<and> set L = fmdom' (nodes (AddEdge (NewGraph id) ''a'' ''a''))"
proof (rule sort_nodes_accepts_cycles)
  show "wf_graph (AddEdge (NewGraph id) ''a'' ''a'')" by (intro wf_AddEdge wf_graph_NewGraph)
  show "enumerates [''a''] (nodes (AddEdge (NewGraph id) ''a'' ''a''))"
    by (simp add: enumerates_def NewGraph_def)
qed

end
