(* ===== verification/Http_Header.thy ===== *)
theory Http_Header
  imports Go_Prelude
begin

section \<open>Header names (\<^verbatim>\<open>net/textproto\<close>)\<close>

text \<open>
  The canonical form of a header name, which \<^verbatim>\<open>net/http\<close> and \<^verbatim>\<open>gorilla/mux\<close> both look names up by: upper
  case at the start and after a hyphen, lower case elsewhere; a name with other characters than those of
  a token is left alone.
\<close>

definition upper :: "char \<Rightarrow> char" where
  "upper c = (let k = of_char c :: nat in if 97 \<le> k \<and> k \<le> 122 then char_of (k - 32) else c)"

definition lower :: "char \<Rightarrow> char" where
  "lower c = (let k = of_char c :: nat in if 65 \<le> k \<and> k \<le> 90 then char_of (k + 32) else c)"

definition token_char :: "char \<Rightarrow> bool" where
  "token_char c \<longleftrightarrow>
     (let k = of_char c :: nat in
      (48 \<le> k \<and> k \<le> 57) \<or> (65 \<le> k \<and> k \<le> 90) \<or> (94 \<le> k \<and> k \<le> 122)
      \<or> k \<in> {33, 35, 36, 37, 38, 39, 42, 43, 45, 46, 124, 126})"

fun canonical :: "bool \<Rightarrow> string \<Rightarrow> string" where
  "canonical at_start [] = []"
| "canonical at_start (c # cs) = (if at_start then upper c else lower c) # canonical (c = CHR ''-'') cs"

definition CanonicalHeaderKey :: "string \<Rightarrow> string" where
  "CanonicalHeaderKey k = (if list_all token_char k then canonical True k else k)"

lemma CanonicalHeaderKey_Nil [simp]: "CanonicalHeaderKey [] = []"
  by (simp add: CanonicalHeaderKey_def)

end
