(* ===== verification/Router_Proto.thy ===== *)
theory Router_Proto
  imports Go_Prelude "HOL-Library.Word"
begin

section \<open>The messages of the router configuration (\<^verbatim>\<open>pkg/proto\<close>)\<close>

text \<open>
  The Go structs generated from \<^verbatim>\<open>proto/server/router.proto\<close> and
  \<^verbatim>\<open>proto/providers/aws/lambda.proto\<close>, without the bookkeeping fields of the protobuf runtime.
  A message field is a pointer that may be nil: an \<open>option\<close>. A oneof is an interface that is nil
  when no case is set: an \<open>option\<close> of the datatype of its cases. An enum is an \<open>int32\<close>, and a
  message may hold a number the enum does not name. The elements of a repeated message field and
  the payload of a oneof case are never nil in a message that \<^verbatim>\<open>protojson\<close> produced, which is
  where every message of the program comes from.
\<close>

type_synonym int32 = "32 word"

record LambdaBackend =
  FunctionName :: string
  Qualifier :: string
  EnableHealthCheck :: bool

datatype Router_Handler_Backend = Router_Handler_AwsLambda LambdaBackend

record Router_Handler =
  Backend :: "Router_Handler_Backend option"

definition Router_Route_MethodsRule_Method_name :: "(int32, string) gomap" where
  "Router_Route_MethodsRule_Method_name = fmap_of_list
     [(0, ''GET''), (1, ''HEAD''), (2, ''POST''), (3, ''PUT''), (4, ''DELETE''),
      (5, ''CONNECT''), (6, ''OPTIONS''), (7, ''TRACE''), (8, ''PATCH'')]"

definition Router_Route_MethodsRule_Method_value :: "(string, int32) gomap" where
  "Router_Route_MethodsRule_Method_value = fmap_of_list
     [(''GET'', 0), (''HEAD'', 1), (''POST'', 2), (''PUT'', 3), (''DELETE'', 4),
      (''CONNECT'', 5), (''OPTIONS'', 6), (''TRACE'', 7), (''PATCH'', 8)]"

definition Router_Route_SchemesRule_Scheme_name :: "(int32, string) gomap" where
  "Router_Route_SchemesRule_Scheme_name = fmap_of_list [(0, ''HTTP''), (1, ''HTTPS'')]"

definition Router_Route_SchemesRule_Scheme_value :: "(string, int32) gomap" where
  "Router_Route_SchemesRule_Scheme_value = fmap_of_list [(''HTTP'', 0), (''HTTPS'', 1)]"

text \<open>The cases of the oneof \<open>rule\<close>, each with the field of its rule message.\<close>

datatype Router_Route_Matcher_Rule =
    Router_Route_Matcher_IsGrpcCall bool
  | Router_Route_Matcher_Host string
  | Router_Route_Matcher_Path string
  | Router_Route_Matcher_PathPrefix string
  | Router_Route_Matcher_Methods "int32 list"
  | Router_Route_Matcher_Schemes "int32 list"
  | Router_Route_Matcher_Headers "(string, string) gomap"
  | Router_Route_Matcher_HeadersRegexp "(string, string) gomap"
  | Router_Route_Matcher_Queries "(string, string) gomap"

record Router_Route_Matcher =
  Rule :: "Router_Route_Matcher_Rule option"

record Router_Route =
  Name :: string
  ParentName :: string
  Matchers :: "Router_Route_Matcher list"
  Handler :: "Router_Handler option"

record Router =
  Routes :: "Router_Route list"

text \<open>Reading a Go map gives the zero value, here the empty string, for a missing key.\<close>

definition map_get :: "('k, string) gomap \<Rightarrow> 'k \<Rightarrow> string" where
  "map_get m k = (case fmlookup m k of None \<Rightarrow> [] | Some v \<Rightarrow> v)"

lemma map_get_simps [simp]:
  "fmlookup m k = None \<Longrightarrow> map_get m k = []"
  "fmlookup m k = Some v \<Longrightarrow> map_get m k = v"
  by (simp_all add: map_get_def)

end
