(* ===== verification/Tfstate_Source.thy ===== *)
theory Tfstate_Source
  imports Go_Prelude
begin

section \<open>Terraform states (\<^verbatim>\<open>pkg/state/terraform.go\<close>)\<close>

text \<open>
  The JSON document of a Terraform state, as far as the program reads it, and what its two readers
  have in common. The lists hold pointers, and a JSON \<^verbatim>\<open>null\<close> element is decoded to a nil pointer,
  so the elements are options.
\<close>

record TfstateResourceInstance =
  ProtoJson :: string

record TfstateResource =
  resource_Type :: string
  resource_Name :: string
  resource_Mode :: string
  resource_Provider :: string
  Instances :: "TfstateResourceInstance option list"

record Tfstate =
  Resources :: "TfstateResource option list"

subsection \<open>Decoding an instance\<close>

text \<open>
  The instance is dereferenced, its document is decoded into a new message, and the message is
  stored.
\<close>

definition decode_document ::
  "(string \<Rightarrow> go_error + 'y) \<Rightarrow> ('y \<Rightarrow> 's \<Rightarrow> 's) \<Rightarrow> string \<Rightarrow> 's \<Rightarrow> unit outcome \<times> 's"
where
  "decode_document unmarshal store doc s =
     (case unmarshal doc of Inl e \<Rightarrow> (Err e, s) | Inr m \<Rightarrow> (Ok (), store m s))"

definition read_instance ::
  "(string \<Rightarrow> go_error + 'y) \<Rightarrow> ('y \<Rightarrow> 's \<Rightarrow> 's) \<Rightarrow> TfstateResourceInstance option \<Rightarrow> 's \<Rightarrow>
   unit outcome \<times> 's"
where
  "read_instance unmarshal store inst s =
     (case inst of
        None \<Rightarrow> (Panic NilDereference, s)
      | Some i \<Rightarrow> decode_document unmarshal store (ProtoJson i) s)"

lemma read_instance_keeps:
  "(\<And>m s. P s \<Longrightarrow> P (store m s)) \<Longrightarrow> P s \<Longrightarrow> P (snd (read_instance unmarshal store inst s))"
  by (simp add: read_instance_def decode_document_def split: option.split sum.split)

lemma read_instances:
  assumes "None \<notin> set is"
  shows "for_each (read_instance unmarshal store) is s
     = for_each (decode_document unmarshal store) (map (\<lambda>i. ProtoJson (the i)) is) s"
  using assms
proof (induction "is" arbitrary: s)
  case (Cons i "is")
  then obtain j where i: "i = Some j" by (cases i) auto
  have "for_each (read_instance unmarshal store) is
    = for_each (decode_document unmarshal store) (map (\<lambda>i. ProtoJson (the i)) is)"
    using Cons by (intro ext) simp
  moreover have "read_instance unmarshal store i s = decode_document unmarshal store (ProtoJson j) s"
    by (simp add: i read_instance_def)
  ultimately show ?case by (simp only: i for_each.simps list.map option.sel)
qed simp

subsection \<open>The documents of a state\<close>

text \<open>The documents of the resources a reader wants, each with the type of its resource.\<close>

definition documents :: "(TfstateResource \<Rightarrow> bool) \<Rightarrow> TfstateResource option list \<Rightarrow> (string \<times> string) list" where
  "documents wanted rs =
     concat (map (\<lambda>r. map (\<lambda>i. (resource_Type (the r), ProtoJson (the i))) (Instances (the r)))
       (filter (\<lambda>r. wanted (the r)) rs))"

lemma documents_wanted: "d \<in> set (documents wanted rs) \<Longrightarrow> \<exists>r. wanted r \<and> resource_Type r = fst d"
  by (auto simp: documents_def)

text \<open>
  What a reader that stops at the first undecodable document has seen of a list of them: the messages in
  the documents of one resource type, and the last of these messages that has a given name.
\<close>

definition messages :: "(string \<Rightarrow> go_error + 'y) \<Rightarrow> string \<Rightarrow> (string \<times> string) list \<Rightarrow> 'y list" where
  "messages unmarshal ty docs = map (\<lambda>d. projr (unmarshal (snd d))) (filter (\<lambda>d. fst d = ty) docs)"

fun last_named :: "('y \<Rightarrow> string) \<Rightarrow> 'y list \<Rightarrow> string \<Rightarrow> 'y option" where
  "last_named name [] n = None"
| "last_named name (m # ms) n =
     (case last_named name ms n of
        Some m' \<Rightarrow> Some m'
      | None \<Rightarrow> if name m = n then Some m else None)"

lemma messages_simps [simp]:
  "messages unmarshal ty [] = []"
  "messages unmarshal ty (d # docs) =
     (if fst d = ty then [projr (unmarshal (snd d))] else []) @ messages unmarshal ty docs"
  by (simp_all add: messages_def)

text \<open>No pointer that the reader dereferences is nil.\<close>

definition pointers_ok :: "(TfstateResource \<Rightarrow> bool) \<Rightarrow> TfstateResource option list \<Rightarrow> bool" where
  "pointers_ok wanted rs \<longleftrightarrow>
     (\<forall>res \<in> set rs. \<exists>r. res = Some r \<and> (wanted r \<longrightarrow> None \<notin> set (Instances r)))"

lemma documents_simps [simp]:
  "documents wanted [] = []"
  "documents wanted (Some r # rs) =
     (if wanted r then map (\<lambda>i. (resource_Type r, ProtoJson (the i))) (Instances r) else []) @ documents wanted rs"
  by (simp_all add: documents_def)

lemma pointers_ok_simps [simp]:
  "pointers_ok wanted []"
  "pointers_ok wanted (None # rs) = False"
  "pointers_ok wanted (Some r # rs) \<longleftrightarrow> (wanted r \<longrightarrow> None \<notin> set (Instances r)) \<and> pointers_ok wanted rs"
  by (simp_all add: pointers_ok_def)

text \<open>
  A reader that runs over the documents of every wanted resource, and skips every other resource,
  runs over the documents of the state.
\<close>

lemma for_each_documents:
  assumes "pointers_ok wanted rs"
    and "\<And>r s. wanted r \<Longrightarrow> None \<notin> set (Instances r) \<Longrightarrow>
       body (Some r) s = for_each stage (map (\<lambda>i. (resource_Type r, ProtoJson (the i))) (Instances r)) s"
    and "\<And>r s. \<not> wanted r \<Longrightarrow> body (Some r) s = (Ok (), s)"
  shows "for_each body rs s = for_each stage (documents wanted rs) s"
  using assms(1)
proof (induction rs arbitrary: s)
  case (Cons res rs)
  then obtain r where r: "res = Some r" by (cases res) auto
  have rest: "for_each body rs = for_each stage (documents wanted rs)"
    using Cons by (intro ext) (auto simp: r)
  show ?case
  proof (cases "wanted r")
    case True
    with r Cons.prems assms(2) rest show ?thesis by (simp add: for_each_append)
  next
    case False
    with r Cons.prems assms(3) rest show ?thesis by simp
  qed
qed simp

end
