(* ===== verification/State_Manager.thy ===== *)
theory State_Manager
  imports Tfstate_Source
begin

section \<open>The state manager (\<^verbatim>\<open>pkg/state/manager.go\<close>)\<close>

text \<open>
  \<open>periodicSync\<close> fetches the Terraform states, starts one goroutine per manager, waits for all of
  them on a wait group, and repeats after an interval. The steps of its goroutines interleave: the
  model is a step relation on the state below, one rule per step of the loop or of a manager's
  goroutine. A send on the unbuffered \<open>errCh\<close> blocks until it is received; \<open>received\<close> is what the
  receiver got.
\<close>

subsection \<open>The interface \<open>Manager\<close>\<close>

text \<open>
  What the synchronisation relies on. \<open>staged\<close> is what a manager has read and not yet built,
  \<open>sent\<close> the number of updates it has sent on its update channel; \<open>order_ok ord s\<close> says that
  \<open>ord\<close> lists the orders in which the loops of \<open>Build\<close> can range over the maps of \<open>s\<close>.
\<close>

locale manager =
  fixes inv :: "'s \<Rightarrow> bool"
    and staged :: "'s \<Rightarrow> 'st"
    and nothing :: 'st
    and sent :: "'s \<Rightarrow> nat"
    and read :: "Tfstate option \<Rightarrow> 's \<Rightarrow> unit outcome \<times> 's"
    and order_ok :: "'o \<Rightarrow> 's \<Rightarrow> bool"
    and build :: "'o \<Rightarrow> 's \<Rightarrow> unit outcome \<times> 's"
  assumes read_inv: "inv s \<Longrightarrow> inv (snd (read t s))"
    and read_sent: "sent (snd (read t s)) = sent s"
    and build_inv: "inv s \<Longrightarrow> order_ok ord s \<Longrightarrow> inv (snd (build ord s))"
    and build_done: "inv s \<Longrightarrow> order_ok ord s \<Longrightarrow> build ord s = (Ok (), s') \<Longrightarrow>
          staged s' = nothing \<and> sent s' = Suc (sent s)"
    and build_fail: "inv s \<Longrightarrow> order_ok ord s \<Longrightarrow> build ord s = (r, s') \<Longrightarrow> r \<noteq> Ok () \<Longrightarrow>
          staged s' = staged s \<and> sent s' = sent s"
    and order_exists: "inv s \<Longrightarrow> \<exists>ord. order_ok ord s"

text \<open>The body of a manager's goroutine, run without interruption.\<close>

definition run_manager ::
  "(Tfstate option \<Rightarrow> 's \<Rightarrow> unit outcome \<times> 's) \<Rightarrow> ('s \<Rightarrow> unit outcome \<times> 's) \<Rightarrow>
   Tfstate option list \<Rightarrow> 's \<Rightarrow> unit outcome \<times> 's"
where
  "run_manager read build tfstates s = and_then (for_each read tfstates s) (\<lambda>_ s'. build s')"

subsection \<open>The steps\<close>

datatype status =
    Idle
  | Reading "Tfstate option list"
  | SendingErr go_error
  | Returned
  | Done

record 's worker =
  status :: status
  mgr :: 's

datatype phase =
    Fetching
  | Spawning "Tfstate option list" nat
  | Waiting
  | Selecting
  | SyncSending go_error
  | Stopped
  | Crashed go_panic

record ('src, 's) sync_state =
  phase :: phase
  tfstateSource :: "'src option"
  managers :: "'s worker list"
  wg :: nat
  received :: "go_error list"
  rounds :: nat

definition NewStateManager :: "'src option \<Rightarrow> 's list \<Rightarrow> ('src, 's) sync_state" where
  "NewStateManager src ms =
     \<lparr>phase = Fetching, tfstateSource = src,
      managers = map (\<lambda>m. \<lparr>status = Idle, mgr = m\<rparr>) ms, wg = 0, received = [], rounds = 0\<rparr>"

text \<open>
  The functional options of \<open>NewStateManager\<close>, applied in order over the defaults; the interval is in
  nanoseconds. It is not part of the state of the loop: a timer may fire at any step.
\<close>

datatype ('src, 's) manager_option =
    WithTfstateSource "'src option"
  | WithPeriodicSyncInterval int
  | WithManagers "'s list"

record ('src, 's) manager_options =
  option_source :: "'src option"
  option_interval :: int
  option_managers :: "'s list"

fun apply_manager_option :: "('src, 's) manager_option \<Rightarrow> ('src, 's) manager_options \<Rightarrow> ('src, 's) manager_options" where
  "apply_manager_option (WithTfstateSource src) o1 = o1\<lparr>option_source := src\<rparr>"
| "apply_manager_option (WithPeriodicSyncInterval i) o1 = o1\<lparr>option_interval := i\<rparr>"
| "apply_manager_option (WithManagers ms) o1 = o1\<lparr>option_managers := option_managers o1 @ ms\<rparr>"

definition state_manager :: "('src, 's) manager_option list \<Rightarrow> ('src, 's) sync_state" where
  "state_manager opts =
     (let o1 = fold apply_manager_option opts
        \<lparr>option_source = None, option_interval = 5 * 10 ^ 9, option_managers = []\<rparr>
      in NewStateManager (option_source o1) (option_managers o1))"

abbreviation set_worker :: "nat \<Rightarrow> status \<Rightarrow> 's \<Rightarrow> ('src, 's) sync_state \<Rightarrow> ('src, 's) sync_state" where
  "set_worker i st m s \<equiv> s\<lparr>managers := (managers s)[i := \<lparr>status = st, mgr = m\<rparr>]\<rparr>"

text \<open>
  \<open>get\<close> is \<open>GetTfstate\<close> of the source. A nil source is dereferenced by the first fetch. A panic of
  any goroutine ends the process. A goroutine that fails sends its error and returns without
  calling \<open>wg.Done\<close>.
\<close>

inductive sync_step ::
  "('src \<Rightarrow> Tfstate option list outcome \<times> 'src) \<Rightarrow> (Tfstate option \<Rightarrow> 's \<Rightarrow> unit outcome \<times> 's) \<Rightarrow>
   ('o \<Rightarrow> 's \<Rightarrow> bool) \<Rightarrow> ('o \<Rightarrow> 's \<Rightarrow> unit outcome \<times> 's) \<Rightarrow>
   ('src, 's) sync_state \<Rightarrow> ('src, 's) sync_state \<Rightarrow> bool"
  for get :: "'src \<Rightarrow> Tfstate option list outcome \<times> 'src"
    and read :: "Tfstate option \<Rightarrow> 's \<Rightarrow> unit outcome \<times> 's"
    and order_ok :: "'o \<Rightarrow> 's \<Rightarrow> bool"
    and build :: "'o \<Rightarrow> 's \<Rightarrow> unit outcome \<times> 's"
where
  fetch_nil: "phase s = Fetching \<Longrightarrow> tfstateSource s = None \<Longrightarrow>
     sync_step get read order_ok build s (s\<lparr>phase := Crashed NilDereference\<rparr>)"
| fetch_ok: "phase s = Fetching \<Longrightarrow> tfstateSource s = Some src \<Longrightarrow> get src = (Ok tfs, src') \<Longrightarrow>
     sync_step get read order_ok build s (s\<lparr>phase := Spawning tfs 0, tfstateSource := Some src'\<rparr>)"
| fetch_err: "phase s = Fetching \<Longrightarrow> tfstateSource s = Some src \<Longrightarrow> get src = (Err e, src') \<Longrightarrow>
     sync_step get read order_ok build s (s\<lparr>phase := SyncSending e, tfstateSource := Some src'\<rparr>)"
| fetch_panic: "phase s = Fetching \<Longrightarrow> tfstateSource s = Some src \<Longrightarrow> get src = (Panic p, src') \<Longrightarrow>
     sync_step get read order_ok build s (s\<lparr>phase := Crashed p, tfstateSource := Some src'\<rparr>)"
| spawn: "phase s = Spawning tfs i \<Longrightarrow> i < length (managers s) \<Longrightarrow>
     sync_step get read order_ok build s
       (set_worker i (Reading tfs) (mgr (managers s ! i)) (s\<lparr>phase := Spawning tfs (Suc i), wg := Suc (wg s)\<rparr>))"
| spawned: "phase s = Spawning tfs i \<Longrightarrow> i = length (managers s) \<Longrightarrow>
     sync_step get read order_ok build s (s\<lparr>phase := Waiting\<rparr>)"
| read_ok: "(\<forall>p. phase s \<noteq> Crashed p) \<Longrightarrow> i < length (managers s) \<Longrightarrow> managers s ! i = \<lparr>status = Reading (t # ts), mgr = m\<rparr> \<Longrightarrow>
     read t m = (Ok (), m') \<Longrightarrow>
     sync_step get read order_ok build s (set_worker i (Reading ts) m' s)"
| read_err: "(\<forall>p. phase s \<noteq> Crashed p) \<Longrightarrow> i < length (managers s) \<Longrightarrow> managers s ! i = \<lparr>status = Reading (t # ts), mgr = m\<rparr> \<Longrightarrow>
     read t m = (Err e, m') \<Longrightarrow>
     sync_step get read order_ok build s (set_worker i (SendingErr e) m' s)"
| read_panic: "(\<forall>p. phase s \<noteq> Crashed p) \<Longrightarrow> i < length (managers s) \<Longrightarrow> managers s ! i = \<lparr>status = Reading (t # ts), mgr = m\<rparr> \<Longrightarrow>
     read t m = (Panic p, m') \<Longrightarrow>
     sync_step get read order_ok build s (s\<lparr>phase := Crashed p\<rparr>)"
| build_ok: "(\<forall>p. phase s \<noteq> Crashed p) \<Longrightarrow> i < length (managers s) \<Longrightarrow> managers s ! i = \<lparr>status = Reading [], mgr = m\<rparr> \<Longrightarrow>
     order_ok ord m \<Longrightarrow> build ord m = (Ok (), m') \<Longrightarrow>
     sync_step get read order_ok build s (set_worker i Done m' (s\<lparr>wg := wg s - 1\<rparr>))"
| build_err: "(\<forall>p. phase s \<noteq> Crashed p) \<Longrightarrow> i < length (managers s) \<Longrightarrow> managers s ! i = \<lparr>status = Reading [], mgr = m\<rparr> \<Longrightarrow>
     order_ok ord m \<Longrightarrow> build ord m = (Err e, m') \<Longrightarrow>
     sync_step get read order_ok build s (set_worker i (SendingErr e) m' s)"
| build_panic: "(\<forall>p. phase s \<noteq> Crashed p) \<Longrightarrow> i < length (managers s) \<Longrightarrow> managers s ! i = \<lparr>status = Reading [], mgr = m\<rparr> \<Longrightarrow>
     order_ok ord m \<Longrightarrow> build ord m = (Panic p, m') \<Longrightarrow>
     sync_step get read order_ok build s (s\<lparr>phase := Crashed p\<rparr>)"
| deliver: "(\<forall>p. phase s \<noteq> Crashed p) \<Longrightarrow> i < length (managers s) \<Longrightarrow> managers s ! i = \<lparr>status = SendingErr e, mgr = m\<rparr> \<Longrightarrow>
     sync_step get read order_ok build s (set_worker i Returned m (s\<lparr>received := received s @ [e]\<rparr>))"
| wait: "phase s = Waiting \<Longrightarrow> wg s = 0 \<Longrightarrow>
     sync_step get read order_ok build s (s\<lparr>phase := Selecting, rounds := Suc (rounds s)\<rparr>)"
| ctx_done: "phase s = Selecting \<Longrightarrow> err = Canceled \<or> err = DeadlineExceeded \<Longrightarrow>
     sync_step get read order_ok build s (s\<lparr>phase := SyncSending err\<rparr>)"
| timer: "phase s = Selecting \<Longrightarrow>
     sync_step get read order_ok build s (s\<lparr>phase := Fetching\<rparr>)"
| sync_deliver: "phase s = SyncSending err \<Longrightarrow>
     sync_step get read order_ok build s (s\<lparr>phase := Stopped, received := received s @ [err]\<rparr>)"

inductive_cases sync_stepE: "sync_step get read order_ok build s t"

subsection \<open>The wait group\<close>

text \<open>A goroutine that has been started and has not called \<open>wg.Done\<close>.\<close>

fun busy :: "status \<Rightarrow> bool" where
  "busy Idle = False"
| "busy (Reading ts) = True"
| "busy (SendingErr e) = True"
| "busy Returned = True"
| "busy Done = False"

fun failed :: "status \<Rightarrow> bool" where
  "failed (SendingErr e) = True"
| "failed Returned = True"
| "failed _ = False"

lemma failed_busy: "failed st \<Longrightarrow> busy st"
  by (cases st) simp_all

definition busy_count :: "'s worker list \<Rightarrow> nat" where
  "busy_count ws = length (filter (\<lambda>w. busy (status w)) ws)"

lemma busy_count_update:
  "i < length ws \<Longrightarrow>
     busy_count (ws[i := w]) + (if busy (status (ws ! i)) then 1 else 0)
     = busy_count ws + (if busy (status w) then 1 else 0)"
proof (induction ws arbitrary: i)
  case Nil
  then show ?case by simp
next
  case (Cons x ws)
  then show ?case by (cases i) (auto simp: busy_count_def)
qed

lemma busy_count_0: "busy_count ws = 0 \<longleftrightarrow> (\<forall>i < length ws. \<not> busy (status (ws ! i)))"
  by (simp add: busy_count_def filter_empty_conv all_set_conv_all_nth)

lemma busy_count_pos: "i < length ws \<Longrightarrow> busy (status (ws ! i)) \<Longrightarrow> busy_count ws > 0"
  using busy_count_0 [of ws] by auto

lemma busy_count_set:
  assumes "i < length ws" "ws ! i = \<lparr>status = st, mgr = m\<rparr>" "busy st"
  shows "busy_count (ws[i := \<lparr>status = st', mgr = m'\<rparr>]) =
     (if busy st' then busy_count ws else busy_count ws - 1)"
  using busy_count_update [OF assms(1), of "\<lparr>status = st', mgr = m'\<rparr>"] assms by (simp split: if_splits)

text \<open>
  The invariant: the counter of the wait group is the number of busy goroutines, there is none
  outside the start and the wait of a round, and the goroutines are started in order.
\<close>

fun round_ok :: "phase \<Rightarrow> 's worker list \<Rightarrow> nat \<Rightarrow> bool" where
  "round_ok (Spawning tfs i) ws n \<longleftrightarrow> n = busy_count ws \<and> i \<le> length ws
     \<and> (\<forall>j < length ws. i \<le> j \<longrightarrow> \<not> busy (status (ws ! j)))"
| "round_ok Waiting ws n \<longleftrightarrow> n = busy_count ws"
| "round_ok (Crashed p) ws n \<longleftrightarrow> n = busy_count ws"
| "round_ok _ ws n \<longleftrightarrow> n = 0 \<and> busy_count ws = 0"

definition sync_inv :: "('src, 's) sync_state \<Rightarrow> bool" where
  "sync_inv s \<longleftrightarrow> round_ok (phase s) (managers s) (wg s)"

lemma sync_inv_init: "sync_inv (NewStateManager src ms)"
  by (simp add: sync_inv_def NewStateManager_def busy_count_def filter_empty_conv)

lemma round_ok_count: "round_ok ph ws n \<Longrightarrow> n = busy_count ws"
  by (cases ph) auto

lemma worker_step_ok:
  assumes "round_ok ph ws n" and "i < length ws"
    and "ws ! i = \<lparr>status = st, mgr = m\<rparr>" and "busy st"
  shows "round_ok ph (ws[i := \<lparr>status = st', mgr = m'\<rparr>]) (if busy st' then n else n - 1)"
  using assms busy_count_set [OF assms(2-4)] busy_count_pos [OF assms(2)]
  by (cases ph) (auto simp: nth_list_update)

lemma sync_step_inv: "sync_step get read order_ok build s t \<Longrightarrow> sync_inv s \<Longrightarrow> sync_inv t"
proof (induction rule: sync_step.induct)
  case (spawn s tfs i)
  let ?w = "\<lparr>status = Reading tfs, mgr = mgr (managers s ! i)\<rparr>"
  from spawn have "\<not> busy (status (managers s ! i))" by (simp add: sync_inv_def)
  with busy_count_update [OF spawn(2), of ?w]
  have "busy_count ((managers s)[i := ?w]) = Suc (busy_count (managers s))" by simp
  with spawn show ?case by (auto simp: sync_inv_def nth_list_update)
next
  case (read_ok s i t ts m m')
  with worker_step_ok [OF _ read_ok(2,3), of _ _ "Reading ts"] show ?case by (simp add: sync_inv_def)
next
  case (read_err s i t ts m e m')
  with worker_step_ok [OF _ read_err(2,3), of _ _ "SendingErr e"] show ?case by (simp add: sync_inv_def)
next
  case (build_ok s i m ord m')
  with worker_step_ok [OF _ build_ok(2,3), of _ _ Done] show ?case by (simp add: sync_inv_def)
next
  case (build_err s i m ord e m')
  with worker_step_ok [OF _ build_err(2,3), of _ _ "SendingErr e"] show ?case by (simp add: sync_inv_def)
next
  case (deliver s i e m)
  with worker_step_ok [OF _ deliver(2,3), of _ _ Returned] show ?case by (simp add: sync_inv_def)
qed (auto simp: sync_inv_def dest: round_ok_count busy_count_pos)

abbreviation sync_steps where
  "sync_steps get read order_ok build \<equiv> (sync_step get read order_ok build)\<^sup>*\<^sup>*"

lemma sync_steps_inv: "sync_steps get read order_ok build s t \<Longrightarrow> sync_inv s \<Longrightarrow> sync_inv t"
  by (induction rule: rtranclp_induct) (auto intro: sync_step_inv)

subsection \<open>A failed manager\<close>

lemma busy_phase:
  assumes "sync_inv s" and "i < length (managers s)" and "busy (status (managers s ! i))"
  shows "(\<exists>tfs j. phase s = Spawning tfs j) \<or> phase s = Waiting \<or> (\<exists>p. phase s = Crashed p)"
  using assms busy_count_pos [OF assms(2,3)] by (cases "phase s") (auto simp: sync_inv_def)

lemma failed_step:
  assumes "sync_step get read order_ok build s t" and "sync_inv s"
    and "i < length (managers s)" and "failed (status (managers s ! i))"
  shows "rounds t = rounds s \<and> length (managers t) = length (managers s) \<and> failed (status (managers t ! i))"
  using assms
proof (induction rule: sync_step.induct)
  case (spawn s tfs j)
  then have "i \<noteq> j" by (auto simp: sync_inv_def dest: failed_busy)
  with spawn show ?case by simp
next
  case (wait s)
  then show ?case using busy_count_pos [of i "managers s"] by (auto simp: sync_inv_def dest: failed_busy)
qed (auto simp: nth_list_update)

lemma failed_steps:
  assumes "sync_steps get read order_ok build s t" and "sync_inv s"
    and "i < length (managers s)" and "failed (status (managers s ! i))"
  shows "rounds t = rounds s \<and> length (managers t) = length (managers s) \<and> failed (status (managers t ! i))"
  using assms
proof (induction rule: rtranclp_induct)
  case base
  then show ?case by simp
next
  case (step t u)
  with failed_step [OF step(2) sync_steps_inv [OF step(1)], of i] show ?case by simp
qed

subsection \<open>One manager\<close>

text \<open>What a step of the synchronisation does to its only manager.\<close>

lemma sync_step_single:
  assumes "sync_step get read order_ok build s t" and "length (managers s) = 1"
  defines "w \<equiv> managers s ! 0" and "w' \<equiv> managers t ! 0"
  shows "length (managers t) = 1
    \<and> (mgr w' = mgr w
       \<or> (\<exists>tf. mgr w' = snd (read tf (mgr w)) \<and> busy (status w) \<and> \<not> failed (status w))
       \<or> (\<exists>ord. order_ok ord (mgr w) \<and> build ord (mgr w) = (Ok (), mgr w') \<and> busy (status w) \<and> \<not> failed (status w))
       \<or> (\<exists>ord e. order_ok ord (mgr w) \<and> build ord (mgr w) = (Err e, mgr w') \<and> busy (status w) \<and> \<not> failed (status w)
            \<and> failed (status w')))"
  using assms(1,2) unfolding w_def w'_def
proof (induction rule: sync_step.induct)
  case (read_ok s i t ts m m')
  then show ?case by (auto simp: less_Suc_eq intro: exI [of _ t])
next
  case (read_err s i t ts m e m')
  then show ?case by (auto simp: less_Suc_eq intro: exI [of _ t])
qed (auto simp: less_Suc_eq)

lemma sync_step_received:
  assumes "sync_step get read order_ok build s t" and "length (managers s) = 1" and "received t \<noteq> received s"
  shows "received t \<noteq> [] \<and> mgr (managers t ! 0) = mgr (managers s ! 0)
    \<and> (phase t = Stopped \<or> failed (status (managers t ! 0)))"
  using assms by (induction rule: sync_step.induct) (auto simp: less_Suc_eq)

lemma sync_step_after_report:
  assumes "sync_step get read order_ok build s t" and "sync_inv s" and "length (managers s) = 1"
    and "phase s = Stopped \<or> failed (status (managers s ! 0))"
  shows "(phase t = Stopped \<or> failed (status (managers t ! 0))) \<and> mgr (managers t ! 0) = mgr (managers s ! 0)"
proof (cases "failed (status (managers s ! 0))")
  case True
  with failed_step [OF assms(1,2), of 0] sync_step_single [OF assms(1,3)] assms(3)
  have "failed (status (managers t ! 0))" by simp
  with True sync_step_single [OF assms(1,3)] show ?thesis by auto
next
  case False
  with assms(4) have stopped: "phase s = Stopped" by simp
  with assms(2) have "\<not> busy (status (managers s ! 0))"
    using assms(3) by (simp add: sync_inv_def busy_count_0)
  from assms(1) show ?thesis
    by (cases rule: sync_step.cases) (use stopped False \<open>\<not> busy _\<close> assms(3) in \<open>auto simp: less_Suc_eq\<close>)
qed

subsection \<open>A completed round\<close>

text \<open>How far the goroutine of a manager that started in \<open>m0\<close> has come.\<close>

fun progress ::
  "(Tfstate option \<Rightarrow> 's \<Rightarrow> unit outcome \<times> 's) \<Rightarrow> ('o \<Rightarrow> 's \<Rightarrow> bool) \<Rightarrow> ('o \<Rightarrow> 's \<Rightarrow> unit outcome \<times> 's) \<Rightarrow>
   Tfstate option list \<Rightarrow> 's \<Rightarrow> 's \<Rightarrow> status \<Rightarrow> bool"
where
  "progress read order_ok build tfs m0 m Idle = False"
| "progress read order_ok build tfs m0 m (Reading ts) =
     (\<exists>before. tfs = before @ ts \<and> for_each read before m0 = (Ok (), m))"
| "progress read order_ok build tfs m0 m Done =
     (\<exists>ord m1. for_each read tfs m0 = (Ok (), m1) \<and> order_ok ord m1 \<and> build ord m1 = (Ok (), m))"
| "progress read order_ok build tfs m0 m _ = True"

fun in_round where
  "in_round read order_ok build tfs ms0 ws (Spawning tfs' k) =
     (tfs' = tfs \<and> length ws = length ms0 \<and>
      (\<forall>j < length ws. if j < k then progress read order_ok build tfs (ms0 ! j) (mgr (ws ! j)) (status (ws ! j))
                       else mgr (ws ! j) = ms0 ! j \<and> \<not> busy (status (ws ! j))))"
| "in_round read order_ok build tfs ms0 ws Waiting =
     (length ws = length ms0 \<and>
      (\<forall>j < length ws. progress read order_ok build tfs (ms0 ! j) (mgr (ws ! j)) (status (ws ! j))))"
| "in_round read order_ok build tfs ms0 ws Selecting =
     (length ws = length ms0 \<and>
      (\<forall>j < length ws. progress read order_ok build tfs (ms0 ! j) (mgr (ws ! j)) Done))"
| "in_round read order_ok build tfs ms0 ws (Crashed p) = True"
| "in_round read order_ok build tfs ms0 ws _ = False"

lemma in_round_update:
  assumes "in_round read order_ok build tfs ms0 ws ph" and "i < length ws" and "busy (status (ws ! i))"
    and "progress read order_ok build tfs (ms0 ! i) (mgr (ws ! i)) (status (ws ! i)) \<Longrightarrow>
         progress read order_ok build tfs (ms0 ! i) m st"
    and "ph \<noteq> Selecting"
  shows "in_round read order_ok build tfs ms0 (ws[i := \<lparr>status = st, mgr = m\<rparr>]) ph"
  using assms by (cases ph) (auto simp: nth_list_update)

lemma progress_read:
  assumes "progress rd order_ok build tfs m0 m (Reading (t # ts))" and "rd t m = (Ok (), m')"
  shows "progress rd order_ok build tfs m0 m' (Reading ts)"
proof -
  from assms(1) obtain before where "tfs = before @ t # ts" "for_each rd before m0 = (Ok (), m)"
    by auto
  with assms(2) have "tfs = (before @ [t]) @ ts" "for_each rd (before @ [t]) m0 = (Ok (), m')"
    by (simp_all add: for_each_append)
  then show ?thesis by (simp only: progress.simps) blast
qed

lemma in_round_step:
  assumes "sync_step get read order_ok build s t" and "sync_inv s"
    and "in_round read order_ok build tfs ms0 (managers s) (phase s)" and "phase s \<noteq> Selecting"
  shows "in_round read order_ok build tfs ms0 (managers t) (phase t)
    \<and> (rounds t = (if phase t = Selecting then Suc (rounds s) else rounds s))"
  using assms
proof (induction rule: sync_step.induct)
  case (spawn s tfs' i)
  then show ?case by (auto simp: nth_list_update less_Suc_eq)
next
  case (read_ok s i t ts m m')
  have "in_round read order_ok build tfs ms0 ((managers s)[i := \<lparr>status = Reading ts, mgr = m'\<rparr>]) (phase s)"
    using read_ok by (intro in_round_update) (auto intro: progress_read simp del: progress.simps(2))
  with read_ok show ?case by simp
next
  case (read_err s i t ts m e m')
  have "in_round read order_ok build tfs ms0 ((managers s)[i := \<lparr>status = SendingErr e, mgr = m'\<rparr>]) (phase s)"
    using read_err by (intro in_round_update) auto
  with read_err show ?case by simp
next
  case (build_ok s i m ord m')
  have "in_round read order_ok build tfs ms0 ((managers s)[i := \<lparr>status = Done, mgr = m'\<rparr>]) (phase s)"
    using build_ok by (intro in_round_update) auto
  with build_ok show ?case by simp
next
  case (build_err s i m ord e m')
  have "in_round read order_ok build tfs ms0 ((managers s)[i := \<lparr>status = SendingErr e, mgr = m'\<rparr>]) (phase s)"
    using build_err by (intro in_round_update) auto
  with build_err show ?case by simp
next
  case (deliver s i e m)
  have "in_round read order_ok build tfs ms0 ((managers s)[i := \<lparr>status = Returned, mgr = m\<rparr>]) (phase s)"
    using deliver by (intro in_round_update) auto
  with deliver show ?case by simp
next
  case (wait s)
  then have "\<forall>j < length (managers s). \<not> busy (status (managers s ! j))"
    by (simp add: sync_inv_def busy_count_0)
  moreover have "progress read order_ok build tfs m0 m st \<Longrightarrow> \<not> busy st \<Longrightarrow>
      progress read order_ok build tfs m0 m Done" for m0 m st
    by (cases st) auto
  ultimately show ?case using wait by auto
qed auto

text \<open>From the fetch of a round on: the round itself, its end, or a later round.\<close>

definition since where
  "since read order_ok build tfs s0 s \<longleftrightarrow>
     s = s0
     \<or> rounds s = rounds s0 \<and> phase s \<noteq> Selecting
         \<and> in_round read order_ok build tfs (map mgr (managers s0)) (managers s) (phase s)
     \<or> rounds s = Suc (rounds s0) \<and> phase s = Selecting
         \<and> in_round read order_ok build tfs (map mgr (managers s0)) (managers s) (phase s)
     \<or> rounds s = Suc (rounds s0) \<and> phase s \<noteq> Selecting
     \<or> rounds s > Suc (rounds s0)"

lemma rounds_step:
  "sync_step get read order_ok build s t \<Longrightarrow>
     rounds t = (if phase s = Waiting \<and> phase t = Selecting then Suc (rounds s) else rounds s)"
  by (induction rule: sync_step.induct) auto

lemma selecting_step:
  "sync_step get read order_ok build s t \<Longrightarrow> phase t = Selecting \<Longrightarrow> phase s \<noteq> Waiting \<Longrightarrow> sync_inv s \<Longrightarrow> False"
  by (induction rule: sync_step.induct) (auto simp: sync_inv_def dest!: busy_count_pos)

lemma since_step:
  assumes step: "sync_step get read order_ok build s t" and "sync_inv s"
    and since: "since read order_ok build tfs s0 s"
    and s0: "phase s0 = Fetching" "tfstateSource s0 = Some src" "get src = (Ok tfs, src')" "sync_inv s0"
  shows "since read order_ok build tfs s0 t"
proof -
  consider "s = s0"
    | "rounds s = rounds s0" "phase s \<noteq> Selecting"
      "in_round read order_ok build tfs (map mgr (managers s0)) (managers s) (phase s)"
    | "rounds s = Suc (rounds s0)" | "rounds s > Suc (rounds s0)"
    using since by (auto simp: since_def)
  then show ?thesis
  proof cases
    case 1
    from s0 have "\<forall>j < length (managers s0). \<not> busy (status (managers s0 ! j))"
      by (simp add: sync_inv_def busy_count_0 flip: busy_count_0)
    with step 1 s0 show ?thesis by (auto simp: since_def elim!: sync_stepE)
  next
    case 2
    with in_round_step [OF step \<open>sync_inv s\<close> 2(3,2)] show ?thesis
      by (auto simp: since_def)
  next
    case 3
    with rounds_step [OF step] selecting_step [OF step _ _ \<open>sync_inv s\<close>] show ?thesis
      by (auto simp: since_def)
  next
    case 4
    with rounds_step [OF step] show ?thesis by (auto simp: since_def)
  qed
qed

lemma since_steps:
  assumes "sync_steps get read order_ok build s0 s"
    and s0: "phase s0 = Fetching" "tfstateSource s0 = Some src" "get src = (Ok tfs, src')" "sync_inv s0"
  shows "since read order_ok build tfs s0 s"
  using assms(1)
proof (induction rule: rtranclp_induct)
  case base
  show ?case by (simp add: since_def)
next
  case (step s t)
  from since_step [OF step(2) sync_steps_inv [OF step(1) s0(4)] step(3) s0] show ?case .
qed

lemma round_result:
  assumes "sync_steps get read order_ok build s0 s" and s0: "phase s0 = Fetching"
    "tfstateSource s0 = Some src" "get src = (Ok tfs, src')" "sync_inv s0"
    and "phase s = Selecting" and "rounds s = Suc (rounds s0)"
  shows "length (managers s) = length (managers s0) \<and>
    (\<forall>i < length (managers s0). \<exists>ord m. for_each read tfs (mgr (managers s0 ! i)) = (Ok (), m)
       \<and> order_ok ord m \<and> build ord m = (Ok (), mgr (managers s ! i)))"
  using since_steps [OF assms(1) s0] s0(1) assms(6,7) by (auto simp: since_def)

subsection \<open>Other sources\<close>

text \<open>
  Only a fetch asks the source, so the rest of a round is a run with the source of its fetch; and a
  round that reaches its select statement has fetched without an error.
\<close>

lemma sync_step_any_get:
  "sync_step get read order_ok build s t \<Longrightarrow> phase s \<noteq> Fetching \<Longrightarrow> sync_step get' read order_ok build s t"
  by (induction rule: sync_step.induct) (blast intro: sync_step.intros)+

fun sync_over :: "phase \<Rightarrow> bool" where
  "sync_over (SyncSending e) = True"
| "sync_over Stopped = True"
| "sync_over (Crashed p) = True"
| "sync_over _ = False"

lemma sync_over_step: "sync_step get read order_ok build s t \<Longrightarrow> sync_over (phase s) \<Longrightarrow> sync_over (phase t)"
  by (induction rule: sync_step.induct) auto

lemma fetch_step:
  assumes "sync_step get read order_ok build s t" and "phase s = Fetching" and "sync_inv s"
  shows "sync_over (phase t) \<or> (\<exists>src tfs src'. tfstateSource s = Some src \<and> get src = (Ok tfs, src') \<and> phase t = Spawning tfs 0)"
  using assms by (induction rule: sync_step.induct) (auto simp: sync_inv_def busy_count_0)

lemma fetched_ok:
  assumes "sync_steps get read order_ok build s t" and "phase s = Fetching" and "sync_inv s" and "phase t = Selecting"
  shows "\<exists>src tfs src'. tfstateSource s = Some src \<and> get src = (Ok tfs, src')"
proof (rule ccontr)
  assume none: "\<not> ?thesis"
  from assms(1) have "t = s \<or> sync_over (phase t)"
  proof (induction rule: rtranclp_induct)
    case (step t u)
    then show ?case using fetch_step [OF _ assms(2,3)] sync_over_step none by blast
  qed simp
  with assms(2,4) show False by auto
qed

text \<open>A run whose source and its environment may answer every fetch differently, from a fetch on.\<close>

lemma round_of_fetch:
  assumes "phase s0 = Fetching" and "sync_inv s0" and "s = s0 \<or> P get0 \<and> sync_steps get0 read order_ok build s0 s \<and> phase s \<noteq> Fetching
      \<or> rounds s > rounds s0 \<and> (phase s = Selecting \<longrightarrow> rounds s > Suc (rounds s0))"
    and "sync_inv s" and "P get" and step: "sync_step get read order_ok build s t"
  shows "\<exists>get0. t = s0 \<or> P get0 \<and> sync_steps get0 read order_ok build s0 t \<and> phase t \<noteq> Fetching
      \<or> rounds t > rounds s0 \<and> (phase t = Selecting \<longrightarrow> rounds t > Suc (rounds s0))"
proof -
  consider "s = s0" | "P get0" "sync_steps get0 read order_ok build s0 s" "phase s \<noteq> Fetching"
    | "rounds s > rounds s0" "phase s = Selecting \<longrightarrow> rounds s > Suc (rounds s0)"
    using assms(3) by blast
  then show ?thesis
  proof cases
    case 1
    with step assms(1) fetch_step [OF step _ assms(4)] have "phase t \<noteq> Fetching" by auto
    with 1 step \<open>P get\<close> show ?thesis by blast
  next
    case 2
    from sync_step_any_get [OF step 2(3)] 2(2) have run: "sync_steps get0 read order_ok build s0 t"
      by (blast intro: rtranclp.rtrancl_into_rtrancl)
    show ?thesis
    proof (cases "phase t = Fetching")
      case True
      with step 2(3) have "phase s = Selecting" "rounds t = rounds s" by (auto elim: sync_stepE)
      moreover obtain src tfs src' where "tfstateSource s0 = Some src" "get0 src = (Ok tfs, src')"
        using fetched_ok [OF 2(2) assms(1,2) calculation(1)] by blast
      ultimately have "rounds t > rounds s0"
        using since_steps [OF 2(2) assms(1) _ _ assms(2)] assms(1) by (fastforce simp: since_def)
      with True show ?thesis by simp
    qed (use run 2(1) in blast)
  next
    case 3
    with rounds_step [OF step] selecting_step [OF step _ _ assms(4)] show ?thesis by auto
  qed
qed

subsection \<open>What the contract of the managers gives\<close>

definition all_managers :: "('s \<Rightarrow> bool) \<Rightarrow> ('src, 's) sync_state \<Rightarrow> bool" where
  "all_managers P s \<longleftrightarrow> (\<forall>w \<in> set (managers s). P (mgr w))"

lemma all_managers_update: "all_managers P s \<Longrightarrow> P m \<Longrightarrow> all_managers P (set_worker i st m s)"
  by (auto simp: all_managers_def dest!: set_update_subset_insert [THEN subsetD])

lemma all_managers_nth: "all_managers P s \<Longrightarrow> i < length (managers s) \<Longrightarrow> P (mgr (managers s ! i))"
  by (simp add: all_managers_def)

lemma all_managers_frame:
  "all_managers P (s\<lparr>phase := ph, wg := n\<rparr>) = all_managers P s"
  "all_managers P (s\<lparr>wg := n\<rparr>) = all_managers P s"
  "all_managers P (s\<lparr>phase := ph\<rparr>) = all_managers P s"
  "all_managers P (s\<lparr>received := es\<rparr>) = all_managers P s"
  by (simp_all add: all_managers_def)

lemma all_managers_init: "(\<And>m. m \<in> set ms \<Longrightarrow> P m) \<Longrightarrow> all_managers P (NewStateManager src ms)"
  by (auto simp: all_managers_def NewStateManager_def)

context manager
begin

lemma read_all_inv: "inv m \<Longrightarrow> inv (snd (for_each read tfs m))"
  by (rule for_each_invariant [where P = inv]) (auto intro: read_inv)

lemma read_all_sent: "sent (snd (for_each read tfs m)) = sent m"
  by (rule for_each_invariant [where P = "\<lambda>s. sent s = sent m"]) (auto simp: read_sent)

text \<open>A goroutine that reaches \<open>wg.Done\<close> has sent one update and left nothing staged.\<close>

lemma round_sends_one:
  assumes "inv m0" and "for_each read tfs m0 = (Ok (), m)" and "order_ok ord m"
    and "build ord m = (Ok (), m')"
  shows "inv m' \<and> staged m' = nothing \<and> sent m' = Suc (sent m0)"
proof -
  from assms(1,2) have "inv m" "sent m = sent m0"
    using read_all_inv [of m0 tfs] read_all_sent [of tfs m0] by simp_all
  with assms(3,4) build_done [of m ord m'] build_inv [of m ord] show ?thesis by simp
qed

lemma inv_step: "sync_step get read order_ok build s t \<Longrightarrow> all_managers inv s \<Longrightarrow> all_managers inv t"
proof (induction rule: sync_step.induct)
  case (spawn s tfs i)
  then show ?case
    by (intro all_managers_update) (simp_all add: all_managers_frame all_managers_nth)
next
  case (read_ok s i t ts m m')
  with all_managers_nth [OF read_ok(5,2)] read_inv [of m t] show ?case
    by (intro all_managers_update) simp_all
next
  case (read_err s i t ts m e m')
  with all_managers_nth [OF read_err(5,2)] read_inv [of m t] show ?case
    by (intro all_managers_update) simp_all
next
  case (build_ok s i m ord m')
  with all_managers_nth [OF build_ok(6,2)] build_inv [of m ord] show ?case
    by (intro all_managers_update) (simp_all add: all_managers_frame)
next
  case (build_err s i m ord e m')
  with all_managers_nth [OF build_err(6,2)] build_inv [of m ord] show ?case
    by (intro all_managers_update) simp_all
next
  case (deliver s i e m)
  with all_managers_nth [OF deliver(4,2)] show ?case
    by (intro all_managers_update) (simp_all add: all_managers_frame)
qed (simp_all add: all_managers_def)

lemma inv_steps: "sync_steps get read order_ok build s t \<Longrightarrow> all_managers inv s \<Longrightarrow> all_managers inv t"
  by (induction rule: rtranclp_induct) (auto intro: inv_step)

text \<open>As long as no manager has failed, the loop is never stuck.\<close>

lemma worker_can_step:
  assumes "all_managers inv s" and alive: "\<forall>p. phase s \<noteq> Crashed p" and i: "i < length (managers s)"
    and "busy (status (managers s ! i))" and "\<not> failed (status (managers s ! i))"
  shows "\<exists>t. sync_step get read order_ok build s t"
proof -
  let ?m = "mgr (managers s ! i)"
  obtain ts where st: "status (managers s ! i) = Reading ts"
    using assms(4,5) by (cases "status (managers s ! i)") auto
  then have w: "managers s ! i = \<lparr>status = Reading ts, mgr = ?m\<rparr>" by simp
  show ?thesis
  proof (cases ts)
    case Nil
    obtain ord where ord: "order_ok ord ?m"
      using order_exists all_managers_nth [OF assms(1) i] by blast
    obtain r m' where run: "build ord ?m = (r, m')" by fastforce
    note w = w [unfolded Nil]
    show ?thesis
      using run sync_step.build_ok [where get = get and read = read and order_ok = order_ok and build = build and ord = ord, OF alive i w ord]
        sync_step.build_err [where get = get and read = read and order_ok = order_ok and build = build and ord = ord, OF alive i w ord]
        sync_step.build_panic [where get = get and read = read and order_ok = order_ok and build = build and ord = ord, OF alive i w ord]
      by (cases r) auto
  next
    case (Cons t ts')
    obtain r m' where run: "read t ?m = (r, m')" by fastforce
    note w = w [unfolded Cons]
    show ?thesis
      using run sync_step.read_ok [where get = get and read = read and order_ok = order_ok and build = build, OF alive i w]
        sync_step.read_err [where get = get and read = read and order_ok = order_ok and build = build, OF alive i w]
        sync_step.read_panic [where get = get and read = read and order_ok = order_ok and build = build, OF alive i w]
      by (cases r) auto
  qed
qed

lemma sync_progress:
  assumes "sync_inv s" and "all_managers inv s" and "\<forall>w \<in> set (managers s). \<not> failed (status w)"
    and "phase s \<noteq> Stopped" and "\<forall>p. phase s \<noteq> Crashed p"
  shows "\<exists>t. sync_step get read order_ok build s t"
proof (cases "phase s")
  case Fetching
  show ?thesis
  proof (cases "tfstateSource s")
    case None
    with Fetching show ?thesis by (blast intro: sync_step.fetch_nil)
  next
    case (Some src)
    obtain r src' where run: "get src = (r, src')" by fastforce
    show ?thesis
    proof (cases r)
      case (Ok tfs)
      with run sync_step.fetch_ok [OF Fetching Some, of get tfs src'] show ?thesis by blast
    next
      case (Err e)
      with run sync_step.fetch_err [OF Fetching Some, of get e src'] show ?thesis by blast
    next
      case (Panic p)
      with run sync_step.fetch_panic [OF Fetching Some, of get p src'] show ?thesis by blast
    qed
  qed
next
  case (Spawning tfs i)
  with assms(1) have "i < length (managers s) \<or> i = length (managers s)" by (auto simp: sync_inv_def)
  with Spawning show ?thesis by (blast intro: sync_step.spawn sync_step.spawned)
next
  case Waiting
  show ?thesis
  proof (cases "wg s = 0")
    case True
    with Waiting show ?thesis by (blast intro: sync_step.wait)
  next
    case False
    with assms(1) Waiting obtain i where "i < length (managers s)" "busy (status (managers s ! i))"
      by (auto simp: sync_inv_def busy_count_0)
    with worker_can_step [OF assms(2,5)] assms(3) show ?thesis by auto
  qed
qed (use assms in \<open>auto intro: sync_step.timer sync_step.sync_deliver\<close>)

end

subsection \<open>Properties\<close>

text \<open>
  C10. After the fetch of a round, when the loop has next reached its select statement, every
  manager's state is the one that reading all fetched Terraform states in their order and then one
  \<open>Build\<close> gives, all without error, however the steps of the goroutines interleaved.
\<close>

theorem completed_round:
  assumes "sync_steps get read order_ok build (NewStateManager source ms) s0"
    and "phase s0 = Fetching" and "tfstateSource s0 = Some src" and "get src = (Ok tfs, src')"
    and "sync_steps get read order_ok build s0 s" and "phase s = Selecting"
    and "rounds s = Suc (rounds s0)"
  shows "length (managers s) = length (managers s0)
    \<and> (\<forall>i < length (managers s0). \<exists>ord m. for_each read tfs (mgr (managers s0 ! i)) = (Ok (), m)
         \<and> order_ok ord m \<and> build ord m = (Ok (), mgr (managers s ! i)))"
  by (rule round_result [OF assms(5,2,3,4) sync_steps_inv [OF assms(1) sync_inv_init] assms(6,7)])

text \<open>
  A run of one round for the witness: one manager that appends the states it reads to a list and
  reverses the list when it builds, and a source of two states.
\<close>

abbreviation sample_get :: "unit \<Rightarrow> Tfstate option list outcome \<times> unit" where
  "sample_get \<equiv> \<lambda>s. (Ok [Some \<lparr>Resources = []\<rparr>, None], s)"

abbreviation sample_read :: "Tfstate option \<Rightarrow> Tfstate option list \<Rightarrow> unit outcome \<times> Tfstate option list" where
  "sample_read \<equiv> \<lambda>t m. (Ok (), m @ [t])"

abbreviation sample_build :: "unit \<Rightarrow> Tfstate option list \<Rightarrow> unit outcome \<times> Tfstate option list" where
  "sample_build \<equiv> \<lambda>_ m. (Ok (), rev m)"

abbreviation sample_step where
  "sample_step \<equiv> sync_step sample_get sample_read (\<lambda>_ _. True) sample_build"

definition sample_state ::
  "phase \<Rightarrow> status \<Rightarrow> Tfstate option list \<Rightarrow> nat \<Rightarrow> nat \<Rightarrow> (unit, Tfstate option list) sync_state"
where
  "sample_state ph st m n r = \<lparr>phase = ph, tfstateSource = Some (), managers = [\<lparr>status = st, mgr = m\<rparr>],
     wg = n, received = [], rounds = r\<rparr>"

lemma sample_run:
  "sample_step\<^sup>*\<^sup>* (sample_state Fetching Idle [] 0 0)
     (sample_state Selecting Done [None, Some \<lparr>Resources = []\<rparr>] 0 1)"
proof -
  let ?t = "Some \<lparr>Resources = []\<rparr>"
  let ?tfs = "[?t, None]"
  let ?s = sample_state
  note with_sample = sync_step.intros
    [where get = sample_get and read = sample_read and order_ok = "\<lambda>_ _. True" and build = sample_build]
  have "sample_step (?s Fetching Idle [] 0 0) (?s (Spawning ?tfs 0) Idle [] 0 0)"
    using with_sample(2) [of "?s Fetching Idle [] 0 0" "()" ?tfs "()"] by (simp add: sample_state_def)
  moreover have "sample_step (?s (Spawning ?tfs 0) Idle [] 0 0) (?s (Spawning ?tfs 1) (Reading ?tfs) [] 1 0)"
    using with_sample(5) [of "?s (Spawning ?tfs 0) Idle [] 0 0" ?tfs 0] by (simp add: sample_state_def)
  moreover have "sample_step (?s (Spawning ?tfs 1) (Reading ?tfs) [] 1 0) (?s Waiting (Reading ?tfs) [] 1 0)"
    using with_sample(6) [of "?s (Spawning ?tfs 1) (Reading ?tfs) [] 1 0" ?tfs 1] by (simp add: sample_state_def)
  moreover have "sample_step (?s Waiting (Reading ?tfs) [] 1 0) (?s Waiting (Reading [None]) [?t] 1 0)"
    using with_sample(7) [of "?s Waiting (Reading ?tfs) [] 1 0" 0 ?t "[None]" "[]" "[?t]"]
    by (simp add: sample_state_def)
  moreover have "sample_step (?s Waiting (Reading [None]) [?t] 1 0) (?s Waiting (Reading []) ?tfs 1 0)"
    using with_sample(7) [of "?s Waiting (Reading [None]) [?t] 1 0" 0 None "[]" "[?t]" ?tfs]
    by (simp add: sample_state_def)
  moreover have "sample_step (?s Waiting (Reading []) ?tfs 1 0) (?s Waiting Done [None, ?t] 0 0)"
    using with_sample(10) [of "?s Waiting (Reading []) ?tfs 1 0" 0 ?tfs "[None, ?t]"]
    by (simp add: sample_state_def)
  moreover have "sample_step (?s Waiting Done [None, ?t] 0 0) (?s Selecting Done [None, ?t] 0 1)"
    using with_sample(14) [of "?s Waiting Done [None, ?t] 0 0"] by (simp add: sample_state_def)
  ultimately show ?thesis by (blast intro: converse_rtranclp_into_rtranclp)
qed

theorem completed_round_witness:
  "\<exists>ord m. for_each sample_read [Some \<lparr>Resources = []\<rparr>, None] [] = (Ok (), m)
     \<and> sample_build ord m = (Ok (), [None, Some \<lparr>Resources = []\<rparr>])"
  using completed_round [where get = sample_get and read = sample_read and order_ok = "\<lambda>_ _. True"
      and build = sample_build and source = "Some ()" and ms = "[[]]" and src = "()" and src' = "()"
      and s0 = "sample_state Fetching Idle [] 0 0" and s = "sample_state Selecting Done [None, Some \<lparr>Resources = []\<rparr>] 0 1"]
    sample_run
  by (simp add: NewStateManager_def sample_state_def)

text \<open>
  C11. When a manager's goroutine has failed, the synchronisation never fetches again: in every later
  state the same goroutine is still counted by the wait group, no round is completed and the loop
  is still starting goroutines or waiting (or the process has crashed).
\<close>

theorem failed_manager_stops_sync:
  assumes "sync_steps get read order_ok build (NewStateManager source ms) s"
    and "i < length (managers s)" and "failed (status (managers s ! i))"
    and "sync_steps get read order_ok build s t"
  shows "rounds t = rounds s \<and> failed (status (managers t ! i)) \<and> wg t > 0
    \<and> ((\<exists>tfs j. phase t = Spawning tfs j) \<or> phase t = Waiting \<or> (\<exists>p. phase t = Crashed p))"
proof -
  have s: "sync_inv s" by (rule sync_steps_inv [OF assms(1) sync_inv_init])
  have t: "sync_inv t" by (rule sync_steps_inv [OF assms(4) s])
  from failed_steps [OF assms(4) s assms(2,3)] assms(2)
  have i: "i < length (managers t)" "failed (status (managers t ! i))" "rounds t = rounds s" by simp_all
  then have "busy (status (managers t ! i))" by (simp add: failed_busy)
  moreover from this have "wg t > 0"
    using busy_count_pos [OF i(1)] t by (auto simp: sync_inv_def dest: round_ok_count)
  ultimately show ?thesis using busy_phase [OF t i(1)] i by simp
qed

text \<open>A manager whose first read fails, in the state where its error has been received.\<close>

abbreviation broken_read :: "Tfstate option \<Rightarrow> unit \<Rightarrow> unit outcome \<times> unit" where
  "broken_read \<equiv> \<lambda>t m. (Err (Foreign ''bad json''), m)"

theorem failed_manager_stops_sync_witness:
  "\<exists>s. sync_steps sample_get broken_read (\<lambda>_ _. True) (\<lambda>(_::unit) m. (Ok (), m)) (NewStateManager (Some ()) [()]) s
     \<and> received s = [Foreign ''bad json''] \<and> wg s > 0
     \<and> ((\<exists>tfs j. phase s = Spawning tfs j) \<or> phase s = Waiting \<or> (\<exists>p. phase s = Crashed p))"
proof -
  let ?tfs = "[Some \<lparr>Resources = []\<rparr>, None]"
  let ?st = "\<lambda>ph st n es. \<lparr>phase = ph, tfstateSource = Some (), managers = [\<lparr>status = st, mgr = ()\<rparr>],
     wg = n, received = es, rounds = 0\<rparr> :: (unit, unit) sync_state"
  let ?step = "sync_step sample_get broken_read (\<lambda>_ _. True) (\<lambda>(_::unit) m. (Ok (), m))"
  let ?e = "Foreign ''bad json''"
  note with_broken = sync_step.intros [where get = sample_get and read = broken_read
      and order_ok = "\<lambda>_ _. True" and build = "\<lambda>(_::unit) m. (Ok (), m)"]
  have "?step (?st Fetching Idle 0 []) (?st (Spawning ?tfs 0) Idle 0 [])"
    using with_broken(2) [of "?st Fetching Idle 0 []" "()" ?tfs "()"] by simp
  moreover have "?step (?st (Spawning ?tfs 0) Idle 0 []) (?st (Spawning ?tfs 1) (Reading ?tfs) 1 [])"
    using with_broken(5) [of "?st (Spawning ?tfs 0) Idle 0 []" ?tfs 0] by simp
  moreover have "?step (?st (Spawning ?tfs 1) (Reading ?tfs) 1 []) (?st (Spawning ?tfs 1) (SendingErr ?e) 1 [])"
    using with_broken(8) [of "?st (Spawning ?tfs 1) (Reading ?tfs) 1 []" 0 "Some \<lparr>Resources = []\<rparr>" "[None]" "()" ?e "()"]
    by simp
  moreover have "?step (?st (Spawning ?tfs 1) (SendingErr ?e) 1 []) (?st (Spawning ?tfs 1) Returned 1 [?e])"
    using with_broken(13) [of "?st (Spawning ?tfs 1) (SendingErr ?e) 1 []" 0 ?e "()"] by simp
  ultimately have run: "?step\<^sup>*\<^sup>* (NewStateManager (Some ()) [()]) (?st (Spawning ?tfs 1) Returned 1 [?e])"
    by (auto simp: NewStateManager_def intro: converse_rtranclp_into_rtranclp)
  show ?thesis
    using failed_manager_stops_sync [OF run, of 0, OF _ _ rtranclp.rtrancl_refl] run by auto
qed

end
