(* ===== verification/Routes_State.thy ===== *)
theory Routes_State
  imports Dependency_Graph Router_Proto State_Manager
begin

section \<open>The routes state (\<^verbatim>\<open>pkg/state/routes.go\<close>)\<close>

text \<open>
  The manager of the router's routes: it stages the routes of the Terraform states in
  \<open>routesMap\<close>, and \<open>Build\<close> moves them to the dependency graph. The sends on \<open>updateCh\<close> are
  counted by \<open>updates_sent\<close>. \<open>unmarshal\<close> is \<^verbatim>\<open>protojson.Unmarshal\<close> into a new \<open>Router_Route\<close>.
  A loop over a Go map takes the list of the keys in the order of the visit.
\<close>

subsection \<open>Data and operations\<close>

record routes_state =
  routes :: "Router_Route graph"
  routesMap :: "(string, Router_Route) gomap"
  updates_sent :: nat

definition NewRoutesState :: routes_state where
  "NewRoutesState = \<lparr>routes = NewGraph Name, routesMap = fmempty, updates_sent = 0\<rparr>"

definition stage_route :: "Router_Route \<Rightarrow> routes_state \<Rightarrow> routes_state" where
  "stage_route route s = s\<lparr>routesMap := fmupd (Name route) route (routesMap s)\<rparr>"

definition read_route_instance ::
  "(string \<Rightarrow> go_error + Router_Route) \<Rightarrow> TfstateResourceInstance option \<Rightarrow> routes_state \<Rightarrow>
   unit outcome \<times> routes_state"
where
  "read_route_instance unmarshal = read_instance unmarshal stage_route"

definition read_route_resource ::
  "(string \<Rightarrow> go_error + Router_Route) \<Rightarrow> TfstateResource option \<Rightarrow> routes_state \<Rightarrow>
   unit outcome \<times> routes_state"
where
  "read_route_resource unmarshal res s =
     (case res of
        None \<Rightarrow> (Panic NilDereference, s)
      | Some r \<Rightarrow>
          (if resource_Type r \<noteq> ''cruiser_route'' then (Ok (), s)
           else for_each (read_route_instance unmarshal) (Instances r) s))"

definition routes_ReadFromTfstate ::
  "(string \<Rightarrow> go_error + Router_Route) \<Rightarrow> Tfstate option \<Rightarrow> routes_state \<Rightarrow>
   unit outcome \<times> routes_state"
where
  "routes_ReadFromTfstate unmarshal tfstate s =
     (case tfstate of
        None \<Rightarrow> (Panic NilDereference, s)
      | Some t \<Rightarrow> for_each (read_route_resource unmarshal) (Resources t) s)"

text \<open>The loop of \<open>Build\<close>, over the graph interface.\<close>

fun insert_routes ::
  "('g \<Rightarrow> Router_Route \<Rightarrow> 'g) \<Rightarrow> ('g \<Rightarrow> Router_Route \<Rightarrow> Router_Route \<Rightarrow> 'g) \<Rightarrow>
   (string, Router_Route) gomap \<Rightarrow> string list \<Rightarrow> 'g \<Rightarrow> go_error option \<times> 'g"
where
  "insert_routes add_single add_edge m [] g = (None, g)"
| "insert_routes add_single add_edge m (k # ks) g =
     (case fmlookup m k of
        None \<Rightarrow> insert_routes add_single add_edge m ks g
      | Some route \<Rightarrow>
          (if ParentName route = '''' then insert_routes add_single add_edge m ks (add_single g route)
           else
             (case fmlookup m (ParentName route) of
                None \<Rightarrow> (Some ErrNoParentFound, g)
              | Some parent \<Rightarrow> insert_routes add_single add_edge m ks (add_edge g route parent))))"

definition routes_Build :: "string list \<Rightarrow> routes_state \<Rightarrow> unit outcome \<times> routes_state" where
  "routes_Build ks s =
     (case insert_routes AddSingleNode AddEdge (routesMap s) ks (routes s) of
        (Some err, g) \<Rightarrow> (Err err, s\<lparr>routes := g\<rparr>)
      | (None, g) \<Rightarrow>
          (Ok (), s\<lparr>routes := g, routesMap := fmempty, updates_sent := Suc (updates_sent s)\<rparr>))"

definition GetRoutes :: "string list \<Rightarrow> routes_state \<Rightarrow> Router_Route list outcome" where
  "GetRoutes ks s = TopologicalSort (routes s) ks"

subsection \<open>Staging\<close>

definition keyed_by_name :: "(string, Router_Route) gomap \<Rightarrow> bool" where
  "keyed_by_name m \<longleftrightarrow> (\<forall>k r. fmlookup m k = Some r \<longrightarrow> Name r = k)"

lemma keyed_by_name_empty [simp]: "keyed_by_name fmempty"
  by (simp add: keyed_by_name_def)

lemma keyed_by_nameD: "keyed_by_name m \<Longrightarrow> fmlookup m k = Some r \<Longrightarrow> Name r = k"
  by (simp add: keyed_by_name_def)

lemma keyed_stage_route: "keyed_by_name (routesMap s) \<Longrightarrow> keyed_by_name (routesMap (stage_route r s))"
  by (simp add: keyed_by_name_def stage_route_def)

lemma stage_route_frame [simp]:
  "routes (stage_route r s) = routes s" "updates_sent (stage_route r s) = updates_sent s"
  by (simp_all add: stage_route_def)

text \<open>Reading only stages routes: what every staging step keeps, reading keeps.\<close>

lemma read_route_resource_keeps:
  assumes "\<And>r s. P s \<Longrightarrow> P (stage_route r s)" and "P s"
  shows "P (snd (read_route_resource unmarshal res s))"
proof (cases "res")
  case (Some r)
  have "P (snd (for_each (read_route_instance unmarshal) (Instances r) s))"
    unfolding read_route_instance_def
    using assms by (intro for_each_invariant [where P = P] read_instance_keeps [where P = P])
  with Some assms(2) show ?thesis by (simp add: read_route_resource_def)
qed (simp add: read_route_resource_def assms(2))

lemma routes_read_keeps:
  assumes "\<And>r s. P s \<Longrightarrow> P (stage_route r s)" and "P s"
  shows "P (snd (routes_ReadFromTfstate unmarshal t s))"
proof (cases t)
  case (Some tf)
  have "P (snd (for_each (read_route_resource unmarshal) (Resources tf) s))"
    using assms by (intro for_each_invariant [where P = P] read_route_resource_keeps [where P = P])
  with Some show ?thesis by (simp add: routes_ReadFromTfstate_def)
qed (simp add: routes_ReadFromTfstate_def assms(2))

text \<open>The route documents of a Terraform state.\<close>

definition is_route_resource :: "TfstateResource \<Rightarrow> bool" where
  "is_route_resource r \<longleftrightarrow> resource_Type r = ''cruiser_route''"

lemma read_route_documents:
  assumes "pointers_ok is_route_resource rs"
  shows "for_each (read_route_resource unmarshal) rs s =
    for_each (\<lambda>d. decode_document unmarshal stage_route (snd d)) (documents is_route_resource rs) s"
proof (rule for_each_documents [OF assms])
  fix r s assume "is_route_resource r" "None \<notin> set (Instances r)"
  moreover have "for_each (decode_document unmarshal stage_route) (map (\<lambda>i. ProtoJson (the i)) is) s
    = for_each (\<lambda>d. decode_document unmarshal stage_route (snd d)) (map (\<lambda>i. (t, ProtoJson (the i))) is) s"
    for "is" t
    by (rule for_each_map_eq) simp
  ultimately show "read_route_resource unmarshal (Some r) s
    = for_each (\<lambda>d. decode_document unmarshal stage_route (snd d))
        (map (\<lambda>i. (resource_Type r, ProtoJson (the i))) (Instances r)) s"
    by (simp add: read_route_resource_def is_route_resource_def read_route_instance_def read_instances)
qed (simp add: read_route_resource_def is_route_resource_def)

subsection \<open>The loop of \<open>Build\<close> against the graph interface\<close>

definition parents_staged :: "(string, Router_Route) gomap \<Rightarrow> bool" where
  "parents_staged m \<longleftrightarrow>
     (\<forall>k r. fmlookup m k = Some r \<longrightarrow> ParentName r \<noteq> '''' \<longrightarrow> ParentName r \<in> fmdom' m)"

definition parent_edges :: "(string, Router_Route) gomap \<Rightarrow> (string \<times> string) set" where
  "parent_edges m = {(k, p). \<exists>r. fmlookup m k = Some r \<and> p = ParentName r \<and> p \<noteq> ''''}"

locale route_graph = graph_interface Name graph_inv value_of edges_of add_single add_edge
  for graph_inv :: "'g \<Rightarrow> bool"
    and value_of :: "'g \<Rightarrow> string \<Rightarrow> Router_Route option"
    and edges_of :: "'g \<Rightarrow> (string \<times> string) set"
    and add_single :: "'g \<Rightarrow> Router_Route \<Rightarrow> 'g"
    and add_edge :: "'g \<Rightarrow> Router_Route \<Rightarrow> Router_Route \<Rightarrow> 'g"
begin

lemma insert_inv:
  "graph_inv g \<Longrightarrow> graph_inv (snd (insert_routes add_single add_edge m ks g))"
  by (induction ks arbitrary: g) (auto simp: single_inv edge_inv split: option.split)

lemma insert_fails_iff:
  "fst (insert_routes add_single add_edge m ks g) =
     (if \<forall>k \<in> set ks. \<forall>r. fmlookup m k = Some r \<longrightarrow> ParentName r \<noteq> '''' \<longrightarrow> ParentName r \<in> fmdom' m
      then None else Some ErrNoParentFound)"
  by (induction ks arbitrary: g) (auto simp: fmlookup_dom'_iff split: option.split)

lemma insert_keeps_values:
  "graph_inv g \<Longrightarrow> value_of g k = Some v \<Longrightarrow>
     value_of (snd (insert_routes add_single add_edge m ks g)) k = Some v"
  by (induction ks arbitrary: g)
     (auto simp: single_inv edge_inv single_value edge_value split: option.split)

lemma insert_keeps_edges:
  "graph_inv g \<Longrightarrow> edges_of g \<subseteq> edges_of (snd (insert_routes add_single add_edge m ks g))"
proof (induction ks arbitrary: g)
  case (Cons k ks)
  have "edges_of g \<subseteq> edges_of (snd (insert_routes add_single add_edge m ks (add_edge g r p)))" for r p
    using Cons.IH [of "add_edge g r p"] Cons.prems by (auto simp: edge_inv edge_edges)
  moreover have "edges_of g \<subseteq> edges_of (snd (insert_routes add_single add_edge m ks (add_single g r)))" for r
    using Cons.IH [of "add_single g r"] Cons.prems by (simp add: single_inv single_edges)
  ultimately show ?case using Cons by (auto split: option.split)
qed simp

lemma insert_new_values:
  "graph_inv g \<Longrightarrow> keyed_by_name m \<Longrightarrow> value_of g k = None \<Longrightarrow>
     value_of (snd (insert_routes add_single add_edge m ks g)) k = Some v \<Longrightarrow> fmlookup m k = Some v"
proof (induction ks arbitrary: g)
  case (Cons k' ks)
  have rest: "fmlookup m k = Some v"
    if "graph_inv g'" "value_of g' k = None \<or> value_of g' k = fmlookup m k"
      "value_of (snd (insert_routes add_single add_edge m ks g')) k = Some v" for g'
    using that Cons.IH [of g'] Cons.prems(2) insert_keeps_values [of g' k _ m ks]
    by (cases "value_of g' k") auto
  show ?case
  proof (cases "fmlookup m k'")
    case None
    with Cons show ?thesis by simp
  next
    case (Some r)
    with Cons.prems(2) have r: "Name r = k'" by (rule keyed_by_nameD)
    show ?thesis
    proof (cases "ParentName r = ''''")
      case True
      then show ?thesis using Some r Cons.prems rest [of "add_single g r"]
        by (simp add: single_inv single_value split: if_splits)
    next
      case False
      show ?thesis
      proof (cases "fmlookup m (ParentName r)")
        case None
        with Some False Cons.prems show ?thesis by simp
      next
        case p: (Some p)
        with Cons.prems(2) have "Name p = ParentName r" by (rule keyed_by_nameD)
        then show ?thesis using Some p r False Cons.prems rest [of "add_edge g r p"]
          by (simp add: edge_inv edge_value split: if_splits)
      qed
    qed
  qed
qed simp

lemma insert_all_present:
  "graph_inv g \<Longrightarrow> keyed_by_name m \<Longrightarrow> fst (insert_routes add_single add_edge m ks g) = None \<Longrightarrow>
     k \<in> set ks \<Longrightarrow> fmlookup m k = Some r \<Longrightarrow>
     value_of (snd (insert_routes add_single add_edge m ks g)) k \<noteq> None"
proof (induction ks arbitrary: g)
  case (Cons k' ks)
  have "value_of (add_single g r) (Name r) \<noteq> None" "value_of (add_edge g r p) (Name r) \<noteq> None" for p
    using Cons.prems(1) by (auto simp: single_value edge_value)
  then have "\<exists>v. value_of (snd (insert_routes add_single add_edge m ks (add_single g r))) (Name r) = Some v"
    and "\<exists>v. value_of (snd (insert_routes add_single add_edge m ks (add_edge g r p))) (Name r) = Some v" for p
    using insert_keeps_values Cons.prems(1) by (metis not_None_eq single_inv edge_inv)+
  with Cons keyed_by_nameD [OF Cons.prems(2,5)] show ?case
    by (auto simp: single_inv edge_inv split: option.splits if_splits)
qed simp

text \<open>What the loop leaves in the graph when it returns no error.\<close>

lemma insert_values:
  assumes "graph_inv g" and "keyed_by_name m" and "enumerates ks m"
    and "fst (insert_routes add_single add_edge m ks g) = None"
  shows "value_of (snd (insert_routes add_single add_edge m ks g)) k =
     (case value_of g k of Some v \<Rightarrow> Some v | None \<Rightarrow> fmlookup m k)"
proof (cases "value_of g k")
  case None
  show ?thesis
  proof (cases "fmlookup m k")
    case (Some r)
    with assms(3) have "k \<in> set ks" by (simp add: enumerates_lookup)
    from insert_all_present [OF assms(1,2,4) this Some] obtain v where
      "value_of (snd (insert_routes add_single add_edge m ks g)) k = Some v" by auto
    with insert_new_values [OF assms(1,2) None this] None show ?thesis by simp
  next
    case (None)
    with insert_new_values [OF assms(1,2) \<open>value_of g k = None\<close>] \<open>value_of g k = None\<close> show ?thesis
      by (cases "value_of (snd (insert_routes add_single add_edge m ks g)) k") auto
  qed
qed (use insert_keeps_values [OF assms(1)] in simp)

lemma insert_edges:
  "graph_inv g \<Longrightarrow> keyed_by_name m \<Longrightarrow> fst (insert_routes add_single add_edge m ks g) = None \<Longrightarrow>
     edges_of (snd (insert_routes add_single add_edge m ks g))
     = edges_of g \<union> {(k, p). k \<in> set ks \<and> (k, p) \<in> parent_edges m}"
proof (induction ks arbitrary: g)
  case (Cons k ks)
  show ?case
  proof (cases "fmlookup m k")
    case None
    with Cons show ?thesis by (auto simp: parent_edges_def)
  next
    case (Some r)
    with Cons.prems have name: "Name r = k" by (auto dest: keyed_by_nameD)
    show ?thesis
    proof (cases "ParentName r = ''''")
      case True
      with Some Cons show ?thesis by (auto simp: parent_edges_def single_inv single_edges)
    next
      case False
      with Some Cons.prems obtain p where p: "fmlookup m (ParentName r) = Some p"
        by (auto split: option.splits)
      with Cons.prems have "Name p = ParentName r" by (auto dest: keyed_by_nameD)
      with Some False p name Cons show ?thesis by (auto simp: parent_edges_def edge_inv edge_edges)
    qed
  qed
qed simp

end

interpretation route_graph_impl: route_graph "graph_ok Name" node_value edges AddSingleNode AddEdge
  by unfold_locales

subsection \<open>The routes state as a manager\<close>

definition routes_inv :: "routes_state \<Rightarrow> bool" where
  "routes_inv s \<longleftrightarrow> graph_ok Name (routes s) \<and> keyed_by_name (routesMap s)"

lemma routes_inv_init: "routes_inv NewRoutesState"
  by (simp add: routes_inv_def NewRoutesState_def graph_ok_NewGraph)

lemma routes_inv_stage: "routes_inv s \<Longrightarrow> routes_inv (stage_route r s)"
  by (simp add: routes_inv_def keyed_stage_route)

lemma routes_inv_read: "routes_inv s \<Longrightarrow> routes_inv (snd (routes_ReadFromTfstate unmarshal t s))"
  by (rule routes_read_keeps [where P = routes_inv]) (simp_all add: routes_inv_stage)

lemma routes_read_frame:
  "routes (snd (routes_ReadFromTfstate unmarshal t s)) = routes s"
  "updates_sent (snd (routes_ReadFromTfstate unmarshal t s)) = updates_sent s"
  by (rule routes_read_keeps [where P = "\<lambda>s'. routes s' = routes s"]; simp)
     (rule routes_read_keeps [where P = "\<lambda>s'. updates_sent s' = updates_sent s"]; simp)

lemma routes_of_Build:
  "routes (snd (routes_Build ks s)) = snd (insert_routes AddSingleNode AddEdge (routesMap s) ks (routes s))"
  by (simp add: routes_Build_def split: prod.split option.split)

lemma routes_Build_Ok:
  "routes_Build ks s = (Ok (), s') \<longleftrightarrow>
     fst (insert_routes AddSingleNode AddEdge (routesMap s) ks (routes s)) = None
     \<and> s' = s\<lparr>routes := snd (insert_routes AddSingleNode AddEdge (routesMap s) ks (routes s)),
              routesMap := fmempty, updates_sent := Suc (updates_sent s)\<rparr>"
  by (auto simp: routes_Build_def split: prod.split option.split)

lemma routes_Build_not_Ok:
  "routes_Build ks s = (r, s') \<Longrightarrow> r \<noteq> Ok () \<Longrightarrow>
     r = Err ErrNoParentFound \<and> routesMap s' = routesMap s \<and> updates_sent s' = updates_sent s
     \<and> fst (insert_routes AddSingleNode AddEdge (routesMap s) ks (routes s)) \<noteq> None"
  using route_graph_impl.insert_fails_iff [of "routesMap s" ks "routes s"]
  by (auto simp: routes_Build_def split: prod.splits option.splits if_splits)

lemma routes_inv_Build: "routes_inv s \<Longrightarrow> routes_inv (snd (routes_Build ks s))"
  using route_graph_impl.insert_inv [of "routes s" "routesMap s" ks]
  by (auto simp: routes_inv_def routes_Build_def split: prod.split option.split)

interpretation routes_manager: manager routes_inv routesMap fmempty updates_sent
    "routes_ReadFromTfstate unmarshal" "\<lambda>ks s. enumerates ks (routesMap s)" routes_Build
  for unmarshal :: "string \<Rightarrow> go_error + Router_Route"
  by unfold_locales
     (auto simp: routes_inv_read routes_read_frame routes_inv_Build routes_Build_Ok enumerates_exists
        dest: routes_Build_not_Ok)

text \<open>The states that calls of the two operations reach, whatever they return.\<close>

inductive routes_reach :: "(string \<Rightarrow> go_error + Router_Route) \<Rightarrow> routes_state \<Rightarrow> routes_state \<Rightarrow> bool"
  for unmarshal :: "string \<Rightarrow> go_error + Router_Route"
where
  reach_refl: "routes_reach unmarshal s s"
| reach_read: "routes_reach unmarshal s t \<Longrightarrow>
     routes_reach unmarshal s (snd (routes_ReadFromTfstate unmarshal tf t))"
| reach_build: "routes_reach unmarshal s t \<Longrightarrow> enumerates ks (routesMap t) \<Longrightarrow>
     routes_reach unmarshal s (snd (routes_Build ks t))"

lemma reach_read_result:
  "routes_reach unmarshal s t \<Longrightarrow> routes_ReadFromTfstate unmarshal tf t = (r, t') \<Longrightarrow>
     routes_reach unmarshal s t'"
  using reach_read [of unmarshal s t tf] by simp

lemma routes_reach_inv: "routes_reach unmarshal s t \<Longrightarrow> routes_inv s \<Longrightarrow> routes_inv t"
  by (induction rule: routes_reach.induct) (auto simp: routes_inv_read routes_inv_Build)

lemma routes_reach_grows:
  "routes_reach unmarshal s t \<Longrightarrow> routes_inv s \<Longrightarrow>
     (\<forall>k v. node_value (routes s) k = Some v \<longrightarrow> node_value (routes t) k = Some v)
     \<and> edges (routes s) \<subseteq> edges (routes t)"
proof (induction rule: routes_reach.induct)
  case (reach_build s t ks)
  from reach_build have "graph_ok Name (routes t)"
    using routes_reach_inv by (auto simp: routes_inv_def)
  with reach_build show ?case
    using route_graph_impl.insert_keeps_values [of "routes t"]
      route_graph_impl.insert_keeps_edges [of "routes t" "routesMap t" ks]
    by (auto simp: routes_of_Build)
qed (simp_all add: routes_read_frame)

lemma node_value_None: "nodes g = fmempty \<Longrightarrow> node_value g k = None"
  by (simp add: node_value_def)

subsection \<open>Properties\<close>

text \<open>Routes, documents and an \<open>unmarshal\<close> for the witnesses.\<close>

definition sample_route :: "string \<Rightarrow> string \<Rightarrow> Router_Route" where
  "sample_route name parent = \<lparr>Name = name, ParentName = parent, Matchers = [], Handler = None\<rparr>"

definition sample_unmarshal :: "string \<Rightarrow> go_error + Router_Route" where
  "sample_unmarshal doc =
     (if doc = ''root'' then Inr (sample_route ''root'' [])
      else if doc = ''leaf'' then Inr (sample_route ''leaf'' ''root'')
      else if doc = ''new leaf'' then Inr (sample_route ''leaf'' [])
      else Inl (Foreign ''bad json''))"

definition sample_tfstate :: "string list \<Rightarrow> Tfstate" where
  "sample_tfstate docs = \<lparr>Resources =
     [Some \<lparr>resource_Type = ''other'', resource_Name = [], resource_Mode = [], resource_Provider = [],
        Instances = [None]\<rparr>,
      Some \<lparr>resource_Type = ''cruiser_route'', resource_Name = [], resource_Mode = [],
        resource_Provider = [], Instances = map (\<lambda>d. Some \<lparr>ProtoJson = d\<rparr>) docs\<rparr>]\<rparr>"

lemma sample_route_sel [simp]:
  "Name (sample_route n p) = n" "ParentName (sample_route n p) = p"
  by (simp_all add: sample_route_def)

definition sample_staged :: routes_state where
  "sample_staged = stage_route (sample_route ''leaf'' ''root'')
     (stage_route (sample_route ''root'' []) NewRoutesState)"

lemma sample_staged_map:
  "routesMap sample_staged = fmupd ''leaf'' (sample_route ''leaf'' ''root'')
     (fmupd ''root'' (sample_route ''root'' []) fmempty)"
  "routes sample_staged = NewGraph Name" "updates_sent sample_staged = 0"
  by (simp_all add: sample_staged_def stage_route_def NewRoutesState_def)

lemma sample_staged_ok:
  "routes_inv sample_staged" "enumerates [''leaf'', ''root''] (routesMap sample_staged)"
  by (simp add: sample_staged_def routes_inv_init routes_inv_stage)
     (auto simp: sample_staged_map enumerates_def)

text \<open>
  Reading a Terraform state without nil elements decodes exactly the documents of its
  \<^verbatim>\<open>cruiser_route\<close> resources, in order, and stages each route under its name, a later document
  replacing an earlier one; a document that does not decode ends the read with its error and leaves
  the routes in front of it staged. The graph is not touched and no update is sent.
\<close>

theorem routes_read_stages:
  assumes "pointers_ok is_route_resource (Resources t)"
  shows "routes_ReadFromTfstate unmarshal (Some t) s =
     (let (r, rs) = decode_all (\<lambda>d. unmarshal (snd d)) (documents is_route_resource (Resources t))
      in (r, s\<lparr>routesMap := fold (\<lambda>r m. fmupd (Name r) r m) rs (routesMap s)\<rparr>))"
proof -
  have "fold stage_route rs s = s\<lparr>routesMap := fold (\<lambda>r m. fmupd (Name r) r m) rs (routesMap s)\<rparr>" for rs
    by (induction rs arbitrary: s) (simp_all add: stage_route_def)
  moreover have "for_each (read_route_resource unmarshal) (Resources t) s =
      (let (r, rs) = decode_all (\<lambda>d. unmarshal (snd d)) (documents is_route_resource (Resources t))
       in (r, fold stage_route rs s))"
    unfolding read_route_documents [OF assms] Let_def split_beta
    by (rule for_each_decode) (simp add: decode_document_def)
  ultimately show ?thesis by (simp add: routes_ReadFromTfstate_def split_beta)
qed

theorem routes_read_stages_witness:
  "routes_ReadFromTfstate sample_unmarshal (Some (sample_tfstate [''root'', ''leaf'', ''?'', ''leaf''])) NewRoutesState
   = (Err (Foreign ''bad json''), sample_staged)"
proof -
  let ?t = "sample_tfstate [''root'', ''leaf'', ''?'', ''leaf'']"
  have "pointers_ok is_route_resource (Resources ?t)"
    by (simp add: sample_tfstate_def is_route_resource_def)
  from routes_read_stages [OF this, of sample_unmarshal NewRoutesState] show ?thesis
    by (simp add: sample_tfstate_def is_route_resource_def sample_unmarshal_def sample_staged_def
        stage_route_def NewRoutesState_def)
qed

text \<open>
  C16. \<open>Build\<close> of the routes succeeds exactly when the parent of every staged route that names one
  is staged in the same round, whatever the order of the map loop; otherwise it returns
  \<open>ErrNoParentFound\<close>, keeps everything staged and sends no update. A parent that is already in the
  graph does not count.
\<close>

theorem routes_Build_outcome:
  assumes "enumerates ks (routesMap s)"
  shows "if parents_staged (routesMap s)
         then fst (routes_Build ks s) = Ok () \<and> routesMap (snd (routes_Build ks s)) = fmempty
           \<and> updates_sent (snd (routes_Build ks s)) = Suc (updates_sent s)
         else fst (routes_Build ks s) = Err ErrNoParentFound
           \<and> routesMap (snd (routes_Build ks s)) = routesMap s
           \<and> updates_sent (snd (routes_Build ks s)) = updates_sent s"
proof -
  have ks: "(\<forall>k \<in> set ks. \<forall>r. fmlookup (routesMap s) k = Some r \<longrightarrow> ParentName r \<noteq> '''' \<longrightarrow>
      ParentName r \<in> fmdom' (routesMap s)) = parents_staged (routesMap s)"
    using enumerates_lookup [OF assms] by (auto simp: parents_staged_def)
  obtain r g where run: "insert_routes AddSingleNode AddEdge (routesMap s) ks (routes s) = (r, g)"
    by fastforce
  with route_graph_impl.insert_fails_iff [of "routesMap s" ks "routes s"]
  have "r = (if parents_staged (routesMap s) then None else Some ErrNoParentFound)"
    by (simp only: ks fst_conv)
  then show ?thesis by (simp add: routes_Build_def run)
qed

theorem routes_Build_outcome_witness:
  "fst (routes_Build [''leaf'', ''root''] sample_staged) = Ok ()"
proof -
  have "parents_staged (routesMap sample_staged)"
    by (auto simp: parents_staged_def sample_staged_map)
  with routes_Build_outcome [OF sample_staged_ok(2)] show ?thesis by simp
qed

text \<open>
  C15. After a successful \<open>Build\<close> the graph holds, whatever the order of the map loop, its old nodes
  with their old values, a node with the staged route for every other staged name, and its old edges
  with an edge from every staged route to its parent.
\<close>

theorem routes_Build_graph:
  assumes "routes_inv s" and "enumerates ks (routesMap s)" and "routes_Build ks s = (Ok (), s')"
  shows "(\<forall>k. node_value (routes s') k =
            (case node_value (routes s) k of Some v \<Rightarrow> Some v | None \<Rightarrow> fmlookup (routesMap s) k))
       \<and> edges (routes s') = edges (routes s) \<union> parent_edges (routesMap s)"
proof -
  from assms(1) have s: "graph_ok Name (routes s)" "keyed_by_name (routesMap s)"
    by (simp_all add: routes_inv_def)
  from assms(3) have ok: "fst (insert_routes AddSingleNode AddEdge (routesMap s) ks (routes s)) = None"
    and s': "routes s' = snd (insert_routes AddSingleNode AddEdge (routesMap s) ks (routes s))"
    by (simp_all add: routes_Build_Ok)
  have "{(k, p). k \<in> set ks \<and> (k, p) \<in> parent_edges (routesMap s)} = parent_edges (routesMap s)"
    using enumerates_lookup [OF assms(2)] by (auto simp: parent_edges_def)
  with route_graph_impl.insert_edges [OF s ok] route_graph_impl.insert_values [OF s assms(2) ok]
  show ?thesis by (simp add: s')
qed

theorem routes_Build_graph_witness:
  "edges (routes (snd (routes_Build [''leaf'', ''root''] sample_staged))) = {(''leaf'', ''root'')}"
proof -
  have "routes_Build [''leaf'', ''root''] sample_staged = (Ok (), snd (routes_Build [''leaf'', ''root''] sample_staged))"
    by (simp add: routes_Build_def sample_staged_map split: prod.split)
  from routes_Build_graph [OF sample_staged_ok this] show ?thesis
    by (auto simp: sample_staged_map edges_NewGraph parent_edges_def split: if_splits)
qed

text \<open>
  C29. No operation changes or removes a route that is in the graph: once a name has a route, every
  later sequence of reads and builds, successful or not, leaves that first version under the name
  and keeps every edge. A route that changed or left the Terraform state is never updated.
\<close>

theorem routes_never_updated:
  assumes "routes_reach unmarshal NewRoutesState s" and "routes_reach unmarshal s t"
    and "node_value (routes s) k = Some v"
  shows "node_value (routes t) k = Some v \<and> edges (routes s) \<subseteq> edges (routes t)"
  using routes_reach_grows [OF assms(2) routes_reach_inv [OF assms(1) routes_inv_init]] assms(3) by simp

definition sample_built :: routes_state where
  "sample_built = snd (routes_Build [''leaf'', ''root''] sample_staged)"

lemma sample_reach:
  "routes_reach sample_unmarshal NewRoutesState sample_staged"
  "routes_reach sample_unmarshal NewRoutesState sample_built"
proof -
  have "routes_ReadFromTfstate sample_unmarshal (Some (sample_tfstate [''root'', ''leaf''])) NewRoutesState
      = (Ok (), sample_staged)"
    by (simp add: routes_ReadFromTfstate_def sample_tfstate_def read_route_resource_def
        read_route_instance_def read_instance_def decode_document_def sample_unmarshal_def sample_staged_def)
  with reach_refl show "routes_reach sample_unmarshal NewRoutesState sample_staged" by (rule reach_read_result)
  then show "routes_reach sample_unmarshal NewRoutesState sample_built"
    unfolding sample_built_def using sample_staged_ok(2) by (rule reach_build)
qed

lemma sample_built_Ok: "routes_Build [''leaf'', ''root''] sample_staged = (Ok (), sample_built)"
  by (simp add: sample_built_def routes_Build_def sample_staged_map split: prod.split)

lemma sample_built_leaf: "node_value (routes sample_built) ''leaf'' = Some (sample_route ''leaf'' ''root'')"
  by (simp add: sample_built_def routes_of_Build sample_staged_map node_value_AddEdge
      AddSingleNode_def node_value_addNode node_value_NewGraph)

theorem routes_never_updated_witness:
  "node_value (routes (snd (routes_Build [''leaf'']
      (stage_route (sample_route ''leaf'' []) sample_built)))) ''leaf'' = Some (sample_route ''leaf'' ''root'')"
proof -
  let ?t = "stage_route (sample_route ''leaf'' []) sample_built"
  have "routes_ReadFromTfstate sample_unmarshal (Some (sample_tfstate [''new leaf''])) sample_built = (Ok (), ?t)"
    by (simp add: routes_ReadFromTfstate_def sample_tfstate_def read_route_resource_def
        read_route_instance_def read_instance_def decode_document_def sample_unmarshal_def)
  with reach_refl have "routes_reach sample_unmarshal sample_built ?t" by (rule reach_read_result)
  moreover have "routesMap sample_built = fmempty"
    by (simp add: sample_built_def routes_Build_def sample_staged_map split: prod.split)
  then have "enumerates [''leaf''] (routesMap ?t)" by (simp add: enumerates_def stage_route_def)
  ultimately have "routes_reach sample_unmarshal sample_built (snd (routes_Build [''leaf''] ?t))"
    by (rule reach_build)
  from routes_never_updated [OF sample_reach(2) this sample_built_leaf] show ?thesis by simp
qed

text \<open>
  A \<open>Build\<close> that succeeds with at least one staged route sends an update whose receiver cannot
  read the routes: from then on \<open>GetRoutes\<close> panics, in every order of the nodes and after any later
  reads and builds.
\<close>

theorem GetRoutes_panics_after_Build:
  assumes "routes_reach unmarshal NewRoutesState s" and "enumerates ks (routesMap s)"
    and "routes_Build ks s = (Ok (), s')" and "routesMap s \<noteq> fmempty"
    and "routes_reach unmarshal s' t" and "enumerates order (nodes (routes t))"
  shows "GetRoutes order t = Panic InterfaceConversion"
proof -
  have s: "routes_inv s" by (rule routes_reach_inv [OF assms(1) routes_inv_init])
  with assms(3) routes_inv_Build [of s ks] have s': "routes_inv s'" by simp
  from s have g: "graph_ok Name (routes s)" "keyed_by_name (routesMap s)"
    by (simp_all add: routes_inv_def)
  obtain k r where k: "fmlookup (routesMap s) k = Some r"
    using assms(4) by (metis fmap_ext fmempty_lookup not_None_eq)
  with assms(2) have "k \<in> set ks" by (simp add: enumerates_lookup)
  with route_graph_impl.insert_all_present [OF g, of ks k r] k assms(3)
  obtain v where "node_value (routes s') k = Some v" by (auto simp: routes_Build_Ok)
  with routes_reach_grows [OF assms(5) s'] have "node_value (routes t) k = Some v" by simp
  then have "nodes (routes t) \<noteq> fmempty" using node_value_None by fastforce
  moreover from routes_reach_inv [OF assms(5) s'] have "wf_graph (routes t)"
    by (simp add: routes_inv_def graph_ok_def)
  then obtain L where "TopologicalSort (routes t) order = collect_values (map NodePtr L) []"
    "set L = fmdom' (nodes (routes t))"
    by (rule TopologicalSort_collects [OF _ assms(6)])
  ultimately show ?thesis
    using no_nodes_iff [of "routes t"] by (cases "L = []") (auto simp: GetRoutes_def collect_pointers)
qed

theorem GetRoutes_panics_after_Build_witness:
  "GetRoutes [''leaf'', ''root''] sample_built = Panic InterfaceConversion"
proof (rule GetRoutes_panics_after_Build [OF sample_reach(1) sample_staged_ok(2) sample_built_Ok _ reach_refl])
  show "routesMap sample_staged \<noteq> fmempty"
    by (auto simp: sample_staged_map dest: arg_cong [where f = fmdom'])
  show "enumerates [''leaf'', ''root''] (nodes (routes sample_built))"
    by (auto simp: enumerates_def sample_built_def routes_of_Build sample_staged_map AddSingleNode_def NewGraph_def)
qed

end
