(* ===== verification/Xds_State.thy ===== *)
theory Xds_State
  imports State_Manager
begin

section \<open>The xDS state (\<^verbatim>\<open>pkg/state/xds.go\<close>)\<close>

text \<open>
  The manager of the Envoy resources. The messages are types of go-control-plane: \<open>'m\<close> stands for
  the listeners, virtual hosts, route configurations and clusters, which the code only decodes,
  names and stores; of a cluster load assignment it also reads \<open>ClusterName\<close> and replaces
  \<open>Endpoints\<close>. \<open>xds_api\<close> holds the functions of the packages the code calls: \<^verbatim>\<open>protojson.Unmarshal\<close>
  at each message type, \<^verbatim>\<open>cache.GetResourceName\<close>, and \<^verbatim>\<open>LinearCache.UpdateResources\<close> on the
  opaque cache type \<open>'c\<close>.
\<close>

subsection \<open>Data\<close>

record ('e, 'x) ClusterLoadAssignment =
  ClusterName :: string
  Endpoints :: "'e list"
  other_fields :: 'x

datatype ('m, 'a) resource = Message 'm | Assignment 'a

record ('m, 'e, 'x, 'c) xds_api =
  unmarshal_listener :: "string \<Rightarrow> go_error + 'm"
  unmarshal_virtual_host :: "string \<Rightarrow> go_error + 'm"
  unmarshal_cluster :: "string \<Rightarrow> go_error + 'm"
  unmarshal_route_configuration :: "string \<Rightarrow> go_error + 'm"
  unmarshal_assignment :: "string \<Rightarrow> go_error + ('e, 'x) ClusterLoadAssignment"
  GetResourceName :: "('m, ('e, 'x) ClusterLoadAssignment) resource \<Rightarrow> string"
  UpdateResources :: "'c \<Rightarrow> (string, ('m, ('e, 'x) ClusterLoadAssignment) resource) gomap \<Rightarrow> string list \<Rightarrow>
    go_error option \<times> 'c"

record ('m, 'e, 'x, 'c) xds_state =
  listenersMap :: "(string, 'm) gomap"
  virtualHostsMap :: "(string, 'm) gomap"
  routeConfigurationsMap :: "(string, 'm) gomap"
  clustersMap :: "(string, 'm) gomap"
  clusterLoadAssignmentsMap :: "(string, ('e, 'x) ClusterLoadAssignment) gomap"
  endpointsMap :: "(string, 'e list) gomap"
  listenersToDelete :: "(string, 'm) gomap"
  virtualHostsToDelete :: "(string, 'm) gomap"
  routeConfigurationsToDelete :: "(string, 'm) gomap"
  clustersToDelete :: "(string, 'm) gomap"
  clusterLoadAssignmentsToDelete :: "(string, ('e, 'x) ClusterLoadAssignment) gomap"
  listenerCache :: 'c
  virtualHostCache :: 'c
  routeConfigurationCache :: 'c
  clusterCache :: 'c
  clusterLoadAssignmentCache :: 'c
  xds_updates_sent :: nat

text \<open>\<open>cache0\<close> is the result of \<^verbatim>\<open>cache.NewLinearCache\<close>, by type URL.\<close>

datatype xds_kind = Listeners | VirtualHosts | RouteConfigurations | Clusters | ClusterLoadAssignments

definition NewXdsState :: "(xds_kind \<Rightarrow> 'c) \<Rightarrow> ('m, 'e, 'x, 'c) xds_state" where
  "NewXdsState cache0 =
     \<lparr>listenersMap = fmempty, virtualHostsMap = fmempty, routeConfigurationsMap = fmempty,
      clustersMap = fmempty, clusterLoadAssignmentsMap = fmempty, endpointsMap = fmempty,
      listenersToDelete = fmempty, virtualHostsToDelete = fmempty,
      routeConfigurationsToDelete = fmempty, clustersToDelete = fmempty,
      clusterLoadAssignmentsToDelete = fmempty,
      listenerCache = cache0 Listeners, virtualHostCache = cache0 VirtualHosts,
      routeConfigurationCache = cache0 RouteConfigurations, clusterCache = cache0 Clusters,
      clusterLoadAssignmentCache = cache0 ClusterLoadAssignments, xds_updates_sent = 0\<rparr>"

subsection \<open>Reading a Terraform state\<close>

definition store_listener ::
  "('m, 'e, 'x, 'c) xds_api \<Rightarrow> 'm \<Rightarrow> ('m, 'e, 'x, 'c) xds_state \<Rightarrow> ('m, 'e, 'x, 'c) xds_state" where
  "store_listener api m s = s\<lparr>listenersMap := fmupd (GetResourceName api (Message m)) m (listenersMap s)\<rparr>"

definition store_virtual_host ::
  "('m, 'e, 'x, 'c) xds_api \<Rightarrow> 'm \<Rightarrow> ('m, 'e, 'x, 'c) xds_state \<Rightarrow> ('m, 'e, 'x, 'c) xds_state" where
  "store_virtual_host api m s =
     s\<lparr>virtualHostsMap := fmupd (GetResourceName api (Message m)) m (virtualHostsMap s)\<rparr>"

definition store_cluster ::
  "('m, 'e, 'x, 'c) xds_api \<Rightarrow> 'm \<Rightarrow> ('m, 'e, 'x, 'c) xds_state \<Rightarrow> ('m, 'e, 'x, 'c) xds_state" where
  "store_cluster api m s = s\<lparr>clustersMap := fmupd (GetResourceName api (Message m)) m (clustersMap s)\<rparr>"

definition store_route_configuration ::
  "('m, 'e, 'x, 'c) xds_api \<Rightarrow> 'm \<Rightarrow> ('m, 'e, 'x, 'c) xds_state \<Rightarrow> ('m, 'e, 'x, 'c) xds_state" where
  "store_route_configuration api m s =
     s\<lparr>routeConfigurationsMap := fmupd (GetResourceName api (Message m)) m (routeConfigurationsMap s)\<rparr>"

definition store_assignment ::
  "('m, 'e, 'x, 'c) xds_api \<Rightarrow> ('e, 'x) ClusterLoadAssignment \<Rightarrow>
   ('m, 'e, 'x, 'c) xds_state \<Rightarrow> ('m, 'e, 'x, 'c) xds_state"
where
  "store_assignment api a s =
     (let name = GetResourceName api (Assignment a);
          a' = (case fmlookup (endpointsMap s) name of
                  None \<Rightarrow> a
                | Some endpoints \<Rightarrow> a\<lparr>Endpoints := endpoints\<rparr>)
      in s\<lparr>clusterLoadAssignmentsMap := fmupd name a' (clusterLoadAssignmentsMap s)\<rparr>)"

definition read_xds_instance ::
  "('m, 'e, 'x, 'c) xds_api \<Rightarrow> string \<Rightarrow> TfstateResourceInstance option \<Rightarrow>
   ('m, 'e, 'x, 'c) xds_state \<Rightarrow> unit outcome \<times> ('m, 'e, 'x, 'c) xds_state"
where
  "read_xds_instance api ty inst s =
     (if ty = ''cruiser_envoy_listener'' then
        read_instance (unmarshal_listener api) (store_listener api) inst s
      else if ty = ''cruiser_envoy_virtual_host'' then
        read_instance (unmarshal_virtual_host api) (store_virtual_host api) inst s
      else if ty = ''cruiser_envoy_cluster'' then
        read_instance (unmarshal_cluster api) (store_cluster api) inst s
      else if ty = ''cruiser_envoy_route_configuration'' then
        read_instance (unmarshal_route_configuration api) (store_route_configuration api) inst s
      else if ty = ''cruiser_envoy_cluster_load_assignment'' then
        read_instance (unmarshal_assignment api) (store_assignment api) inst s
      else (Ok (), s))"

definition read_xds_resource ::
  "('m, 'e, 'x, 'c) xds_api \<Rightarrow> TfstateResource option \<Rightarrow>
   ('m, 'e, 'x, 'c) xds_state \<Rightarrow> unit outcome \<times> ('m, 'e, 'x, 'c) xds_state"
where
  "read_xds_resource api res s =
     (case res of
        None \<Rightarrow> (Panic NilDereference, s)
      | Some r \<Rightarrow> for_each (read_xds_instance api (resource_Type r)) (Instances r) s)"

definition xds_ReadFromTfstate ::
  "('m, 'e, 'x, 'c) xds_api \<Rightarrow> Tfstate option \<Rightarrow>
   ('m, 'e, 'x, 'c) xds_state \<Rightarrow> unit outcome \<times> ('m, 'e, 'x, 'c) xds_state"
where
  "xds_ReadFromTfstate api tfstate s =
     (case tfstate of
        None \<Rightarrow> (Panic NilDereference, s)
      | Some t \<Rightarrow> for_each (read_xds_resource api) (Resources t) s)"

subsection \<open>Publishing\<close>

text \<open>The two loops of \<open>transactXdsResource\<close>, each over the keys of its map in the order of the visit.\<close>

fun collect_updates ::
  "('t \<Rightarrow> 'r) \<Rightarrow> (string, 't) gomap \<Rightarrow> string list \<Rightarrow> (string, 'r) gomap \<Rightarrow> (string, 't) gomap \<Rightarrow>
   (string, 'r) gomap \<times> (string, 't) gomap"
where
  "collect_updates box toUpdate [] updates toDelete = (updates, toDelete)"
| "collect_updates box toUpdate (name # ks) updates toDelete =
     (case fmlookup toUpdate name of
        None \<Rightarrow> collect_updates box toUpdate ks updates toDelete
      | Some r \<Rightarrow> collect_updates box toUpdate ks (fmupd name (box r) updates) (fmdrop name toDelete))"

fun collect_deletes :: "(string, 't) gomap \<Rightarrow> string list \<Rightarrow> string list \<Rightarrow> string list" where
  "collect_deletes toDelete [] deletes = deletes"
| "collect_deletes toDelete (name # ks) deletes =
     (case fmlookup toDelete name of
        None \<Rightarrow> collect_deletes toDelete ks deletes
      | Some _ \<Rightarrow> collect_deletes toDelete ks (deletes @ [name]))"

definition transactXdsResource ::
  "('c \<Rightarrow> (string, 'r) gomap \<Rightarrow> string list \<Rightarrow> go_error option \<times> 'c) \<Rightarrow> ('t \<Rightarrow> 'r) \<Rightarrow>
   string list \<times> string list \<Rightarrow> 'c \<Rightarrow> (string, 't) gomap \<Rightarrow> (string, 't) gomap \<Rightarrow>
   unit outcome \<times> 'c \<times> (string, 't) gomap"
where
  "transactXdsResource update box ord cache toUpdate toDelete =
     (let (updates, toDelete') = collect_updates box toUpdate (fst ord) fmempty toDelete;
          deletes = collect_deletes toDelete' (snd ord) []
      in case update cache updates deletes of
           (Some err, cache') \<Rightarrow> (Err err, cache', toDelete')
         | (None, cache') \<Rightarrow> (Ok (), cache', toDelete'))"

type_synonym xds_order = "xds_kind \<Rightarrow> string list \<times> string list"

definition transact_clusters ::
  "('m, 'e, 'x, 'c) xds_api \<Rightarrow> string list \<times> string list \<Rightarrow>
   ('m, 'e, 'x, 'c) xds_state \<Rightarrow> unit outcome \<times> ('m, 'e, 'x, 'c) xds_state" where
  "transact_clusters api ord s =
     (let (r, c, d) = transactXdsResource (UpdateResources api) Message ord
                        (clusterCache s) (clustersMap s) (clustersToDelete s)
      in (r, s\<lparr>clusterCache := c, clustersToDelete := d\<rparr>))"

definition transact_assignments ::
  "('m, 'e, 'x, 'c) xds_api \<Rightarrow> string list \<times> string list \<Rightarrow>
   ('m, 'e, 'x, 'c) xds_state \<Rightarrow> unit outcome \<times> ('m, 'e, 'x, 'c) xds_state" where
  "transact_assignments api ord s =
     (let (r, c, d) = transactXdsResource (UpdateResources api) Assignment ord
                        (clusterLoadAssignmentCache s) (clusterLoadAssignmentsMap s) (clusterLoadAssignmentsToDelete s)
      in (r, s\<lparr>clusterLoadAssignmentCache := c, clusterLoadAssignmentsToDelete := d\<rparr>))"

definition transact_listeners ::
  "('m, 'e, 'x, 'c) xds_api \<Rightarrow> string list \<times> string list \<Rightarrow>
   ('m, 'e, 'x, 'c) xds_state \<Rightarrow> unit outcome \<times> ('m, 'e, 'x, 'c) xds_state" where
  "transact_listeners api ord s =
     (let (r, c, d) = transactXdsResource (UpdateResources api) Message ord
                        (listenerCache s) (listenersMap s) (listenersToDelete s)
      in (r, s\<lparr>listenerCache := c, listenersToDelete := d\<rparr>))"

definition transact_virtual_hosts ::
  "('m, 'e, 'x, 'c) xds_api \<Rightarrow> string list \<times> string list \<Rightarrow>
   ('m, 'e, 'x, 'c) xds_state \<Rightarrow> unit outcome \<times> ('m, 'e, 'x, 'c) xds_state" where
  "transact_virtual_hosts api ord s =
     (let (r, c, d) = transactXdsResource (UpdateResources api) Message ord
                        (virtualHostCache s) (virtualHostsMap s) (virtualHostsToDelete s)
      in (r, s\<lparr>virtualHostCache := c, virtualHostsToDelete := d\<rparr>))"

definition transact_route_configurations ::
  "('m, 'e, 'x, 'c) xds_api \<Rightarrow> string list \<times> string list \<Rightarrow>
   ('m, 'e, 'x, 'c) xds_state \<Rightarrow> unit outcome \<times> ('m, 'e, 'x, 'c) xds_state" where
  "transact_route_configurations api ord s =
     (let (r, c, d) = transactXdsResource (UpdateResources api) Message ord
                        (routeConfigurationCache s) (routeConfigurationsMap s) (routeConfigurationsToDelete s)
      in (r, s\<lparr>routeConfigurationCache := c, routeConfigurationsToDelete := d\<rparr>))"

definition finish_build :: "('m, 'e, 'x, 'c) xds_state \<Rightarrow> ('m, 'e, 'x, 'c) xds_state" where
  "finish_build s =
     s\<lparr>listenersToDelete := listenersMap s,
       virtualHostsToDelete := virtualHostsMap s,
       routeConfigurationsToDelete := routeConfigurationsMap s,
       clustersToDelete := clustersMap s,
       clusterLoadAssignmentsToDelete := clusterLoadAssignmentsMap s,
       listenersMap := fmempty,
       virtualHostsMap := fmempty,
       routeConfigurationsMap := fmempty,
       clustersMap := fmempty,
       clusterLoadAssignmentsMap := fmempty,
       xds_updates_sent := Suc (xds_updates_sent s)\<rparr>"

definition xds_Build ::
  "('m, 'e, 'x, 'c) xds_api \<Rightarrow> xds_order \<Rightarrow>
   ('m, 'e, 'x, 'c) xds_state \<Rightarrow> unit outcome \<times> ('m, 'e, 'x, 'c) xds_state"
where
  "xds_Build api ord s =
     and_then (transact_clusters api (ord Clusters) s) (\<lambda>_ s.
     and_then (transact_assignments api (ord ClusterLoadAssignments) s) (\<lambda>_ s.
     and_then (transact_listeners api (ord Listeners) s) (\<lambda>_ s.
     and_then (transact_virtual_hosts api (ord VirtualHosts) s) (\<lambda>_ s.
     and_then (transact_route_configurations api (ord RouteConfigurations) s) (\<lambda>_ s.
     (Ok (), finish_build s))))))"

subsection \<open>Endpoints\<close>

text \<open>The loop returns at the first assignment without endpoints.\<close>

fun SetClusterEndpoints ::
  "('e, 'x) ClusterLoadAssignment list \<Rightarrow> ('m, 'e, 'x, 'c) xds_state \<Rightarrow> ('m, 'e, 'x, 'c) xds_state"
where
  "SetClusterEndpoints [] s = s"
| "SetClusterEndpoints (a # as) s =
     (if length (Endpoints a) = 0 then s\<lparr>endpointsMap := fmdrop (ClusterName a) (endpointsMap s)\<rparr>
      else SetClusterEndpoints as
             (s\<lparr>endpointsMap := fmupd (ClusterName a) (Endpoints a) (endpointsMap s)\<rparr>))"

subsection \<open>The caches the discovery server answers from\<close>

text \<open>
  \<open>Register\<close> serves every request from the cache stored under its type URL; the URLs are constants
  of go-control-plane.
\<close>

record type_urls =
  ListenerType :: string
  RouteType :: string
  ClusterType :: string
  VirtualHostType :: string
  EndpointType :: string

definition mux_caches :: "type_urls \<Rightarrow> ('m, 'e, 'x, 'c) xds_state \<Rightarrow> (string, 'c) gomap" where
  "mux_caches urls s = fmap_of_list
     [(ListenerType urls, listenerCache s), (RouteType urls, routeConfigurationCache s),
      (ClusterType urls, clusterCache s), (VirtualHostType urls, virtualHostCache s),
      (EndpointType urls, clusterLoadAssignmentCache s)]"

text \<open>The services that \<open>Register\<close> puts on the gRPC server, all of them over these caches.\<close>

datatype discovery_service =
    AggregatedDiscoveryService
  | EndpointDiscoveryService
  | ClusterDiscoveryService
  | RouteDiscoveryService
  | ListenerDiscoveryService
  | SecretDiscoveryService
  | RuntimeDiscoveryService
  | VirtualHostDiscoveryService

definition Register :: "type_urls \<Rightarrow> ('m, 'e, 'x, 'c) xds_state \<Rightarrow> (discovery_service \<times> (string, 'c) gomap) list" where
  "Register urls s = map (\<lambda>service. (service, mux_caches urls s))
     [AggregatedDiscoveryService, EndpointDiscoveryService, ClusterDiscoveryService, RouteDiscoveryService,
      ListenerDiscoveryService, SecretDiscoveryService, RuntimeDiscoveryService, VirtualHostDiscoveryService]"

subsection \<open>The two loops of a transaction\<close>

lemma collect_updates_eq:
  "collect_updates box m ks acc d = (copy_entries box m ks acc, fmdrop_set (set ks \<inter> fmdom' m) d)"
proof (induction box m ks acc d rule: collect_updates.induct)
  case (2 box m name ks acc d)
  then show ?case
    by (auto simp: fmlookup_dom'_iff split: option.splits intro!: arg_cong [where f = "\<lambda>A. fmdrop_set A d"])
qed simp

lemma collect_deletes_eq: "set ks \<subseteq> fmdom' m \<Longrightarrow> collect_deletes m ks acc = acc @ ks"
  by (induction m ks acc rule: collect_deletes.induct) (auto simp: fmlookup_dom'_iff split: option.splits)

definition transact_order :: "string list \<times> string list \<Rightarrow> (string, 't) gomap \<Rightarrow> (string, 't) gomap \<Rightarrow> bool" where
  "transact_order ord toUpdate toDelete \<longleftrightarrow>
     enumerates (fst ord) toUpdate \<and> enumerates (snd ord) (fmdrop_set (fmdom' toUpdate) toDelete)"

lemma transact_order_exists: "\<exists>ord. transact_order ord u d"
  using enumerates_exists [of u] enumerates_exists [of "fmdrop_set (fmdom' u) d"]
  by (auto simp: transact_order_def)

lemma transactXdsResource_eq:
  assumes "transact_order ord u d"
  shows "transactXdsResource update box ord c u d =
    (case update c (fmmap box u) (snd ord) of
       (Some err, c') \<Rightarrow> (Err err, c', fmdrop_set (fmdom' u) d)
     | (None, c') \<Rightarrow> (Ok (), c', fmdrop_set (fmdom' u) d))"
proof -
  from assms have "collect_updates box u (fst ord) fmempty d = (fmmap box u, fmdrop_set (fmdom' u) d)"
    by (simp add: collect_updates_eq transact_order_def copy_entries_all) (simp add: enumerates_def)
  moreover from assms have "collect_deletes (fmdrop_set (fmdom' u) d) (snd ord) [] = snd ord"
    by (simp add: collect_deletes_eq transact_order_def enumerates_def)
  ultimately show ?thesis by (simp add: transactXdsResource_def)
qed

text \<open>
  What the code relies on of \<^verbatim>\<open>LinearCache.UpdateResources\<close>: when it returns no error and no name is
  both updated and deleted, the cache holds the updated resources and what it held, less the deleted
  names.
\<close>

definition linear_cache ::
  "('c \<Rightarrow> (string, 'r) gomap \<Rightarrow> string list \<Rightarrow> go_error option \<times> 'c) \<Rightarrow> ('c \<Rightarrow> (string, 'r) gomap) \<Rightarrow> bool"
where
  "linear_cache update contents \<longleftrightarrow>
     (\<forall>c u d c'. update c u d = (None, c') \<longrightarrow> set d \<inter> fmdom' u = {} \<longrightarrow>
        contents c' = fmdrop_set (set d) (contents c ++\<^sub>f u))"

lemma linear_cacheD:
  "linear_cache update contents \<Longrightarrow> update c u d = (None, c') \<Longrightarrow> set d \<inter> fmdom' u = {} \<Longrightarrow>
     contents c' = fmdrop_set (set d) (contents c ++\<^sub>f u)"
  by (simp add: linear_cache_def)

subsection \<open>The whole of \<open>Build\<close>\<close>

text \<open>The three maps and the cache of each kind, as resources.\<close>

fun staged_of ::
  "('m, 'e, 'x, 'c) xds_state \<Rightarrow> xds_kind \<Rightarrow> (string, ('m, ('e, 'x) ClusterLoadAssignment) resource) gomap"
where
  "staged_of s Listeners = fmmap Message (listenersMap s)"
| "staged_of s VirtualHosts = fmmap Message (virtualHostsMap s)"
| "staged_of s RouteConfigurations = fmmap Message (routeConfigurationsMap s)"
| "staged_of s Clusters = fmmap Message (clustersMap s)"
| "staged_of s ClusterLoadAssignments = fmmap Assignment (clusterLoadAssignmentsMap s)"

fun retained_of ::
  "('m, 'e, 'x, 'c) xds_state \<Rightarrow> xds_kind \<Rightarrow> (string, ('m, ('e, 'x) ClusterLoadAssignment) resource) gomap"
where
  "retained_of s Listeners = fmmap Message (listenersToDelete s)"
| "retained_of s VirtualHosts = fmmap Message (virtualHostsToDelete s)"
| "retained_of s RouteConfigurations = fmmap Message (routeConfigurationsToDelete s)"
| "retained_of s Clusters = fmmap Message (clustersToDelete s)"
| "retained_of s ClusterLoadAssignments = fmmap Assignment (clusterLoadAssignmentsToDelete s)"

fun cache_of :: "('m, 'e, 'x, 'c) xds_state \<Rightarrow> xds_kind \<Rightarrow> 'c" where
  "cache_of s Listeners = listenerCache s"
| "cache_of s VirtualHosts = virtualHostCache s"
| "cache_of s RouteConfigurations = routeConfigurationCache s"
| "cache_of s Clusters = clusterCache s"
| "cache_of s ClusterLoadAssignments = clusterLoadAssignmentCache s"

lemma all_kinds:
  "(\<forall>k. P k) \<longleftrightarrow> P Listeners \<and> P VirtualHosts \<and> P RouteConfigurations \<and> P Clusters \<and> P ClusterLoadAssignments"
  by (metis xds_kind.exhaust)

lemma enumerates_fmmap [simp]: "enumerates ks (fmmap f m) \<longleftrightarrow> enumerates ks m"
  by (simp add: enumerates_def)

text \<open>The orders in which the loops of \<open>Build\<close> can range over the maps of the state.\<close>

definition xds_order_ok :: "xds_order \<Rightarrow> ('m, 'e, 'x, 'c) xds_state \<Rightarrow> bool" where
  "xds_order_ok ord s \<longleftrightarrow> (\<forall>k. transact_order (ord k) (staged_of s k) (retained_of s k))"

lemma xds_order_exists: "\<exists>ord. xds_order_ok ord s"
  unfolding xds_order_ok_def by (rule choice) (use transact_order_exists in blast)

text \<open>One transaction: it touches one cache and one map of retained resources.\<close>

definition kind_step ::
  "('m, 'e, 'x, 'c) xds_api \<Rightarrow> string list \<times> string list \<Rightarrow> xds_kind \<Rightarrow>
   ('m, 'e, 'x, 'c) xds_state \<Rightarrow> unit outcome \<Rightarrow> ('m, 'e, 'x, 'c) xds_state \<Rightarrow> bool"
where
  "kind_step api o1 k s r s' \<longleftrightarrow>
     staged_of s' = staged_of s \<and> xds_updates_sent s' = xds_updates_sent s
     \<and> (\<forall>j. j \<noteq> k \<longrightarrow> cache_of s' j = cache_of s j \<and> retained_of s' j = retained_of s j)
     \<and> (transact_order o1 (staged_of s k) (retained_of s k) \<longrightarrow>
          (case UpdateResources api (cache_of s k) (staged_of s k) (snd o1) of
             (Some e, c) \<Rightarrow> r = Err e \<and> cache_of s' k = c
           | (None, c) \<Rightarrow> r = Ok () \<and> cache_of s' k = c))"

lemma transact_order_fmmap [simp]:
  "transact_order o1 (fmmap f u) (fmmap g d) \<longleftrightarrow> transact_order o1 u d"
  by (simp add: transact_order_def)

lemma transact_kind_step:
  "transact_clusters api o1 s = (r, s') \<Longrightarrow> kind_step api o1 Clusters s r s'"
  "transact_assignments api o1 s = (r, s') \<Longrightarrow> kind_step api o1 ClusterLoadAssignments s r s'"
  "transact_listeners api o1 s = (r, s') \<Longrightarrow> kind_step api o1 Listeners s r s'"
  "transact_virtual_hosts api o1 s = (r, s') \<Longrightarrow> kind_step api o1 VirtualHosts s r s'"
  "transact_route_configurations api o1 s = (r, s') \<Longrightarrow> kind_step api o1 RouteConfigurations s r s'"
  unfolding kind_step_def all_kinds fun_eq_iff
  by (auto simp: transactXdsResource_eq transact_clusters_def transact_assignments_def transact_listeners_def
      transact_virtual_hosts_def transact_route_configurations_def split: prod.splits option.splits)

text \<open>The order in which \<open>Build\<close> updates the caches.\<close>

definition build_sequence :: "xds_kind list" where
  "build_sequence = [Clusters, ClusterLoadAssignments, Listeners, VirtualHosts, RouteConfigurations]"

lemma build_sequence_set: "set build_sequence = UNIV" "distinct build_sequence"
  using xds_kind.exhaust by (auto simp: build_sequence_def)

fun kinds_run ::
  "('m, 'e, 'x, 'c) xds_api \<Rightarrow> xds_order \<Rightarrow> xds_kind list \<Rightarrow>
   ('m, 'e, 'x, 'c) xds_state \<Rightarrow> unit outcome \<Rightarrow> ('m, 'e, 'x, 'c) xds_state \<Rightarrow> bool"
where
  "kinds_run api ord [] s r s' \<longleftrightarrow> r = Ok () \<and> s' = s"
| "kinds_run api ord (k # ks) s r s' \<longleftrightarrow>
     (\<exists>r1 s1. kind_step api (ord k) k s r1 s1
        \<and> (if r1 = Ok () then kinds_run api ord ks s1 r s' else r = r1 \<and> s' = s1))"

lemma and_then_run:
  assumes "and_then m f = (r, s')" and "\<And>r1 s1. m = (r1, s1) \<Longrightarrow> kind_step api (ord k) k s r1 s1"
    and "\<And>s1. f () s1 = (r, s') \<Longrightarrow> \<exists>t. kinds_run api ord ks s1 r t \<and> Q t"
    and "\<And>r1. m = (r1, s') \<Longrightarrow> r1 \<noteq> Ok () \<Longrightarrow> r = r1 \<Longrightarrow> Q s'"
  shows "\<exists>t. kinds_run api ord (k # ks) s r t \<and> Q t"
proof (cases "(m, f)" rule: and_then.cases)
  case (1 a s1 f')
  then have m: "m = (Ok (), s1)" by simp
  with 1 assms(1) have "f () s1 = (r, s')" by simp
  from assms(3) [OF this] obtain t where "kinds_run api ord ks s1 r t" "Q t" by blast
  with assms(2) [OF m] show ?thesis by auto
next
  case (2 e s1 f')
  with assms show ?thesis by auto
next
  case (3 p s1 f')
  with assms show ?thesis by auto
qed

lemma xds_Build_run:
  assumes "xds_Build api ord s = (r, s')"
  shows "\<exists>t. kinds_run api ord build_sequence s r t \<and> s' = (if r = Ok () then finish_build t else t)"
  using assms unfolding xds_Build_def build_sequence_def
  by (elim and_then_run) (auto intro: transact_kind_step elim!: and_then_run)

lemma kind_step_publishes:
  assumes cache: "linear_cache (UpdateResources api) contents"
    and step: "kind_step api o1 k s (Ok ()) s'"
    and ord: "transact_order o1 (staged_of s k) (retained_of s k)"
    and old: "contents (cache_of s k) = retained_of s k"
  shows "contents (cache_of s' k) = staged_of s k"
proof -
  let ?u = "staged_of s k" and ?d = "retained_of s k"
  from step ord have "UpdateResources api (cache_of s k) ?u (snd o1) = (None, cache_of s' k)"
    by (auto simp: kind_step_def split: prod.splits option.splits)
  moreover from ord have deleted: "set (snd o1) = fmdom' ?d - fmdom' ?u"
    by (auto simp: transact_order_def enumerates_def)
  then have "set (snd o1) \<inter> fmdom' ?u = {}" by auto
  ultimately have "contents (cache_of s' k) = fmdrop_set (fmdom' ?d - fmdom' ?u) (contents (cache_of s k) ++\<^sub>f ?u)"
    using linear_cacheD [OF cache] deleted by metis
  then show ?thesis by (simp only: old fmap_replace)
qed

lemma kind_step_frame:
  assumes "kind_step api o1 k s r s'"
  shows "staged_of s' = staged_of s" and "xds_updates_sent s' = xds_updates_sent s"
    and "j \<noteq> k \<Longrightarrow> cache_of s' j = cache_of s j" and "j \<noteq> k \<Longrightarrow> retained_of s' j = retained_of s j"
  using assms by (simp_all add: kind_step_def)

lemma kinds_run_frame:
  "kinds_run api ord ks s r s' \<Longrightarrow>
     staged_of s' = staged_of s \<and> xds_updates_sent s' = xds_updates_sent s
     \<and> (\<forall>j. j \<notin> set ks \<longrightarrow> cache_of s' j = cache_of s j \<and> retained_of s' j = retained_of s j)"
proof (induction ks arbitrary: s)
  case (Cons k ks)
  then obtain r1 s1 where step: "kind_step api (ord k) k s r1 s1"
    and rest: "if r1 = Ok () then kinds_run api ord ks s1 r s' else r = r1 \<and> s' = s1"
    by auto
  note frame = kind_step_frame [OF step]
  show ?case
  proof (cases "r1 = Ok ()")
    case True
    with rest Cons.IH [of s1] frame show ?thesis by simp
  next
    case False
    with rest frame show ?thesis by simp
  qed
qed simp

text \<open>The caches hold what the last \<open>Build\<close> published, which the retained maps record.\<close>

definition mirrored ::
  "('c \<Rightarrow> (string, ('m, ('e, 'x) ClusterLoadAssignment) resource) gomap) \<Rightarrow> ('m, 'e, 'x, 'c) xds_state \<Rightarrow> bool"
where
  "mirrored contents s \<longleftrightarrow> (\<forall>k. contents (cache_of s k) = retained_of s k)"

lemma kinds_run_Ok:
  assumes cache: "linear_cache (UpdateResources api) contents"
  shows "kinds_run api ord ks s (Ok ()) s' \<Longrightarrow> distinct ks \<Longrightarrow>
    \<forall>k \<in> set ks. transact_order (ord k) (staged_of s k) (retained_of s k)
      \<and> contents (cache_of s k) = retained_of s k \<Longrightarrow>
    \<forall>k \<in> set ks. contents (cache_of s' k) = staged_of s k"
proof (induction ks arbitrary: s)
  case (Cons k ks)
  then obtain s1 where step: "kind_step api (ord k) k s (Ok ()) s1" and rest: "kinds_run api ord ks s1 (Ok ()) s'"
    by (auto split: if_splits)
  from step have s1: "staged_of s1 = staged_of s" "\<forall>j. j \<noteq> k \<longrightarrow> cache_of s1 j = cache_of s j \<and> retained_of s1 j = retained_of s j"
    by (simp_all add: kind_step_def)
  have "contents (cache_of s' k) = contents (cache_of s1 k)"
    using kinds_run_frame [OF rest] Cons.prems(2) by simp
  with kind_step_publishes [OF cache step] Cons.prems(3) have "contents (cache_of s' k) = staged_of s k" by simp
  moreover have "\<forall>j \<in> set ks. contents (cache_of s' j) = staged_of s1 j"
    using rest Cons.prems(2,3) s1 by (intro Cons.IH) auto
  ultimately show ?case by (simp add: s1)
qed simp

lemma kinds_run_Err:
  assumes cache: "linear_cache (UpdateResources api) contents"
  shows "kinds_run api ord ks s r s' \<Longrightarrow> r \<noteq> Ok () \<Longrightarrow> distinct ks \<Longrightarrow>
    \<forall>k \<in> set ks. transact_order (ord k) (staged_of s k) (retained_of s k)
      \<and> contents (cache_of s k) = retained_of s k \<Longrightarrow>
    \<exists>before k behind e. ks = before @ k # behind \<and> r = Err e
      \<and> (\<forall>j \<in> set before. contents (cache_of s' j) = staged_of s j)
      \<and> fst (UpdateResources api (cache_of s k) (staged_of s k) (snd (ord k))) = Some e
      \<and> (\<forall>j \<in> set behind. cache_of s' j = cache_of s j)"
proof (induction ks arbitrary: s)
  case (Cons k ks)
  then obtain r1 s1 where step: "kind_step api (ord k) k s r1 s1"
    and rest: "if r1 = Ok () then kinds_run api ord ks s1 r s' else r = r1 \<and> s' = s1"
    by auto
  from step have s1: "staged_of s1 = staged_of s" "\<forall>j. j \<noteq> k \<longrightarrow> cache_of s1 j = cache_of s j \<and> retained_of s1 j = retained_of s j"
    by (simp_all add: kind_step_def)
  show ?case
  proof (cases "r1 = Ok ()")
    case True
    with rest have run: "kinds_run api ord ks s1 r s'" by simp
    moreover have "\<forall>j \<in> set ks. transact_order (ord j) (staged_of s1 j) (retained_of s1 j)
      \<and> contents (cache_of s1 j) = retained_of s1 j"
      using Cons.prems(3,4) s1 by auto
    ultimately obtain before i behind e where IH: "ks = before @ i # behind" "r = Err e"
      "\<forall>j \<in> set before. contents (cache_of s' j) = staged_of s1 j"
      "fst (UpdateResources api (cache_of s1 i) (staged_of s1 i) (snd (ord i))) = Some e"
      "\<forall>j \<in> set behind. cache_of s' j = cache_of s1 j"
      using Cons.IH [of s1] Cons.prems(2,3) by auto
    have "contents (cache_of s' k) = contents (cache_of s1 k)"
      using kinds_run_frame [OF run] Cons.prems(3) by simp
    with kind_step_publishes [OF cache step [unfolded True]] Cons.prems(4)
    have "contents (cache_of s' k) = staged_of s k" by simp
    moreover have "i \<noteq> k" "k \<notin> set behind" using IH(1) Cons.prems(3) by auto
    ultimately show ?thesis using IH s1
      by (intro exI [of _ "k # before"] exI [of _ i] exI [of _ behind] exI [of _ e]) auto
  next
    case False
    with rest step Cons.prems show ?thesis
      by (intro exI [of _ "[]"] exI [of _ k] exI [of _ ks])
         (auto simp: kind_step_def split: prod.splits option.splits)
  qed
qed simp

lemma finish_build_eqs:
  "staged_of (finish_build s) = (\<lambda>_. fmempty)"
  "retained_of (finish_build s) = staged_of s"
  "cache_of (finish_build s) = cache_of s"
  "xds_updates_sent (finish_build s) = Suc (xds_updates_sent s)"
  by (simp_all add: fun_eq_iff all_kinds finish_build_def)

lemma xds_Build_done:
  assumes "xds_Build api ord s = (Ok (), s')"
  shows "staged_of s' = (\<lambda>_. fmempty) \<and> xds_updates_sent s' = Suc (xds_updates_sent s)
    \<and> retained_of s' = staged_of s"
  using xds_Build_run [OF assms] by (auto simp: finish_build_eqs dest: kinds_run_frame)

text \<open>A \<open>Build\<close> that fails keeps everything staged and sends nothing.\<close>

lemma xds_Build_fail:
  assumes "xds_Build api ord s = (r, s')" and "r \<noteq> Ok ()"
  shows "staged_of s' = staged_of s \<and> xds_updates_sent s' = xds_updates_sent s"
  using xds_Build_run [OF assms(1)] assms(2) by (auto dest: kinds_run_frame)

lemma xds_Build_mirrors:
  assumes "linear_cache (UpdateResources api) contents" and "xds_order_ok ord s"
    and "mirrored contents s" and "xds_Build api ord s = (Ok (), s')"
  shows "mirrored contents s' \<and> retained_of s' = staged_of s"
proof -
  obtain t where run: "kinds_run api ord build_sequence s (Ok ()) t" and s': "s' = finish_build t"
    using xds_Build_run [OF assms(4)] by auto
  from kinds_run_Ok [OF assms(1) run] assms(2,3) have "\<forall>k. contents (cache_of t k) = staged_of s k"
    by (simp add: build_sequence_set xds_order_ok_def mirrored_def)
  then show ?thesis using kinds_run_frame [OF run] by (simp add: s' mirrored_def finish_build_eqs)
qed

lemma xds_Build_rejected:
  assumes "linear_cache (UpdateResources api) contents" and "xds_order_ok ord s"
    and "mirrored contents s" and "xds_Build api ord s = (Err e, s')"
  shows "\<exists>before k behind. build_sequence = before @ k # behind
    \<and> (\<forall>j \<in> set before. contents (cache_of s' j) = staged_of s j)
    \<and> fst (UpdateResources api (cache_of s k) (staged_of s k) (snd (ord k))) = Some e
    \<and> (\<forall>j \<in> set behind. cache_of s' j = cache_of s j)"
proof -
  have run: "kinds_run api ord build_sequence s (Err e) s'" using xds_Build_run [OF assms(4)] by auto
  from kinds_run_Err [OF assms(1) run] assms(2,3) show ?thesis
    by (auto simp: build_sequence_set xds_order_ok_def mirrored_def)
qed

subsection \<open>What a read stages\<close>

text \<open>The decoded messages, by kind, as an abstract reader sees them.\<close>

datatype ('m, 'a) decoded =
    DecodedListener 'm
  | DecodedVirtualHost 'm
  | DecodedCluster 'm
  | DecodedRouteConfiguration 'm
  | DecodedAssignment 'a

definition is_xds_resource :: "TfstateResource \<Rightarrow> bool" where
  "is_xds_resource r \<longleftrightarrow> resource_Type r \<in>
     {''cruiser_envoy_listener'', ''cruiser_envoy_virtual_host'', ''cruiser_envoy_cluster'',
      ''cruiser_envoy_route_configuration'', ''cruiser_envoy_cluster_load_assignment''}"

definition decode_xds ::
  "('m, 'e, 'x, 'c) xds_api \<Rightarrow> string \<times> string \<Rightarrow> go_error + ('m, ('e, 'x) ClusterLoadAssignment) decoded"
where
  "decode_xds api d =
     (let (ty, doc) = d in
      if ty = ''cruiser_envoy_listener'' then map_sum id DecodedListener (unmarshal_listener api doc)
      else if ty = ''cruiser_envoy_virtual_host'' then map_sum id DecodedVirtualHost (unmarshal_virtual_host api doc)
      else if ty = ''cruiser_envoy_cluster'' then map_sum id DecodedCluster (unmarshal_cluster api doc)
      else if ty = ''cruiser_envoy_route_configuration'' then
        map_sum id DecodedRouteConfiguration (unmarshal_route_configuration api doc)
      else map_sum id DecodedAssignment (unmarshal_assignment api doc))"

fun store_decoded ::
  "('m, 'e, 'x, 'c) xds_api \<Rightarrow> ('m, ('e, 'x) ClusterLoadAssignment) decoded \<Rightarrow>
   ('m, 'e, 'x, 'c) xds_state \<Rightarrow> ('m, 'e, 'x, 'c) xds_state"
where
  "store_decoded api (DecodedListener m) s = store_listener api m s"
| "store_decoded api (DecodedVirtualHost m) s = store_virtual_host api m s"
| "store_decoded api (DecodedCluster m) s = store_cluster api m s"
| "store_decoded api (DecodedRouteConfiguration m) s = store_route_configuration api m s"
| "store_decoded api (DecodedAssignment a) s = store_assignment api a s"

lemma read_known_instance:
  assumes "is_xds_resource r"
  shows "read_xds_instance api (resource_Type r) (Some i) s =
    (case decode_xds api (resource_Type r, ProtoJson i) of
       Inl e \<Rightarrow> (Err e, s) | Inr m \<Rightarrow> (Ok (), store_decoded api m s))"
  using assms unfolding is_xds_resource_def
  by (auto simp: read_xds_instance_def decode_xds_def read_instance_def decode_document_def split: sum.split)

lemma read_known_instances:
  assumes "is_xds_resource r" and "None \<notin> set is"
  shows "for_each (read_xds_instance api (resource_Type r)) is s =
     for_each (\<lambda>d s. case decode_xds api d of Inl e \<Rightarrow> (Err e, s) | Inr m \<Rightarrow> (Ok (), store_decoded api m s))
       (map (\<lambda>i. (resource_Type r, ProtoJson (the i))) is) s"
proof -
  have "read_xds_instance api (resource_Type r) (id x) s =
    (case decode_xds api (resource_Type r, ProtoJson (the x)) of
       Inl e \<Rightarrow> (Err e, s) | Inr m \<Rightarrow> (Ok (), store_decoded api m s))" if "x \<in> set is" for x s
  proof -
    from that assms(2) obtain i where "x = Some i" by (metis not_None_eq)
    then show ?thesis by (simp add: read_known_instance [OF assms(1)])
  qed
  then have "for_each (read_xds_instance api (resource_Type r)) (map id is) s =
     for_each (\<lambda>d s. case decode_xds api d of Inl e \<Rightarrow> (Err e, s) | Inr m \<Rightarrow> (Ok (), store_decoded api m s))
       (map (\<lambda>i. (resource_Type r, ProtoJson (the i))) is) s"
    by (intro for_each_map_eq) simp
  then show ?thesis by simp
qed

lemma read_unknown_instances:
  "\<not> is_xds_resource r \<Longrightarrow> for_each (read_xds_instance api (resource_Type r)) is s = (Ok (), s)"
  by (induction "is") (auto simp: is_xds_resource_def read_xds_instance_def)

lemma read_xds_documents:
  assumes "pointers_ok is_xds_resource rs"
  shows "for_each (read_xds_resource api) rs s =
    for_each (\<lambda>d s. case decode_xds api d of Inl e \<Rightarrow> (Err e, s) | Inr m \<Rightarrow> (Ok (), store_decoded api m s))
      (documents is_xds_resource rs) s"
  by (rule for_each_documents [OF assms])
     (simp_all add: read_xds_resource_def read_known_instances read_unknown_instances)

text \<open>What reading changes: the staging maps only.\<close>

lemma store_frame:
  "xds_updates_sent (store_decoded api m s) = xds_updates_sent s"
  "retained_of (store_decoded api m s) = retained_of s"
  "cache_of (store_decoded api m s) = cache_of s"
  "endpointsMap (store_decoded api m s) = endpointsMap s"
  by (cases m; simp add: fun_eq_iff all_kinds store_listener_def store_virtual_host_def store_cluster_def
        store_route_configuration_def store_assignment_def Let_def)+

lemma xds_read_keeps:
  assumes store: "\<And>m s. P s \<Longrightarrow> P (store_decoded api m s)" and "P s"
  shows "P (snd (xds_ReadFromTfstate api t s))"
proof -
  have stores: "P s \<Longrightarrow> P (store_listener api m s)" "P s \<Longrightarrow> P (store_virtual_host api m s)"
    "P s \<Longrightarrow> P (store_cluster api m s)" "P s \<Longrightarrow> P (store_route_configuration api m s)"
    "P s \<Longrightarrow> P (store_assignment api a s)" for m a s
    using store [of s "DecodedListener m"] store [of s "DecodedVirtualHost m"] store [of s "DecodedCluster m"]
      store [of s "DecodedRouteConfiguration m"] store [of s "DecodedAssignment a"] by simp_all
  note keeps = read_instance_keeps [where P = P, OF stores(1)] read_instance_keeps [where P = P, OF stores(2)]
    read_instance_keeps [where P = P, OF stores(3)] read_instance_keeps [where P = P, OF stores(4)]
    read_instance_keeps [where P = P, OF stores(5)]
  have inst: "P (snd (read_xds_instance api ty i s))" if "P s" for ty i s
    unfolding read_xds_instance_def using that by (simp add: keeps)
  have res: "P (snd (read_xds_resource api res s))" if "P s" for res s
    using that for_each_invariant [where P = P, OF inst] by (cases res) (simp_all add: read_xds_resource_def)
  show ?thesis
    using \<open>P s\<close> for_each_invariant [where P = P, OF res] by (cases t) (simp_all add: xds_ReadFromTfstate_def)
qed

lemma xds_read_frame:
  "xds_updates_sent (snd (xds_ReadFromTfstate api t s)) = xds_updates_sent s"
  "retained_of (snd (xds_ReadFromTfstate api t s)) = retained_of s"
  "cache_of (snd (xds_ReadFromTfstate api t s)) = cache_of s"
  "endpointsMap (snd (xds_ReadFromTfstate api t s)) = endpointsMap s"
proof -
  define P where "P u \<longleftrightarrow> xds_updates_sent u = xds_updates_sent s \<and> retained_of u = retained_of s
    \<and> cache_of u = cache_of s \<and> endpointsMap u = endpointsMap s" for u
  have "P (snd (xds_ReadFromTfstate api t s))"
    by (rule xds_read_keeps) (simp_all add: P_def store_frame)
  then show "xds_updates_sent (snd (xds_ReadFromTfstate api t s)) = xds_updates_sent s"
    "retained_of (snd (xds_ReadFromTfstate api t s)) = retained_of s"
    "cache_of (snd (xds_ReadFromTfstate api t s)) = cache_of s"
    "endpointsMap (snd (xds_ReadFromTfstate api t s)) = endpointsMap s"
    by (simp_all add: P_def)
qed

subsection \<open>The xDS state as a manager\<close>

interpretation xds_manager: manager "\<lambda>_. True" staged_of "\<lambda>_. fmempty" xds_updates_sent
    "xds_ReadFromTfstate api" xds_order_ok "xds_Build api"
  for api :: "('m, 'e, 'x, 'c) xds_api"
  by unfold_locales (auto simp: xds_read_frame xds_order_exists dest: xds_Build_done xds_Build_fail)

subsection \<open>The states a synchronisation reaches\<close>

lemma SetClusterEndpoints_frame:
  "retained_of (SetClusterEndpoints as s) = retained_of s"
  "cache_of (SetClusterEndpoints as s) = cache_of s"
  "staged_of (SetClusterEndpoints as s) = staged_of s"
  "xds_updates_sent (SetClusterEndpoints as s) = xds_updates_sent s"
  by (induction as s rule: SetClusterEndpoints.induct) (simp_all add: fun_eq_iff all_kinds)

text \<open>A \<open>Build\<close> that fails ends the synchronisation, so only those that succeed lead on.\<close>

inductive xds_reach ::
  "('m, 'e, 'x, 'c) xds_api \<Rightarrow> ('m, 'e, 'x, 'c) xds_state \<Rightarrow> ('m, 'e, 'x, 'c) xds_state \<Rightarrow> bool"
  for api :: "('m, 'e, 'x, 'c) xds_api"
where
  xds_refl: "xds_reach api s s"
| xds_read: "xds_reach api s t \<Longrightarrow> xds_reach api s (snd (xds_ReadFromTfstate api tf t))"
| xds_set: "xds_reach api s t \<Longrightarrow> xds_reach api s (SetClusterEndpoints as t)"
| xds_build: "xds_reach api s t \<Longrightarrow> xds_order_ok ord t \<Longrightarrow> xds_Build api ord t = (Ok (), u) \<Longrightarrow>
     xds_reach api s u"

lemma xds_reach_mirrored:
  "xds_reach api s t \<Longrightarrow> linear_cache (UpdateResources api) contents \<Longrightarrow> mirrored contents s \<Longrightarrow>
     mirrored contents t"
proof (induction rule: xds_reach.induct)
  case (xds_build s t ord u)
  then show ?case by (blast dest: xds_Build_mirrors)
qed (simp_all add: mirrored_def xds_read_frame SetClusterEndpoints_frame)

lemma mirrored_init: "(\<And>k. contents (cache0 k) = fmempty) \<Longrightarrow> mirrored contents (NewXdsState cache0)"
  unfolding mirrored_def all_kinds by (simp add: NewXdsState_def)

fun url_of :: "type_urls \<Rightarrow> xds_kind \<Rightarrow> string" where
  "url_of urls Listeners = ListenerType urls"
| "url_of urls VirtualHosts = VirtualHostType urls"
| "url_of urls RouteConfigurations = RouteType urls"
| "url_of urls Clusters = ClusterType urls"
| "url_of urls ClusterLoadAssignments = EndpointType urls"

lemma mux_lookup:
  assumes "inj (url_of urls)"
  shows "fmlookup (mux_caches urls s) (url_of urls k) = Some (cache_of s k)"
proof -
  have "url_of urls k = url_of urls k' \<longleftrightarrow> k = k'" for k k' using assms by (simp add: inj_eq)
  from this [of k Listeners] this [of k VirtualHosts] this [of k RouteConfigurations] this [of k Clusters]
    this [of k ClusterLoadAssignments]
  show ?thesis by (cases k) (simp_all add: mux_caches_def fmlookup_of_list)
qed

text \<open>
  There is no cache for the types of two of the services, secrets and runtime layers, so their requests
  are never answered.
\<close>

lemma type_without_cache:
  assumes "url \<notin> range (url_of urls)" and "(srv, caches) \<in> set (Register urls s)"
  shows "fmlookup caches url = None"
proof -
  have "url_of urls k \<noteq> url" for k using assms(1) by blast
  from this [of Listeners] this [of VirtualHosts] this [of RouteConfigurations] this [of Clusters]
    this [of ClusterLoadAssignments]
  have "fmlookup (mux_caches urls s) url = None" by (simp add: mux_caches_def fmlookup_of_list)
  with assms(2) show ?thesis by (auto simp: Register_def)
qed

subsection \<open>Properties\<close>

text \<open>
  For the witnesses: messages are their own names, a document decodes to itself unless it is
  \<open>?\<close>, and a cache is a map that rejects the name \<open>bad\<close>.
\<close>

type_synonym sample_resource = "(string, (nat, unit) ClusterLoadAssignment) resource"
type_synonym sample_cache = "(string, sample_resource) gomap"

definition sample_update :: "sample_cache \<Rightarrow> sample_cache \<Rightarrow> string list \<Rightarrow> go_error option \<times> sample_cache" where
  "sample_update c u d =
     (if fmlookup u ''bad'' \<noteq> None then (Some (Foreign ''rejected''), c)
      else (None, fmdrop_set (set d) (c ++\<^sub>f u)))"

definition sample_decode :: "string \<Rightarrow> go_error + string" where
  "sample_decode doc = (if doc = ''?'' then Inl (Foreign ''bad json'') else Inr doc)"

definition sample_api :: "(string, nat, unit, sample_cache) xds_api" where
  "sample_api =
     \<lparr>unmarshal_listener = sample_decode, unmarshal_virtual_host = sample_decode,
      unmarshal_cluster = sample_decode, unmarshal_route_configuration = sample_decode,
      unmarshal_assignment = (\<lambda>doc. Inr \<lparr>ClusterName = doc, Endpoints = [0], other_fields = ()\<rparr>),
      GetResourceName = (\<lambda>r. case r of Message m \<Rightarrow> m | Assignment a \<Rightarrow> ClusterName a),
      UpdateResources = sample_update\<rparr>"

definition sample_resources :: "(string \<times> string) list \<Rightarrow> Tfstate" where
  "sample_resources ds = \<lparr>Resources = map (\<lambda>(ty, doc).
     Some \<lparr>resource_Type = ty, resource_Name = [], resource_Mode = [], resource_Provider = [],
       Instances = [Some \<lparr>ProtoJson = doc\<rparr>]\<rparr>) ds\<rparr>"

lemma sample_linear_cache: "linear_cache (UpdateResources sample_api) id"
  by (auto simp: linear_cache_def sample_api_def sample_update_def split: if_splits)

text \<open>
  The error of a document of a resource of an xDS type: that of \<^verbatim>\<open>protojson.Unmarshal\<close> at the message type
  of the resource.
\<close>

definition document_error :: "('m, 'e, 'x, 'c) xds_api \<Rightarrow> string \<times> string \<Rightarrow> go_error option" where
  "document_error api d =
     (if fst d = ''cruiser_envoy_listener'' then case_sum Some (\<lambda>_. None) (unmarshal_listener api (snd d))
      else if fst d = ''cruiser_envoy_virtual_host'' then case_sum Some (\<lambda>_. None) (unmarshal_virtual_host api (snd d))
      else if fst d = ''cruiser_envoy_cluster'' then case_sum Some (\<lambda>_. None) (unmarshal_cluster api (snd d))
      else if fst d = ''cruiser_envoy_route_configuration'' then
        case_sum Some (\<lambda>_. None) (unmarshal_route_configuration api (snd d))
      else case_sum Some (\<lambda>_. None) (unmarshal_assignment api (snd d)))"

lemma document_error_decode:
  "document_error api d = case_sum Some (\<lambda>_. None) (decode_xds api d)"
  by (cases d) (simp add: document_error_def decode_xds_def split: sum.split)

lemma decode_all_documents:
  "decode_all (decode_xds api) docs =
     ((case dropWhile (\<lambda>d. document_error api d = None) docs of [] \<Rightarrow> Ok () | d # _ \<Rightarrow> Err (the (document_error api d))),
      map (\<lambda>d. projr (decode_xds api d)) (takeWhile (\<lambda>d. document_error api d = None) docs))"
  by (induction docs) (simp_all add: document_error_decode split: sum.split)

lemmas stores = store_listener_def store_virtual_host_def store_cluster_def store_route_configuration_def
  store_assignment_def

text \<open>Storing decoded documents, seen from each of the five maps.\<close>

lemma decode_xds_ok:
  assumes "is_xds_resource r" and "resource_Type r = fst d" and "document_error api d = None"
  obtains
    (listener) m where "fst d = ''cruiser_envoy_listener''" "unmarshal_listener api (snd d) = Inr m"
      "decode_xds api d = Inr (DecodedListener m)"
  | (virtual_host) m where "fst d = ''cruiser_envoy_virtual_host''" "unmarshal_virtual_host api (snd d) = Inr m"
      "decode_xds api d = Inr (DecodedVirtualHost m)"
  | (cluster) m where "fst d = ''cruiser_envoy_cluster''" "unmarshal_cluster api (snd d) = Inr m"
      "decode_xds api d = Inr (DecodedCluster m)"
  | (route_configuration) m where "fst d = ''cruiser_envoy_route_configuration''"
      "unmarshal_route_configuration api (snd d) = Inr m" "decode_xds api d = Inr (DecodedRouteConfiguration m)"
  | (assignment) a where "fst d = ''cruiser_envoy_cluster_load_assignment''" "unmarshal_assignment api (snd d) = Inr a"
      "decode_xds api d = Inr (DecodedAssignment a)"
proof -
  have "fst d \<in> {''cruiser_envoy_listener'', ''cruiser_envoy_virtual_host'', ''cruiser_envoy_cluster'',
      ''cruiser_envoy_route_configuration'', ''cruiser_envoy_cluster_load_assignment''}"
    using assms(1,2) by (simp add: is_xds_resource_def)
  then consider "fst d = ''cruiser_envoy_listener''" | "fst d = ''cruiser_envoy_virtual_host''"
    | "fst d = ''cruiser_envoy_cluster''" | "fst d = ''cruiser_envoy_route_configuration''"
    | "fst d = ''cruiser_envoy_cluster_load_assignment''" by blast
  then show thesis
  proof cases
    case 1
    with assms(3) show thesis
      by (cases "unmarshal_listener api (snd d)") (auto simp: document_error_def decode_xds_def split_beta intro: listener)
  next
    case 2
    with assms(3) show thesis
      by (cases "unmarshal_virtual_host api (snd d)") (auto simp: document_error_def decode_xds_def split_beta intro: virtual_host)
  next
    case 3
    with assms(3) show thesis
      by (cases "unmarshal_cluster api (snd d)") (auto simp: document_error_def decode_xds_def split_beta intro: cluster)
  next
    case 4
    with assms(3) show thesis
      by (cases "unmarshal_route_configuration api (snd d)")
        (auto simp: document_error_def decode_xds_def split_beta intro: route_configuration)
  next
    case 5
    with assms(3) show thesis
      by (cases "unmarshal_assignment api (snd d)") (auto simp: document_error_def decode_xds_def split_beta intro: assignment)
  qed
qed

definition readable :: "('m, 'e, 'x, 'c) xds_api \<Rightarrow> (string \<times> string) list \<Rightarrow> bool" where
  "readable api docs \<longleftrightarrow> (\<forall>d \<in> set docs. document_error api d = None \<and> (\<exists>r. is_xds_resource r \<and> resource_Type r = fst d))"

lemma readable_Cons [simp]:
  "readable api (d # docs) \<longleftrightarrow>
     document_error api d = None \<and> (\<exists>r. is_xds_resource r \<and> resource_Type r = fst d) \<and> readable api docs"
  by (auto simp: readable_def)

abbreviation store_docs where
  "store_docs api docs s \<equiv> fold (store_decoded api) (map (\<lambda>d. projr (decode_xds api d)) docs) s"

lemma store_docs_messages:
  assumes "readable api docs"
  shows "fmlookup (listenersMap (store_docs api docs s)) n =
      (case last_named (\<lambda>m. GetResourceName api (Message m))
         (messages (unmarshal_listener api) ''cruiser_envoy_listener'' docs) n of
         Some m \<Rightarrow> Some m | None \<Rightarrow> fmlookup (listenersMap s) n)
    \<and> fmlookup (virtualHostsMap (store_docs api docs s)) n =
      (case last_named (\<lambda>m. GetResourceName api (Message m))
         (messages (unmarshal_virtual_host api) ''cruiser_envoy_virtual_host'' docs) n of
         Some m \<Rightarrow> Some m | None \<Rightarrow> fmlookup (virtualHostsMap s) n)
    \<and> fmlookup (clustersMap (store_docs api docs s)) n =
      (case last_named (\<lambda>m. GetResourceName api (Message m))
         (messages (unmarshal_cluster api) ''cruiser_envoy_cluster'' docs) n of
         Some m \<Rightarrow> Some m | None \<Rightarrow> fmlookup (clustersMap s) n)
    \<and> fmlookup (routeConfigurationsMap (store_docs api docs s)) n =
      (case last_named (\<lambda>m. GetResourceName api (Message m))
         (messages (unmarshal_route_configuration api) ''cruiser_envoy_route_configuration'' docs) n of
         Some m \<Rightarrow> Some m | None \<Rightarrow> fmlookup (routeConfigurationsMap s) n)
    \<and> fmlookup (clusterLoadAssignmentsMap (store_docs api docs s)) n =
      (case last_named (\<lambda>a. GetResourceName api (Assignment a))
         (messages (unmarshal_assignment api) ''cruiser_envoy_cluster_load_assignment'' docs) n of
         Some a \<Rightarrow> Some (case fmlookup (endpointsMap s) n of None \<Rightarrow> a | Some es \<Rightarrow> a\<lparr>Endpoints := es\<rparr>)
       | None \<Rightarrow> fmlookup (clusterLoadAssignmentsMap s) n)"
  using assms
proof (induction docs arbitrary: s)
  case (Cons d docs)
  from Cons.prems have rest: "readable api docs" by simp
  from Cons.prems obtain r where r: "is_xds_resource r" "resource_Type r = fst d" and ok: "document_error api d = None"
    by auto
  from r ok show ?case
    by (rule decode_xds_ok) (simp_all add: Cons.IH [OF rest] stores Let_def split: option.split)
qed simp

lemma store_docs_frame:
  "endpointsMap (store_docs api docs s) = endpointsMap s \<and> retained_of (store_docs api docs s) = retained_of s
   \<and> cache_of (store_docs api docs s) = cache_of s \<and> xds_updates_sent (store_docs api docs s) = xds_updates_sent s"
  by (induction docs arbitrary: s) (simp_all add: store_frame)

text \<open>
  C39. What reading a Terraform state without nil elements stages. The documents of its resources of the
  five xDS types are decoded in order, each at the message type of its resource; the first that does not
  decode ends the read with its error. After the documents before it, each of the five maps holds, under
  every name, the last message of its own type with that resource name, and what was staged before where
  there is none; a load assignment under a name with known endpoints has these instead of its own.
  Nothing else changes, and a resource of any other type is skipped, even one with nil instances.
\<close>

theorem xds_read_stages:
  assumes "pointers_ok is_xds_resource (Resources t)"
    and "docs = takeWhile (\<lambda>d. document_error api d = None) (documents is_xds_resource (Resources t))"
    and "xds_ReadFromTfstate api (Some t) s = (r, s')"
  shows "r = (case dropWhile (\<lambda>d. document_error api d = None) (documents is_xds_resource (Resources t)) of
           [] \<Rightarrow> Ok () | d # _ \<Rightarrow> Err (the (document_error api d)))
    \<and> fmlookup (listenersMap s') n =
        (case last_named (\<lambda>m. GetResourceName api (Message m))
           (messages (unmarshal_listener api) ''cruiser_envoy_listener'' docs) n of
           Some m \<Rightarrow> Some m | None \<Rightarrow> fmlookup (listenersMap s) n)
    \<and> fmlookup (virtualHostsMap s') n =
        (case last_named (\<lambda>m. GetResourceName api (Message m))
           (messages (unmarshal_virtual_host api) ''cruiser_envoy_virtual_host'' docs) n of
           Some m \<Rightarrow> Some m | None \<Rightarrow> fmlookup (virtualHostsMap s) n)
    \<and> fmlookup (clustersMap s') n =
        (case last_named (\<lambda>m. GetResourceName api (Message m))
           (messages (unmarshal_cluster api) ''cruiser_envoy_cluster'' docs) n of
           Some m \<Rightarrow> Some m | None \<Rightarrow> fmlookup (clustersMap s) n)
    \<and> fmlookup (routeConfigurationsMap s') n =
        (case last_named (\<lambda>m. GetResourceName api (Message m))
           (messages (unmarshal_route_configuration api) ''cruiser_envoy_route_configuration'' docs) n of
           Some m \<Rightarrow> Some m | None \<Rightarrow> fmlookup (routeConfigurationsMap s) n)
    \<and> fmlookup (clusterLoadAssignmentsMap s') n =
        (case last_named (\<lambda>a. GetResourceName api (Assignment a))
           (messages (unmarshal_assignment api) ''cruiser_envoy_cluster_load_assignment'' docs) n of
           Some a \<Rightarrow> Some (case fmlookup (endpointsMap s) n of None \<Rightarrow> a | Some es \<Rightarrow> a\<lparr>Endpoints := es\<rparr>)
         | None \<Rightarrow> fmlookup (clusterLoadAssignmentsMap s) n)
    \<and> endpointsMap s' = endpointsMap s \<and> retained_of s' = retained_of s \<and> cache_of s' = cache_of s
    \<and> xds_updates_sent s' = xds_updates_sent s"
proof -
  let ?all = "documents is_xds_resource (Resources t)"
  have "xds_ReadFromTfstate api (Some t) s =
      (fst (decode_all (decode_xds api) ?all), fold (store_decoded api) (snd (decode_all (decode_xds api) ?all)) s)"
    unfolding xds_ReadFromTfstate_def option.case read_xds_documents [OF assms(1)] by (rule for_each_decode) simp
  with assms(3) have r: "r = fst (decode_all (decode_xds api) ?all)" and s': "s' = store_docs api docs s"
    unfolding assms(2) by (simp_all add: decode_all_documents)
  have "readable api docs"
    unfolding assms(2) readable_def by (auto dest: set_takeWhileD documents_wanted)
  from store_docs_messages [OF this, of s n] store_docs_frame [of api docs s] show ?thesis
    unfolding r s' decode_all_documents fst_conv by simp
qed

definition sample_xds :: "(string, nat, unit, sample_cache) xds_state" where
  "sample_xds = NewXdsState (\<lambda>_. fmempty)"

theorem xds_read_stages_witness:
  "fmlookup (clustersMap (snd (xds_ReadFromTfstate sample_api
      (Some (sample_resources [(''aws_instance'', ''i''), (''cruiser_envoy_cluster'', ''c''),
         (''cruiser_envoy_listener'', ''?''), (''cruiser_envoy_cluster'', ''d'')])) sample_xds))) ''c'' = Some ''c''"
proof -
  let ?t = "sample_resources [(''aws_instance'', ''i''), (''cruiser_envoy_cluster'', ''c''),
         (''cruiser_envoy_listener'', ''?''), (''cruiser_envoy_cluster'', ''d'')]"
  have "pointers_ok is_xds_resource (Resources ?t)"
    by (simp add: sample_resources_def)
  from xds_read_stages [OF this refl prod.collapse [symmetric], of sample_api sample_xds "''c''"] show ?thesis
    by (simp add: sample_resources_def is_xds_resource_def document_error_def sample_api_def sample_decode_def)
qed

text \<open>
  When endpoints are set for a cluster name, every load assignment that later reads stage under
  that name carries exactly those endpoints, whatever its document says.
\<close>

theorem assignment_endpoints_overridden:
  assumes "fmlookup (endpointsMap s) n = Some es" and "clusterLoadAssignmentsMap s = fmempty"
    and "fmlookup (clusterLoadAssignmentsMap (snd (for_each (xds_ReadFromTfstate api) ts s))) n = Some a"
  shows "Endpoints a = es"
proof -
  define P where "P u \<longleftrightarrow> fmlookup (endpointsMap u) n = Some es
    \<and> (\<forall>a. fmlookup (clusterLoadAssignmentsMap u) n = Some a \<longrightarrow> Endpoints a = es)"
    for u :: "('b, 'a, 'c, 'd) xds_state"
  have "P (store_decoded api m u)" if "P u" for m u
    using that by (cases m) (auto simp: P_def store_listener_def store_virtual_host_def store_cluster_def
        store_route_configuration_def store_assignment_def Let_def split: option.splits)
  then have "P (snd (xds_ReadFromTfstate api t u))" if "P u" for t u
    using that by (rule xds_read_keeps)
  moreover have "P s" using assms(1,2) by (simp add: P_def)
  ultimately have "P (snd (for_each (xds_ReadFromTfstate api) ts s))"
    by (intro for_each_invariant [where P = P])
  with assms(3) show ?thesis by (simp add: P_def)
qed

theorem assignment_endpoints_overridden_witness:
  "Endpoints (the (fmlookup (clusterLoadAssignmentsMap (snd (for_each (xds_ReadFromTfstate sample_api)
      [Some (sample_resources [(''cruiser_envoy_cluster_load_assignment'', ''c'')])]
      (SetClusterEndpoints [\<lparr>ClusterName = ''c'', Endpoints = [7], other_fields = ()\<rparr>] sample_xds)))) ''c'')) = [7]"
  by (rule assignment_endpoints_overridden
      [where s = "SetClusterEndpoints [\<lparr>ClusterName = ''c'', Endpoints = [7], other_fields = ()\<rparr>] sample_xds"
        and n = "''c''" and api = sample_api
        and ts = "[Some (sample_resources [(''cruiser_envoy_cluster_load_assignment'', ''c'')])]"])
     (simp_all add: sample_xds_def NewXdsState_def xds_ReadFromTfstate_def sample_resources_def
        read_xds_resource_def read_xds_instance_def read_instance_def decode_document_def sample_api_def
        store_assignment_def Let_def)

text \<open>
  \<open>SetClusterEndpoints\<close> processes its assignments only up to the first one without endpoints: it
  deletes that cluster's endpoints and returns, and the assignments behind it have no effect.
\<close>

theorem SetClusterEndpoints_stops:
  assumes "\<forall>a \<in> set as. Endpoints a \<noteq> []" and "Endpoints b = []"
  shows "SetClusterEndpoints (as @ b # cs) s =
     s\<lparr>endpointsMap := fmdrop (ClusterName b)
         (fold (\<lambda>a. fmupd (ClusterName a) (Endpoints a)) as (endpointsMap s))\<rparr>"
  using assms by (induction as arbitrary: s) simp_all

theorem SetClusterEndpoints_stops_witness:
  "endpointsMap (SetClusterEndpoints [\<lparr>ClusterName = ''a'', Endpoints = [1], other_fields = ()\<rparr>,
      \<lparr>ClusterName = ''b'', Endpoints = [], other_fields = ()\<rparr>,
      \<lparr>ClusterName = ''c'', Endpoints = [2], other_fields = ()\<rparr>] sample_xds) = fmupd ''a'' [1] fmempty"
proof -
  have "fmdrop ''b'' (fmupd ''a'' [1::nat] fmempty) = fmupd ''a'' [1] fmempty"
    by (rule fmap_ext) simp
  then show ?thesis
    using SetClusterEndpoints_stops [of "[\<lparr>ClusterName = ''a'', Endpoints = [1], other_fields = ()\<rparr>]"
        "\<lparr>ClusterName = ''b'', Endpoints = [], other_fields = ()\<rparr>"
        "[\<lparr>ClusterName = ''c'', Endpoints = [2], other_fields = ()\<rparr>]" sample_xds]
    by (simp add: sample_xds_def NewXdsState_def)
qed

text \<open>
  C3. After every successful \<open>Build\<close> in a run of the xDS state, in whatever order the map loops ran,
  the cache that answers the requests of each type URL holds exactly the resources of that type that
  were staged since the last \<open>Build\<close>: new and changed ones are served, and one that is no longer
  staged is gone.
\<close>

theorem xds_Build_serves_staged:
  assumes "linear_cache (UpdateResources api) contents" and "\<And>k. contents (cache0 k) = fmempty"
    and "xds_reach api (NewXdsState cache0) s" and "xds_order_ok ord s"
    and "xds_Build api ord s = (Ok (), s')" and "inj (url_of urls)"
  shows "map_option contents (fmlookup (mux_caches urls s') (url_of urls k)) = Some (staged_of s k)"
proof -
  have "mirrored contents s"
    using xds_reach_mirrored [OF assms(3,1)] mirrored_init assms(2) by blast
  with xds_Build_mirrors [OF assms(1,4) _ assms(5)] have "contents (cache_of s' k) = staged_of s k"
    by (simp add: mirrored_def)
  then show ?thesis by (simp add: mux_lookup [OF assms(6)])
qed

abbreviation sample_urls :: type_urls where
  "sample_urls \<equiv> \<lparr>ListenerType = ''lds'', RouteType = ''rds'', ClusterType = ''cds'', VirtualHostType = ''vhds'',
     EndpointType = ''eds''\<rparr>"

definition sample_listed :: "(string, nat, unit, sample_cache) xds_state" where
  "sample_listed = snd (xds_ReadFromTfstate sample_api
     (Some (sample_resources [(''cruiser_envoy_listener'', ''l'')])) sample_xds)"

lemma sample_listed_eq: "sample_listed = sample_xds\<lparr>listenersMap := fmupd ''l'' ''l'' fmempty\<rparr>"
  by (simp add: sample_listed_def xds_ReadFromTfstate_def sample_resources_def read_xds_resource_def
      read_xds_instance_def read_instance_def decode_document_def sample_api_def sample_decode_def
      store_listener_def sample_xds_def NewXdsState_def)

definition sample_order :: xds_order where
  "sample_order k = (if k = Listeners then [''l''] else [], [])"

lemma sample_order_ok: "xds_order_ok sample_order sample_listed"
  unfolding xds_order_ok_def all_kinds by (simp add: transact_order_def sample_order_def sample_listed_eq sample_xds_def
      NewXdsState_def) (simp add: enumerates_def)

lemma sample_xds_Build: "fst (xds_Build sample_api sample_order sample_listed) = Ok ()"
  by (simp add: xds_Build_def transact_clusters_def transact_assignments_def transact_listeners_def
      transact_virtual_hosts_def transact_route_configurations_def transactXdsResource_def sample_order_def
      sample_listed_eq sample_xds_def NewXdsState_def sample_api_def sample_update_def)

theorem xds_Build_serves_staged_witness:
  "map_option id (fmlookup (mux_caches sample_urls (snd (xds_Build sample_api sample_order sample_listed))) ''lds'')
   = Some (fmupd ''l'' (Message ''l'') fmempty)"
proof -
  have reach: "xds_reach sample_api (NewXdsState (\<lambda>_. fmempty)) sample_listed"
    unfolding sample_listed_def sample_xds_def by (intro xds_read xds_refl)
  have urls: "inj (url_of sample_urls)"
    unfolding inj_def all_kinds by simp
  have "xds_Build sample_api sample_order sample_listed
      = (Ok (), snd (xds_Build sample_api sample_order sample_listed))"
    using sample_xds_Build by (metis prod.collapse)
  from xds_Build_serves_staged [OF sample_linear_cache _ reach sample_order_ok this urls, of Listeners]
  have "map_option id (fmlookup (mux_caches sample_urls (snd (xds_Build sample_api sample_order sample_listed))) ''lds'')
    = Some (staged_of sample_listed Listeners)" by simp
  moreover have "fmmap Message (fmupd ''l'' ''l'' fmempty) = fmupd ''l'' (Message ''l'') fmempty"
    by (rule fmap_ext) simp
  ultimately show ?thesis by (simp add: sample_listed_eq)
qed

definition sample_bad :: "(string, nat, unit, sample_cache) xds_state" where
  "sample_bad = sample_xds\<lparr>listenersMap := fmupd ''bad'' ''bad'' fmempty,
     virtualHostsMap := fmupd ''v'' ''v'' fmempty\<rparr>"

definition sample_order_bad :: xds_order where
  "sample_order_bad k =
     (case k of Listeners \<Rightarrow> ([''bad''], []) | VirtualHosts \<Rightarrow> ([''v''], []) | _ \<Rightarrow> ([], []))"

text \<open>
  C34. When a cache rejects its update, \<open>Build\<close> returns that error with the caches in front of it in
  the order clusters, load assignments, listeners, virtual hosts, route configurations already
  holding their staged resources, the caches behind it untouched, everything still staged and no
  update sent.
\<close>

theorem xds_Build_error_prefix:
  assumes "linear_cache (UpdateResources api) contents" and "xds_order_ok ord s"
    and "mirrored contents s" and "xds_Build api ord s = (Err e, s')"
  shows "staged_of s' = staged_of s \<and> xds_updates_sent s' = xds_updates_sent s
    \<and> (\<exists>before k behind. build_sequence = before @ k # behind
        \<and> (\<forall>j \<in> set before. contents (cache_of s' j) = staged_of s j)
        \<and> fst (UpdateResources api (cache_of s k) (staged_of s k) (snd (ord k))) = Some e
        \<and> (\<forall>j \<in> set behind. cache_of s' j = cache_of s j))"
  using xds_Build_fail [OF assms(4)] xds_Build_rejected [OF assms] by simp

theorem xds_Build_error_prefix_witness:
  "\<exists>before k behind. build_sequence = before @ k # behind
     \<and> (\<forall>j \<in> set before. id (cache_of (snd (xds_Build sample_api sample_order_bad sample_bad)) j) = staged_of sample_bad j)
     \<and> fst (UpdateResources sample_api (cache_of sample_bad k) (staged_of sample_bad k) (snd (sample_order_bad k)))
         = Some (Foreign ''rejected'')
     \<and> (\<forall>j \<in> set behind. cache_of (snd (xds_Build sample_api sample_order_bad sample_bad)) j = cache_of sample_bad j)"
proof -
  have "xds_Build sample_api sample_order_bad sample_bad
      = (Err (Foreign ''rejected''), snd (xds_Build sample_api sample_order_bad sample_bad))"
    by (simp add: xds_Build_def transact_clusters_def transact_assignments_def transact_listeners_def
      transact_virtual_hosts_def transact_route_configurations_def transactXdsResource_def sample_order_bad_def
      sample_bad_def sample_xds_def NewXdsState_def sample_api_def sample_update_def)
  moreover have "xds_order_ok sample_order_bad sample_bad"
    unfolding xds_order_ok_def all_kinds by (simp add: transact_order_def sample_order_bad_def sample_bad_def sample_xds_def
      NewXdsState_def) (simp add: enumerates_def)
  moreover have "mirrored id sample_bad"
    unfolding mirrored_def all_kinds by (simp add: sample_bad_def sample_xds_def NewXdsState_def)
  ultimately show ?thesis
    using xds_Build_error_prefix [OF sample_linear_cache, of sample_order_bad sample_bad] by blast
qed

end
