(* ===== verification/S3_Source.thy ===== *)
theory S3_Source
  imports Tfstate_Source
begin

section \<open>The S3 source of Terraform states (\<^verbatim>\<open>pkg/providers/aws/s3\<close>)\<close>

text \<open>
  \<open>GetTfstate\<close> lists a bucket, downloads the states whose entity tag changed, and remembers them.
  The AWS SDK is outside the repository: the results of its calls in one round are an argument. A
  page carries what \<^verbatim>\<open>NextPage\<close> returns (the code reads only the field \<open>Name\<close> of the output, a
  pointer) and what \<^verbatim>\<open>HeadObject\<close> and \<^verbatim>\<open>Download\<close> return when the code calls them for that page;
  \<open>Download\<close> maps the buffer it is given to the bytes it holds afterwards. \<open>unmarshal\<close> is
  \<^verbatim>\<open>json.Unmarshal\<close> into a new \<open>Tfstate\<close>.
\<close>

subsection \<open>Data and operations\<close>

record head_output =
  ETag :: "string option"
  ContentLength :: int

record s3_page =
  NextPage :: "go_error + string option"
  HeadObject :: "go_error + head_output"
  Download :: "string \<Rightarrow> go_error + string"

record tfstateObject =
  tfstate :: "Tfstate option"
  etag :: string

text \<open>
  The client factories that the commands give to the source: the client of the provider, or a new client
  for the credentials of an assumed role.
\<close>

datatype s3ClientFactory = GetS3Client | S3ClientWithRole string

record s3_source =
  s3Client :: "s3ClientFactory option"
  bucket :: string
  tfstateObjects :: "(string, tfstateObject) gomap"

datatype source_option = WithTfstateBucket string | WithS3ClientFactory s3ClientFactory

fun apply_source_option :: "source_option \<Rightarrow> s3_source \<Rightarrow> s3_source" where
  "apply_source_option (WithTfstateBucket bucketName) t = t\<lparr>bucket := bucketName\<rparr>"
| "apply_source_option (WithS3ClientFactory factory) t = t\<lparr>s3Client := Some factory\<rparr>"

definition tfstate_source :: "source_option list \<Rightarrow> s3_source" where
  "tfstate_source opts = fold apply_source_option opts \<lparr>s3Client = None, bucket = [], tfstateObjects = fmempty\<rparr>"

text \<open>The source as the commands construct it.\<close>

definition NewTfstateSource :: "s3ClientFactory \<Rightarrow> string \<Rightarrow> s3_source" where
  "NewTfstateSource factory bucketName = \<lparr>s3Client = Some factory, bucket = bucketName, tfstateObjects = fmempty\<rparr>"

lemma tfstate_source_eq [simp]:
  "tfstate_source [WithS3ClientFactory factory, WithTfstateBucket bucketName] = NewTfstateSource factory bucketName"
  by (simp add: tfstate_source_def NewTfstateSource_def)

text \<open>\<^verbatim>\<open>aws.ToString\<close> gives the empty string for a nil pointer.\<close>

definition ToString :: "string option \<Rightarrow> string" where
  "ToString p = (case p of None \<Rightarrow> [] | Some s \<Rightarrow> s)"

lemma ToString_simps [simp]: "ToString None = []" "ToString (Some s) = s"
  by (simp_all add: ToString_def)

definition HasSuffix :: "string \<Rightarrow> string \<Rightarrow> bool" where
  "HasSuffix s suffix \<longleftrightarrow> length s \<ge> length suffix \<and> drop (length s - length suffix) s = suffix"

text \<open>The variables of \<open>GetTfstate\<close> that its loop over the pages assigns, with the remembered objects.\<close>

record scan =
  tfstates :: "Tfstate option list"
  existingObjects :: "string list"
  needUpdate :: bool
  objects :: "(string, tfstateObject) gomap"

text \<open>The download of one object: the new state, or the error or panic that ends the scan.\<close>

definition fetch_object :: "(string \<Rightarrow> go_error + Tfstate) \<Rightarrow> s3_page \<Rightarrow> head_output \<Rightarrow> Tfstate outcome" where
  "fetch_object unmarshal page head =
     (if ContentLength head < 0 then Panic MakeSliceLen
      else
        (case Download page (replicate (nat (ContentLength head)) (CHR 0x00)) of
           Inl e \<Rightarrow> Err e
         | Inr bytes \<Rightarrow> (case unmarshal bytes of Inl e \<Rightarrow> Err e | Inr t \<Rightarrow> Ok t)))"

definition record_object :: "string \<Rightarrow> tfstateObject \<Rightarrow> bool \<Rightarrow> scan \<Rightarrow> scan" where
  "record_object name obj changed s =
     s\<lparr>tfstates := tfstates s @ [tfstate obj], existingObjects := existingObjects s @ [name],
       needUpdate := needUpdate s \<or> changed, objects := fmupd name obj (objects s)\<rparr>"

definition scan_page ::
  "string \<Rightarrow> (string \<Rightarrow> go_error + Tfstate) \<Rightarrow> s3_page \<Rightarrow> scan \<Rightarrow> unit outcome \<times> scan"
where
  "scan_page bucketName unmarshal page s =
     (case NextPage page of
        Inl e \<Rightarrow> (Err e, s)
      | Inr name \<Rightarrow>
          (let objectName = ToString name in
           if \<not> HasSuffix objectName ''.tfstate'' then (Ok (), s)
           else
             (case HeadObject page of
                Inl e \<Rightarrow> (Err e, s)
              | Inr head \<Rightarrow>
                  (let tag = ToString (ETag head);
                       objectFullName = bucketName @ ''/'' @ objectName;
                       obj = (case fmlookup (objects s) objectFullName of
                                None \<Rightarrow> \<lparr>tfstate = None, etag = []\<rparr>
                              | Some o1 \<Rightarrow> o1)
                   in if etag obj \<noteq> tag then
                        (case fetch_object unmarshal page head of
                           Ok t \<Rightarrow> (Ok (), record_object objectFullName \<lparr>tfstate = Some t, etag = tag\<rparr> True s)
                         | Err e \<Rightarrow> (Err e, s)
                         | Panic p \<Rightarrow> (Panic p, s))
                      else (Ok (), record_object objectFullName (obj\<lparr>etag := tag\<rparr>) False s)))))"

text \<open>The loop that collects the forgotten objects, over the keys in the order of the visit.\<close>

fun stale_objects :: "(string, tfstateObject) gomap \<Rightarrow> string list \<Rightarrow> string list \<Rightarrow> string list" where
  "stale_objects m existing [] = []"
| "stale_objects m existing (k # ks) =
     (if k \<in> set existing \<or> fmlookup m k = None then stale_objects m existing ks
      else k # stale_objects m existing ks)"

text \<open>
  \<open>client\<close> says what a call of a client factory does: the panic, if it panics. A nil factory cannot be
  called. The nil slice is the empty list.
\<close>

definition GetTfstate ::
  "(s3ClientFactory \<Rightarrow> go_panic option) \<Rightarrow> (string \<Rightarrow> go_error + Tfstate) \<Rightarrow> s3_page list \<Rightarrow> string list \<Rightarrow>
   s3_source \<Rightarrow> Tfstate option list outcome \<times> s3_source"
where
  "GetTfstate client unmarshal pages ks t =
     (case (case s3Client t of None \<Rightarrow> Some NilDereference | Some factory \<Rightarrow> client factory) of
        Some p \<Rightarrow> (Panic p, t)
      | None \<Rightarrow>
          (case for_each (scan_page (bucket t) unmarshal) pages
                  \<lparr>tfstates = [], existingObjects = [], needUpdate = False, objects = tfstateObjects t\<rparr> of
             (Ok _, s) \<Rightarrow>
               (if \<not> needUpdate s then (Ok [], t\<lparr>tfstateObjects := objects s\<rparr>)
                else (Ok (tfstates s),
                      t\<lparr>tfstateObjects := delete_keys (stale_objects (objects s) (existingObjects s) ks) (objects s)\<rparr>))
           | (Err e, s) \<Rightarrow> (Err e, t\<lparr>tfstateObjects := objects s\<rparr>)
           | (Panic p, s) \<Rightarrow> (Panic p, t\<lparr>tfstateObjects := objects s\<rparr>)))"

text \<open>A fetch never changes the factory and the bucket, and a factory that panics ends it.\<close>

lemma GetTfstate_frame:
  "s3Client (snd (GetTfstate client unmarshal pages ks t)) = s3Client t"
  "bucket (snd (GetTfstate client unmarshal pages ks t)) = bucket t"
  by (simp_all add: GetTfstate_def split: option.split prod.split outcome.split)

lemma GetTfstate_factory: "GetTfstate client unmarshal pages ks t = (r, t') \<Longrightarrow> s3Client t' = s3Client t"
  using GetTfstate_frame(1) [of client unmarshal pages ks t] by simp

lemma GetTfstate_factory_panics:
  "s3Client t = Some factory \<Longrightarrow> client factory = Some p \<Longrightarrow> GetTfstate client unmarshal pages ks t = (Panic p, t)"
  by (simp add: GetTfstate_def)

abbreviation no_panic :: "s3ClientFactory \<Rightarrow> go_panic option" where
  "no_panic \<equiv> \<lambda>_. None"

subsection \<open>The pages of a scan\<close>

text \<open>What a page says about the bucket: the full name and the tag of the state it names, if any.\<close>

definition page_object :: "string \<Rightarrow> s3_page \<Rightarrow> (string \<times> string) option" where
  "page_object bucketName page =
     (case (NextPage page, HeadObject page) of
        (Inr name, Inr head) \<Rightarrow>
          (if HasSuffix (ToString name) ''.tfstate''
           then Some (bucketName @ ''/'' @ ToString name, ToString (ETag head)) else None)
      | _ \<Rightarrow> None)"

text \<open>A page the scan passes without an error of \<^verbatim>\<open>NextPage\<close> or \<^verbatim>\<open>HeadObject\<close>.\<close>

definition page_listed :: "s3_page \<Rightarrow> bool" where
  "page_listed page \<longleftrightarrow>
     (\<exists>name. NextPage page = Inr name \<and> (HasSuffix (ToString name) ''.tfstate'' \<longrightarrow> (\<exists>head. HeadObject page = Inr head)))"

lemma scan_page_skipped:
  assumes "page_listed page" and "page_object bucketName page = None"
  shows "scan_page bucketName unmarshal page s = (Ok (), s)"
  using assms by (auto simp: page_listed_def page_object_def scan_page_def split: sum.splits if_splits)

lemma etag_same: "etag o1 = tag \<Longrightarrow> o1\<lparr>etag := tag\<rparr> = o1"
  by simp

lemma scan_page_object:
  assumes "page_object bucketName page = Some (name, tag)"
  shows "scan_page bucketName unmarshal page s =
    (let obj = (case fmlookup (objects s) name of None \<Rightarrow> \<lparr>tfstate = None, etag = []\<rparr> | Some o1 \<Rightarrow> o1) in
     if etag obj \<noteq> tag then
       (case HeadObject page of
          Inl e \<Rightarrow> (Err e, s)
        | Inr head \<Rightarrow>
            (case fetch_object unmarshal page head of
               Ok t \<Rightarrow> (Ok (), record_object name \<lparr>tfstate = Some t, etag = tag\<rparr> True s)
             | Err e \<Rightarrow> (Err e, s)
             | Panic p \<Rightarrow> (Panic p, s)))
     else (Ok (), record_object name obj False s))"
  using assms by (auto simp: page_object_def scan_page_def Let_def etag_same split: sum.splits if_splits option.splits)

lemma stale_objects_set:
  "set (stale_objects m existing ks) = {k \<in> set ks. k \<notin> set existing \<and> k \<in> fmdom' m}"
  by (induction m existing ks rule: stale_objects.induct) (auto simp: fmlookup_dom'_iff)

text \<open>A page whose object is remembered with the same tag.\<close>

definition page_unchanged :: "string \<Rightarrow> (string, tfstateObject) gomap \<Rightarrow> s3_page \<Rightarrow> bool" where
  "page_unchanged bucketName objs page \<longleftrightarrow>
     page_listed page \<and>
     (\<forall>name tag. page_object bucketName page = Some (name, tag) \<longrightarrow>
        (\<exists>obj. fmlookup objs name = Some obj \<and> etag obj = tag))"

lemma fmupd_same: "fmlookup m k = Some v \<Longrightarrow> fmupd k v m = m"
  by (rule fmap_ext) auto

lemma scan_unchanged:
  "\<forall>p \<in> set pages. page_unchanged bucketName (objects s) p \<Longrightarrow>
     \<exists>s'. for_each (scan_page bucketName unmarshal) pages s = (Ok (), s')
        \<and> needUpdate s' = needUpdate s \<and> objects s' = objects s"
proof (induction pages arbitrary: s)
  case (Cons p ps)
  have "\<exists>s1. scan_page bucketName unmarshal p s = (Ok (), s1) \<and> needUpdate s1 = needUpdate s \<and> objects s1 = objects s"
  proof (cases "page_object bucketName p")
    case None
    with Cons.prems show ?thesis by (simp add: page_unchanged_def scan_page_skipped)
  next
    case (Some x)
    obtain name tag where x: "x = (name, tag)" by fastforce
    with Some Cons.prems obtain obj where "fmlookup (objects s) name = Some obj" "etag obj = tag"
      by (auto simp: page_unchanged_def)
    then show ?thesis
      by (simp add: scan_page_object [OF Some [unfolded x]] record_object_def fmupd_same)
  qed
  then obtain s1 where "scan_page bucketName unmarshal p s = (Ok (), s1)"
    and "needUpdate s1 = needUpdate s" "objects s1 = objects s" by blast
  with Cons.IH [of s1] Cons.prems show ?case by simp
qed simp

subsection \<open>Coherence with the bucket\<close>

text \<open>
  \<open>content name tag\<close> is the state that the object \<open>name\<close> holds under the tag \<open>tag\<close>: an entity tag
  identifies the content, so every download that succeeds gives it.
\<close>

definition tags_identify ::
  "string \<Rightarrow> (string \<Rightarrow> go_error + Tfstate) \<Rightarrow> (string \<Rightarrow> string \<Rightarrow> Tfstate) \<Rightarrow> s3_page \<Rightarrow> bool"
where
  "tags_identify bucketName unmarshal content page \<longleftrightarrow>
     (\<forall>name tag head t. page_object bucketName page = Some (name, tag) \<longrightarrow> HeadObject page = Inr head \<longrightarrow>
        fetch_object unmarshal page head = Ok t \<longrightarrow> t = content name tag)
     \<and> (\<forall>name tag. page_object bucketName page = Some (name, tag) \<longrightarrow> tag \<noteq> [])"

definition coherent :: "(string \<Rightarrow> string \<Rightarrow> Tfstate) \<Rightarrow> (string, tfstateObject) gomap \<Rightarrow> bool" where
  "coherent content objs \<longleftrightarrow>
     (\<forall>name obj. fmlookup objs name = Some obj \<longrightarrow> tfstate obj = Some (content name (etag obj)))"

text \<open>The objects the pages of a scan name, in order.\<close>

definition named_objects :: "string \<Rightarrow> s3_page list \<Rightarrow> (string \<times> string) list" where
  "named_objects bucketName pages = List.map_filter (page_object bucketName) pages"

lemma named_objects_simps [simp]:
  "named_objects b [] = []"
  "named_objects b (p # ps) =
     (case page_object b p of None \<Rightarrow> named_objects b ps | Some x \<Rightarrow> x # named_objects b ps)"
  by (simp_all add: named_objects_def map_filter_simps split: option.split)

lemma scan_page_Ok_listed:
  "scan_page b unmarshal p s = (Ok (), s') \<Longrightarrow> page_object b p = None \<Longrightarrow> s' = s"
  by (auto simp: scan_page_def page_object_def Let_def split: sum.splits if_splits)

lemma coherent_upd:
  "coherent content m \<Longrightarrow> coherent content (fmupd name \<lparr>tfstate = Some (content name tag), etag = tag\<rparr> m)"
  by (auto simp: coherent_def)

lemma scan_page_coherent:
  assumes "scan_page b unmarshal p s = (Ok (), s')" and "page_object b p = Some (name, tag)"
    and "tags_identify b unmarshal content p" and "coherent content (objects s)"
  shows "coherent content (objects s') \<and> tfstates s' = tfstates s @ [Some (content name tag)]
    \<and> existingObjects s' = existingObjects s @ [name]
    \<and> objects s' = fmupd name \<lparr>tfstate = Some (content name tag), etag = tag\<rparr> (objects s)"
proof -
  let ?obj = "case fmlookup (objects s) name of None \<Rightarrow> \<lparr>tfstate = None, etag = []\<rparr> | Some o1 \<Rightarrow> o1"
  from assms(2,3) have "tag \<noteq> []" by (auto simp: tags_identify_def)
  show ?thesis
  proof (cases "etag ?obj = tag")
    case True
    with \<open>tag \<noteq> []\<close> obtain o1 where o1: "fmlookup (objects s) name = Some o1" "etag o1 = tag"
      by (cases "fmlookup (objects s) name") auto
    with assms(4) have "tfstate o1 = Some (content name tag)" unfolding coherent_def by metis
    with o1(2) have "o1 = \<lparr>tfstate = Some (content name tag), etag = tag\<rparr>" by simp
    with o1 assms(1,4) show ?thesis
      by (auto simp: scan_page_object [OF assms(2)] record_object_def coherent_upd)
  next
    case False
    then obtain head t where "HeadObject p = Inr head" "fetch_object unmarshal p head = Ok t"
      "s' = record_object name \<lparr>tfstate = Some t, etag = tag\<rparr> True s"
      using assms(1) by (auto simp: scan_page_object [OF assms(2)] Let_def split: sum.splits outcome.splits)
    moreover from this have "t = content name tag"
      using assms(2,3) by (auto simp: tags_identify_def)
    ultimately show ?thesis using assms(4) by (auto simp: record_object_def coherent_upd)
  qed
qed

lemma scan_coherent:
  "for_each (scan_page b unmarshal) pages s = (Ok (), s') \<Longrightarrow>
     \<forall>p \<in> set pages. tags_identify b unmarshal content p \<Longrightarrow> coherent content (objects s) \<Longrightarrow>
     coherent content (objects s')
     \<and> tfstates s' = tfstates s @ map (\<lambda>(name, tag). Some (content name tag)) (named_objects b pages)
     \<and> existingObjects s' = existingObjects s @ map fst (named_objects b pages)
     \<and> objects s' = fold (\<lambda>(name, tag). fmupd name \<lparr>tfstate = Some (content name tag), etag = tag\<rparr>)
         (named_objects b pages) (objects s)"
proof (induction pages arbitrary: s)
  case (Cons p ps)
  then obtain s1 where run: "scan_page b unmarshal p s = (Ok (), s1)"
    and rest: "for_each (scan_page b unmarshal) ps s1 = (Ok (), s')"
    by (auto simp: and_then_Ok_iff)
  show ?case
  proof (cases "page_object b p")
    case None
    with run have "s1 = s" by (rule scan_page_Ok_listed)
    with None Cons.IH [OF rest] Cons.prems show ?thesis by auto
  next
    case (Some x)
    obtain name tag where x: "x = (name, tag)" by fastforce
    from scan_page_coherent [OF run Some [unfolded x], of content] Cons.prems
    have "coherent content (objects s1)" "tfstates s1 = tfstates s @ [Some (content name tag)]"
      "existingObjects s1 = existingObjects s @ [name]"
      "objects s1 = fmupd name \<lparr>tfstate = Some (content name tag), etag = tag\<rparr> (objects s)"
      by auto
    with Cons.IH [OF rest] Cons.prems Some x show ?thesis by auto
  qed
qed simp

subsection \<open>Properties\<close>

text \<open>A bucket of one state, for the witnesses.\<close>

abbreviation sample_decode_state :: "string \<Rightarrow> go_error + Tfstate" where
  "sample_decode_state \<equiv> \<lambda>bytes. if bytes = ''{}'' then Inr \<lparr>Resources = []\<rparr> else Inl (Foreign ''bad json'')"

definition sample_page :: "string \<Rightarrow> s3_page" where
  "sample_page tag = \<lparr>NextPage = Inr (Some ''b.tfstate''),
     HeadObject = Inr \<lparr>ETag = Some tag, ContentLength = 2\<rparr>, Download = (\<lambda>_. Inr ''{}'')\<rparr>"

lemma sample_page_object: "page_object ''b.tfstate'' (sample_page tag) = Some (''b.tfstate/b.tfstate'', tag)"
  by (simp add: page_object_def sample_page_def HasSuffix_def)

definition sample_source :: "string \<Rightarrow> s3_source" where
  "sample_source tag = \<lparr>s3Client = Some GetS3Client, bucket = ''b.tfstate'', tfstateObjects =
     fmupd ''b.tfstate/b.tfstate'' \<lparr>tfstate = Some \<lparr>Resources = []\<rparr>, etag = tag\<rparr> fmempty\<rparr>"

text \<open>
  A round in which every listed state is remembered with the tag the bucket reports returns no
  states at all and no error: to the caller it looks like a bucket without states. Nothing remembered
  changes, states that were deleted from the bucket included.
\<close>

theorem GetTfstate_unchanged:
  assumes "\<forall>p \<in> set pages. page_unchanged (bucket t) (tfstateObjects t) p"
    and "s3Client t = Some factory" and "client factory = None"
  shows "GetTfstate client unmarshal pages ks t = (Ok [], t)"
proof -
  let ?s = "\<lparr>tfstates = [], existingObjects = [], needUpdate = False, objects = tfstateObjects t\<rparr>"
  obtain s' where "for_each (scan_page (bucket t) unmarshal) pages ?s = (Ok (), s')"
    "needUpdate s' = False" "objects s' = tfstateObjects t"
    using scan_unchanged [of pages "bucket t" ?s unmarshal] assms(1) by auto
  then show ?thesis by (simp add: GetTfstate_def assms(2,3))
qed

theorem GetTfstate_unchanged_witness:
  "GetTfstate no_panic sample_decode_state [sample_page ''v1''] [] (sample_source ''v1'') = (Ok [], sample_source ''v1'')"
  by (rule GetTfstate_unchanged [where factory = GetS3Client])
     (simp_all add: page_unchanged_def sample_source_def sample_page_object, simp add: page_listed_def sample_page_def)

text \<open>
  C14. When a tag identifies the content of its object, a round that returns states returns exactly the
  current content of every state the bucket lists, in the order of the pages, unchanged ones from
  memory and changed ones from their download; afterwards it remembers exactly the listed states,
  each with its content under its tag.
\<close>

theorem GetTfstate_current:
  assumes "\<forall>p \<in> set pages. tags_identify (bucket t) unmarshal content p"
    and "coherent content (tfstateObjects t)"
    and "GetTfstate client unmarshal pages ks t = (Ok ts, t')" and "ts \<noteq> []"
    and "fmdom' (tfstateObjects t) \<union> fst ` set (named_objects (bucket t) pages) \<subseteq> set ks"
  shows "ts = map (\<lambda>(name, tag). Some (content name tag)) (named_objects (bucket t) pages)
    \<and> coherent content (tfstateObjects t')
    \<and> fmdom' (tfstateObjects t') = fst ` set (named_objects (bucket t) pages)"
proof -
  let ?init = "\<lparr>tfstates = [], existingObjects = [], needUpdate = False, objects = tfstateObjects t\<rparr>"
  let ?named = "named_objects (bucket t) pages"
  let ?upd = "\<lambda>(name, tag). fmupd name \<lparr>tfstate = Some (content name tag), etag = tag\<rparr>"
  obtain s where run: "for_each (scan_page (bucket t) unmarshal) pages ?init = (Ok (), s)"
    and ts: "ts = tfstates s"
    and t': "tfstateObjects t' = fmdrop_set (set (stale_objects (objects s) (existingObjects s) ks)) (objects s)"
    using assms(3,4) by (auto simp: GetTfstate_def split: option.splits prod.splits outcome.splits if_splits)
  from scan_coherent [OF run assms(1)] assms(2)
  have s: "coherent content (objects s)" "tfstates s = map (\<lambda>(name, tag). Some (content name tag)) ?named"
    "existingObjects s = map fst ?named" "objects s = fold ?upd ?named (tfstateObjects t)"
    by auto
  have dom: "fmdom' (fold ?upd xs m) = fst ` set xs \<union> fmdom' m" for xs and m :: "(string, tfstateObject) gomap"
    by (induction xs arbitrary: m) auto
  have "fmdom' (objects s) \<subseteq> set ks" using assms(5) unfolding s(4) dom by auto
  then have "set (stale_objects (objects s) (existingObjects s) ks) = fmdom' (objects s) - fst ` set ?named"
    by (auto simp: stale_objects_set s(3))
  moreover have "coherent content (fmdrop_set X (objects s))" for X
    using s(1) by (auto simp: coherent_def)
  ultimately show ?thesis using s(2) by (auto simp: ts t' s(4) dom)
qed

theorem GetTfstate_current_witness:
  "coherent (\<lambda>_ _. \<lparr>Resources = []\<rparr>)
     (tfstateObjects (snd (GetTfstate no_panic sample_decode_state [sample_page ''v2''] [''b.tfstate/b.tfstate'']
        (sample_source ''v1''))))"
proof -
  let ?t = "snd (GetTfstate no_panic sample_decode_state [sample_page ''v2''] [''b.tfstate/b.tfstate''] (sample_source ''v1''))"
  have "GetTfstate no_panic sample_decode_state [sample_page ''v2''] [''b.tfstate/b.tfstate''] (sample_source ''v1'')
      = (Ok [Some \<lparr>Resources = []\<rparr>], ?t)"
    by (simp add: GetTfstate_def sample_source_def scan_page_def sample_page_def HasSuffix_def
        fetch_object_def record_object_def Let_def)
  then show ?thesis
  proof (rule GetTfstate_current [THEN conjunct2, THEN conjunct1, rotated 2])
    show "\<forall>p \<in> set [sample_page ''v2'']. tags_identify (bucket (sample_source ''v1'')) sample_decode_state
        (\<lambda>_ _. \<lparr>Resources = []\<rparr>) p"
      by (simp add: sample_source_def tags_identify_def sample_page_object)
         (simp add: fetch_object_def sample_page_def)
    show "coherent (\<lambda>_ _. \<lparr>Resources = []\<rparr>) (tfstateObjects (sample_source ''v1''))"
      by (simp add: sample_source_def coherent_def)
    show "fmdom' (tfstateObjects (sample_source ''v1'')) \<union>
        fst ` set (named_objects (bucket (sample_source ''v1'')) [sample_page ''v2'']) \<subseteq> set [''b.tfstate/b.tfstate'']"
      by (simp add: sample_source_def sample_page_object)
  qed simp
qed

text \<open>
  The output of \<^verbatim>\<open>ListObjectsV2\<close> has the bucket's name in its field \<open>Name\<close>, and the scan takes that
  field for the name of a state. So in a bucket whose own name does not end in \<open>.tfstate\<close> no page is
  ever examined: whatever the bucket holds, the source returns no states and remembers none.
\<close>

theorem GetTfstate_reads_bucket_name:
  assumes "\<forall>p \<in> set pages. NextPage p = Inr (Some (bucket t))" and "\<not> HasSuffix (bucket t) ''.tfstate''"
    and "s3Client t = Some factory" and "client factory = None"
  shows "GetTfstate client unmarshal pages ks t = (Ok [], t)"
proof -
  have "for_each (scan_page (bucket t) unmarshal) ps s = (Ok (), s)" if "set ps \<subseteq> set pages" for ps s
    using that assms(1,2) by (induction ps) (auto simp: scan_page_def)
  then show ?thesis by (simp add: GetTfstate_def assms(3,4))
qed

theorem GetTfstate_reads_bucket_name_witness:
  "GetTfstate no_panic sample_decode_state
     [\<lparr>NextPage = Inr (Some ''states''), HeadObject = Inr \<lparr>ETag = Some ''v1'', ContentLength = 2\<rparr>,
       Download = (\<lambda>_. Inr ''{}'')\<rparr>] [] (NewTfstateSource GetS3Client ''states'') = (Ok [], NewTfstateSource GetS3Client ''states'')"
  by (rule GetTfstate_reads_bucket_name [where factory = GetS3Client]) (simp_all add: NewTfstateSource_def HasSuffix_def)

end
