(* ===== verification/Service_Discovery.thy ===== *)
theory Service_Discovery
  imports Xds_State "HOL-Library.Word"
begin

section \<open>Service discovery (\<^verbatim>\<open>pkg/providers/aws/service_discovery\<close>)\<close>

text \<open>
  \<open>sync\<close> lists the services of the configured namespaces and builds a cluster load assignment for
  each service with a port tag; \<open>flush\<close> gives assignments to the xDS state. The Cloud Map client is
  outside the repository: \<open>discovery_env\<close> holds what its calls return in one round, by their
  argument; a paginated call gives the results of its successive \<^verbatim>\<open>NextPage\<close> calls.
\<close>

subsection \<open>Data\<close>

record NamespaceSummary =
  Namespace_Id :: "string option"

record ServiceSummary =
  Service_Id :: "string option"
  Service_Arn :: "string option"
  Service_Name :: "string option"

record Tag =
  Tag_Key :: "string option"
  Tag_Value :: "string option"

record InstanceSummary =
  Instance_Id :: "string option"
  Attributes :: "(string, string) gomap"

record serviceInfo =
  service :: ServiceSummary
  NamespaceId :: string
  Tags :: "Tag list"

record discovery_env =
  ListNamespaces :: "string \<Rightarrow> go_error + NamespaceSummary list"
  ListServices :: "string \<Rightarrow> (go_error + ServiceSummary list) list"
  ListTagsForResource :: "string option \<Rightarrow> go_error + Tag list"
  ListInstances :: "string option \<Rightarrow> (go_error + InstanceSummary list) list"

record LbEndpoint =
  Hostname :: string
  Address :: string
  PortValue :: "32 word"

record LocalityLbEndpoints =
  LbEndpoints :: "LbEndpoint list"

type_synonym assignment = "(LocalityLbEndpoints, unit) ClusterLoadAssignment"

record discovery =
  namespacesNames :: "string list"
  clusterLoadAssignments :: "assignment list"
  servicePortTagKey :: string
  periodicSyncInterval :: int

text \<open>
  The options of \<open>NewXds\<close>; the client and the xDS state, which the other two options set, are arguments
  of the model.
\<close>

datatype xds_option =
    WithNamespacesNames "string list"
  | WithServicePortTagKey string
  | WithPeriodicSyncInterval int

fun apply_xds_option :: "xds_option \<Rightarrow> discovery \<Rightarrow> discovery" where
  "apply_xds_option (WithNamespacesNames names) x = x\<lparr>namespacesNames := names\<rparr>"
| "apply_xds_option (WithServicePortTagKey key) x = x\<lparr>servicePortTagKey := key\<rparr>"
| "apply_xds_option (WithPeriodicSyncInterval i) x = x\<lparr>periodicSyncInterval := i\<rparr>"

definition NewXds :: "xds_option list \<Rightarrow> discovery" where
  "NewXds opts = fold apply_xds_option opts
     \<lparr>namespacesNames = [], clusterLoadAssignments = [], servicePortTagKey = [], periodicSyncInterval = 5 * 10 ^ 9\<rparr>"

definition aws_ToString :: "string option \<Rightarrow> string" where
  "aws_ToString p = (case p of None \<Rightarrow> [] | Some s \<Rightarrow> s)"

definition attribute :: "(string, string) gomap \<Rightarrow> string \<Rightarrow> string" where
  "attribute m k = (case fmlookup m k of None \<Rightarrow> [] | Some v \<Rightarrow> v)"

subsection \<open>Decimal integers of 32 bits\<close>

text \<open>
  \<^verbatim>\<open>strconv.ParseInt(s, 10, 32)\<close>: an optional sign and digits, read from the left; the first
  character that is no digit is a syntax error unless the value has already left 32 bits.
\<close>

definition digit_value :: "char \<Rightarrow> nat option" where
  "digit_value c =
     (let n = (of_char c :: nat) in if 48 \<le> n \<and> n \<le> 57 then Some (n - 48) else None)"

fun parse_digits :: "string \<Rightarrow> string \<Rightarrow> nat \<Rightarrow> go_error + nat" where
  "parse_digits s0 [] n = Inr n"
| "parse_digits s0 (c # cs) n =
     (case digit_value c of
        None \<Rightarrow> Inl (NumSyntax s0)
      | Some d \<Rightarrow> (if n * 10 + d > 2 ^ 32 - 1 then Inl (NumRange s0) else parse_digits s0 cs (n * 10 + d)))"

definition ParseInt32 :: "string \<Rightarrow> go_error + int" where
  "ParseInt32 s =
     (let neg = (take 1 s = ''-'');
          digits = (if take 1 s = ''+'' \<or> take 1 s = ''-'' then drop 1 s else s)
      in if digits = [] then Inl (NumSyntax s)
         else
           (case parse_digits s digits 0 of
              Inl e \<Rightarrow> Inl e
            | Inr n \<Rightarrow>
                (if \<not> neg \<and> n \<ge> 2 ^ 31 then Inl (NumRange s)
                 else if neg \<and> n > 2 ^ 31 then Inl (NumRange s)
                 else Inr (if neg then - int n else int n))))"

subsection \<open>One synchronisation\<close>

fun listNamespaces ::
  "(string \<Rightarrow> go_error + NamespaceSummary list) \<Rightarrow> string list \<Rightarrow> go_error + NamespaceSummary list"
where
  "listNamespaces list_ns [] = Inr []"
| "listNamespaces list_ns (n # ns) =
     (case list_ns n of
        Inl e \<Rightarrow> Inl e
      | Inr out \<Rightarrow> (case listNamespaces list_ns ns of Inl e \<Rightarrow> Inl e | Inr rest \<Rightarrow> Inr (out @ rest)))"

fun getTagByKey :: "Tag list \<Rightarrow> string \<Rightarrow> Tag" where
  "getTagByKey [] key = \<lparr>Tag_Key = None, Tag_Value = None\<rparr>"
| "getTagByKey (tag # tags) key =
     (if aws_ToString (Tag_Key tag) = key then tag else getTagByKey tags key)"

text \<open>The loop over the services of a page, with the call that lists the tags of each.\<close>

fun tag_services ::
  "discovery_env \<Rightarrow> string \<Rightarrow> ServiceSummary list \<Rightarrow> go_error + serviceInfo list"
where
  "tag_services env ns [] = Inr []"
| "tag_services env ns (s # ss) =
     (case ListTagsForResource env (Service_Arn s) of
        Inl e \<Rightarrow> Inl e
      | Inr tags \<Rightarrow>
          (case tag_services env ns ss of
             Inl e \<Rightarrow> Inl e
           | Inr rest \<Rightarrow> Inr (\<lparr>service = s, NamespaceId = ns, Tags = tags\<rparr> # rest)))"

fun page_services ::
  "discovery_env \<Rightarrow> string \<Rightarrow> (go_error + ServiceSummary list) list \<Rightarrow> go_error + serviceInfo list"
where
  "page_services env ns [] = Inr []"
| "page_services env ns (Inl e # ps) = Inl e"
| "page_services env ns (Inr ss # ps) =
     (case tag_services env ns ss of
        Inl e \<Rightarrow> Inl e
      | Inr infos \<Rightarrow> (case page_services env ns ps of Inl e \<Rightarrow> Inl e | Inr rest \<Rightarrow> Inr (infos @ rest)))"

fun listServices :: "discovery_env \<Rightarrow> NamespaceSummary list \<Rightarrow> go_error + serviceInfo list" where
  "listServices env [] = Inr []"
| "listServices env (n # ns) =
     (let ns_id = aws_ToString (Namespace_Id n) in
      case page_services env ns_id (ListServices env ns_id) of
        Inl e \<Rightarrow> Inl e
      | Inr infos \<Rightarrow> (case listServices env ns of Inl e \<Rightarrow> Inl e | Inr rest \<Rightarrow> Inr (infos @ rest)))"

definition instance_endpoint :: "int \<Rightarrow> InstanceSummary \<Rightarrow> LbEndpoint" where
  "instance_endpoint port i =
     \<lparr>Hostname = aws_ToString (Instance_Id i), Address = attribute (Attributes i) ''AWS_INSTANCE_IPV4'',
      PortValue = word_of_int port\<rparr>"

text \<open>The loop over the pages of instances, on the endpoints built so far.\<close>

fun page_instances ::
  "int \<Rightarrow> (go_error + InstanceSummary list) list \<Rightarrow> LbEndpoint list \<Rightarrow> go_error + LbEndpoint list"
where
  "page_instances port [] eps = Inr eps"
| "page_instances port (Inl e # ps) eps = Inl e"
| "page_instances port (Inr is # ps) eps = page_instances port ps (eps @ map (instance_endpoint port) is)"

text \<open>The assignment of one service, \<open>None\<close> when the service has no port tag.\<close>

definition service_assignment ::
  "discovery_env \<Rightarrow> string \<Rightarrow> serviceInfo \<Rightarrow> go_error + assignment option"
where
  "service_assignment env tagKey info =
     (case Tag_Value (getTagByKey (Tags info) tagKey) of
        None \<Rightarrow> Inr None
      | Some v \<Rightarrow>
          (case ParseInt32 (aws_ToString (Some v)) of
             Inl e \<Rightarrow> Inl e
           | Inr port \<Rightarrow>
               (case page_instances port (ListInstances env (Service_Id (service info))) [] of
                  Inl e \<Rightarrow> Inl e
                | Inr eps \<Rightarrow>
                    Inr (Some \<lparr>ClusterName = aws_ToString (Service_Name (service info)) @ ''.'' @ NamespaceId info,
                               Endpoints = [\<lparr>LbEndpoints = eps\<rparr>], other_fields = ()\<rparr>))))"

text \<open>The loop over the services: each assignment is a local variable that nothing reads.\<close>

fun sync_services :: "discovery_env \<Rightarrow> string \<Rightarrow> serviceInfo list \<Rightarrow> unit outcome" where
  "sync_services env tagKey [] = Ok ()"
| "sync_services env tagKey (i # is) =
     (case service_assignment env tagKey i of
        Inl e \<Rightarrow> Err e
      | Inr _ \<Rightarrow> sync_services env tagKey is)"

definition sync_discovery :: "discovery_env \<Rightarrow> discovery \<Rightarrow> unit outcome \<times> discovery" where
  "sync_discovery env x =
     (case listNamespaces (ListNamespaces env) (namespacesNames x) of
        Inl e \<Rightarrow> (Err e, x)
      | Inr namespaces \<Rightarrow>
          (case listServices env namespaces of
             Inl e \<Rightarrow> (Err e, x)
           | Inr services \<Rightarrow>
               (sync_services env (servicePortTagKey x) services,
                x\<lparr>clusterLoadAssignments := map (\<lambda>a. a\<lparr>Endpoints := []\<rparr>) (clusterLoadAssignments x)\<rparr>)))"

definition flush_discovery ::
  "discovery \<Rightarrow> ('m, LocalityLbEndpoints, unit, 'c) xds_state \<Rightarrow>
   discovery \<times> ('m, LocalityLbEndpoints, unit, 'c) xds_state"
where
  "flush_discovery x s =
     (x\<lparr>clusterLoadAssignments := filter (\<lambda>a. length (Endpoints a) > 0) (clusterLoadAssignments x)\<rparr>,
      SetClusterEndpoints (clusterLoadAssignments x) s)"

subsection \<open>The loop\<close>

datatype discovery_phase = Syncing | Flushing | Choosing | Reporting go_error | Ended

record ('m, 'c) discovery_state =
  d_phase :: discovery_phase
  discovery :: discovery
  xdsState :: "('m, LocalityLbEndpoints, unit, 'c) xds_state"
  reported :: "go_error list"

inductive discovery_step :: "('m, 'c) discovery_state \<Rightarrow> ('m, 'c) discovery_state \<Rightarrow> bool" where
  sync_ok: "d_phase s = Syncing \<Longrightarrow> sync_discovery env (discovery s) = (Ok (), x) \<Longrightarrow>
     discovery_step s (s\<lparr>d_phase := Flushing, discovery := x\<rparr>)"
| sync_err: "d_phase s = Syncing \<Longrightarrow> sync_discovery env (discovery s) = (Err e, x) \<Longrightarrow>
     discovery_step s (s\<lparr>d_phase := Reporting e, discovery := x\<rparr>)"
| flush: "d_phase s = Flushing \<Longrightarrow> flush_discovery (discovery s) (xdsState s) = (x, xs) \<Longrightarrow>
     discovery_step s (s\<lparr>d_phase := Choosing, discovery := x, xdsState := xs\<rparr>)"
| cancelled: "d_phase s = Choosing \<Longrightarrow> err = Canceled \<or> err = DeadlineExceeded \<Longrightarrow>
     discovery_step s (s\<lparr>d_phase := Reporting err\<rparr>)"
| again: "d_phase s = Choosing \<Longrightarrow> discovery_step s (s\<lparr>d_phase := Syncing\<rparr>)"
| report: "d_phase s = Reporting e \<Longrightarrow>
     discovery_step s (s\<lparr>d_phase := Ended, reported := reported s @ [e]\<rparr>)"

definition discovery_start ::
  "string list \<Rightarrow> string \<Rightarrow> int \<Rightarrow> ('m, LocalityLbEndpoints, unit, 'c) xds_state \<Rightarrow> ('m, 'c) discovery_state"
where
  "discovery_start names tagKey interval xs =
     \<lparr>d_phase = Syncing, discovery = NewXds [WithNamespacesNames names, WithServicePortTagKey tagKey, WithPeriodicSyncInterval interval], xdsState = xs, reported = []\<rparr>"

subsection \<open>Lemmas\<close>

lemma sync_discovery_assignments:
  "clusterLoadAssignments x = [] \<Longrightarrow> clusterLoadAssignments (snd (sync_discovery env x)) = []"
  by (simp add: sync_discovery_def split: sum.split)

lemma discovery_step_keeps:
  assumes "discovery_step s t" and "clusterLoadAssignments (discovery s) = []"
  shows "clusterLoadAssignments (discovery t) = [] \<and> xdsState t = xdsState s"
  using assms
proof (induction rule: discovery_step.induct)
  case (sync_ok s env x)
  with sync_discovery_assignments [of "discovery s" env] show ?case by simp
next
  case (sync_err s env e x)
  with sync_discovery_assignments [of "discovery s" env] show ?case by simp
next
  case (flush s x xs)
  then show ?case by (auto simp: flush_discovery_def)
qed simp_all

lemma parse_digits_bound: "parse_digits s0 ds n = Inr m \<Longrightarrow> n \<le> 2 ^ 32 - 1 \<Longrightarrow> m \<le> 2 ^ 32 - 1"
  by (induction s0 ds n rule: parse_digits.induct) (auto split: option.splits if_splits)

lemma ParseInt32_bounds: "ParseInt32 s = Inr n \<Longrightarrow> - (2 ^ 31) \<le> n \<and> n < 2 ^ 31"
  by (auto simp: ParseInt32_def Let_def split: if_splits sum.splits)

lemma PortValue_instance [simp]: "PortValue (instance_endpoint port i) = word_of_int port"
  by (simp add: instance_endpoint_def)

lemma page_instances_ports:
  "page_instances port ps eps = Inr eps' \<Longrightarrow> \<forall>e \<in> set eps. PortValue e = word_of_int port \<Longrightarrow>
     \<forall>e \<in> set eps'. PortValue e = word_of_int port"
  by (induction port ps eps rule: page_instances.induct) (simp_all add: ball_Un)

text \<open>The loop over the services stops at the first that fails, and at no other.\<close>

lemma sync_services_Err:
  "sync_services env k is = Err e \<longleftrightarrow>
     (\<exists>before i behind. is = before @ i # behind \<and> service_assignment env k i = Inl e
        \<and> (\<forall>j \<in> set before. \<exists>a. service_assignment env k j = Inr a))"
proof (induction "is")
  case (Cons i "is")
  show ?case
  proof (cases "service_assignment env k i")
    case (Inl e')
    show ?thesis
    proof
      assume "sync_services env k (i # is) = Err e"
      with Inl show "\<exists>before j behind. i # is = before @ j # behind \<and> service_assignment env k j = Inl e
          \<and> (\<forall>j \<in> set before. \<exists>a. service_assignment env k j = Inr a)"
        by (intro exI [of _ "[]"] exI [of _ i] exI [of _ "is"]) simp
    next
      assume "\<exists>before j behind. i # is = before @ j # behind \<and> service_assignment env k j = Inl e
          \<and> (\<forall>j \<in> set before. \<exists>a. service_assignment env k j = Inr a)"
      then obtain before j behind where "i # is = before @ j # behind" "service_assignment env k j = Inl e"
        "\<forall>j \<in> set before. \<exists>a. service_assignment env k j = Inr a" by blast
      with Inl show "sync_services env k (i # is) = Err e" by (cases before) auto
    qed
  next
    case (Inr a)
    show ?thesis
    proof
      assume "sync_services env k (i # is) = Err e"
      with Inr Cons.IH obtain before j behind where "is = before @ j # behind" "service_assignment env k j = Inl e"
        "\<forall>j \<in> set before. \<exists>a. service_assignment env k j = Inr a" by auto
      with Inr show "\<exists>before j behind. i # is = before @ j # behind \<and> service_assignment env k j = Inl e
          \<and> (\<forall>j \<in> set before. \<exists>a. service_assignment env k j = Inr a)"
        by (intro exI [of _ "i # before"] exI [of _ j] exI [of _ behind]) simp
    next
      assume "\<exists>before j behind. i # is = before @ j # behind \<and> service_assignment env k j = Inl e
          \<and> (\<forall>j \<in> set before. \<exists>a. service_assignment env k j = Inr a)"
      then obtain before j behind where split: "i # is = before @ j # behind" "service_assignment env k j = Inl e"
        "\<forall>j \<in> set before. \<exists>a. service_assignment env k j = Inr a" by blast
      with Inr obtain before' where "before = i # before'" by (cases before) auto
      with split Inr Cons.IH show "sync_services env k (i # is) = Err e" by auto
    qed
  qed
qed simp

subsection \<open>Properties\<close>

text \<open>
  Service discovery never changes the xDS state: whatever the Cloud Map calls return, in any
  number of rounds, the assignments that \<open>sync\<close> builds are dropped, so every \<open>flush\<close> hands an empty
  list to \<open>SetClusterEndpoints\<close> and the endpoints stay as they were when it started.
\<close>

theorem discovery_has_no_effect:
  assumes "discovery_step\<^sup>*\<^sup>* (discovery_start names tagKey interval xs) s"
  shows "xdsState s = xs \<and> clusterLoadAssignments (discovery s) = []"
  using assms
proof (induction rule: rtranclp_induct)
  case base
  then show ?case by (simp add: discovery_start_def NewXds_def)
next
  case (step s t)
  with discovery_step_keeps [OF step(2)] show ?case by simp
qed

text \<open>A namespace with one service whose port tag is \<open>port\<close>, and one instance.\<close>

definition sample_env :: "string \<Rightarrow> discovery_env" where
  "sample_env port =
     \<lparr>ListNamespaces = (\<lambda>_. Inr [\<lparr>Namespace_Id = Some ''ns''\<rparr>]),
      ListServices = (\<lambda>_. [Inr [\<lparr>Service_Id = Some ''id'', Service_Arn = None, Service_Name = Some ''web''\<rparr>]]),
      ListTagsForResource = (\<lambda>_. Inr [\<lparr>Tag_Key = Some ''port'', Tag_Value = Some port\<rparr>]),
      ListInstances = (\<lambda>_. [Inr [\<lparr>Instance_Id = Some ''i'',
        Attributes = fmupd ''AWS_INSTANCE_IPV4'' ''10.0.0.1'' fmempty\<rparr>]])\<rparr>"

abbreviation sample_discovery :: discovery where
  "sample_discovery \<equiv> NewXds [WithNamespacesNames [''dev''], WithServicePortTagKey ''port'', WithPeriodicSyncInterval 5]"

lemma sample_discovery_eq:
  "sample_discovery = \<lparr>namespacesNames = [''dev''], clusterLoadAssignments = [], servicePortTagKey = ''port'',
     periodicSyncInterval = 5\<rparr>"
  by (simp add: NewXds_def)

definition sample_xs :: "(unit, LocalityLbEndpoints, unit, unit) xds_state" where
  "sample_xs = SetClusterEndpoints
     [\<lparr>ClusterName = ''c'', Endpoints = [\<lparr>LbEndpoints = []\<rparr>], other_fields = ()\<rparr>] (NewXdsState (\<lambda>_. ()))"

definition sample_info :: "string \<Rightarrow> serviceInfo" where
  "sample_info port = \<lparr>service = \<lparr>Service_Id = Some ''id'', Service_Arn = None, Service_Name = Some ''web''\<rparr>,
     NamespaceId = ''ns'', Tags = [\<lparr>Tag_Key = Some ''port'', Tag_Value = Some port\<rparr>]\<rparr>"

lemma sample_listing:
  "listNamespaces (ListNamespaces (sample_env port)) [''dev''] = Inr [\<lparr>Namespace_Id = Some ''ns''\<rparr>]"
  "listServices (sample_env port) [\<lparr>Namespace_Id = Some ''ns''\<rparr>] = Inr [sample_info port]"
  by (simp_all add: sample_env_def sample_info_def aws_ToString_def Let_def)

lemma sample_assignment:
  "service_assignment (sample_env port) ''port'' (sample_info port) =
     (case ParseInt32 port of
        Inl e \<Rightarrow> Inl e
      | Inr n \<Rightarrow> Inr (Some \<lparr>ClusterName = ''web.ns'', Endpoints = [\<lparr>LbEndpoints =
          [\<lparr>Hostname = ''i'', Address = ''10.0.0.1'', PortValue = word_of_int n\<rparr>]\<rparr>], other_fields = ()\<rparr>))"
  by (simp add: service_assignment_def sample_info_def sample_env_def aws_ToString_def instance_endpoint_def
      attribute_def split: sum.split)

lemma sample_ports:
  "ParseInt32 ''8080'' = Inr 8080" "ParseInt32 ''-1'' = Inr (- 1)" "ParseInt32 ''80/tcp'' = Inl (NumSyntax ''80/tcp'')"
  "ParseInt32 ''2147483648'' = Inl (NumRange ''2147483648'')"
  by (simp_all add: ParseInt32_def digit_value_def)

lemma sample_sync:
  "sync_discovery (sample_env ''8080'') sample_discovery = (Ok (), sample_discovery)"
  unfolding sync_discovery_def sample_discovery_eq discovery.simps sample_listing sum.case
    sync_services.simps sample_assignment sample_ports by simp

theorem discovery_has_no_effect_witness:
  "xdsState (\<lparr>d_phase = Choosing, discovery = sample_discovery, xdsState = sample_xs, reported = []\<rparr>) = sample_xs
   \<and> discovery_step\<^sup>*\<^sup>* (discovery_start [''dev''] ''port'' 5 sample_xs)
       \<lparr>d_phase = Choosing, discovery = sample_discovery, xdsState = sample_xs, reported = []\<rparr>"
proof -
  let ?s = "\<lambda>ph. \<lparr>d_phase = ph, discovery = sample_discovery, xdsState = sample_xs, reported = []\<rparr>"
  have "discovery_step (?s Syncing) (?s Flushing)"
    using discovery_step.sync_ok [of "?s Syncing" "sample_env ''8080''" "sample_discovery"] sample_sync by simp
  moreover have "discovery_step (?s Flushing) (?s Choosing)"
    using discovery_step.flush [of "?s Flushing" "sample_discovery" sample_xs]
    by (simp add: flush_discovery_def NewXds_def)
  ultimately have run: "discovery_step\<^sup>*\<^sup>* (discovery_start [''dev''] ''port'' 5 sample_xs) (?s Choosing)"
    by (auto simp: discovery_start_def intro: converse_rtranclp_into_rtranclp)
  with discovery_has_no_effect [OF run] show ?thesis by simp
qed

text \<open>
  The assignment built for a service with a port tag is named after the service and its namespace,
  has one locality, and carries in every endpoint the number the tag denotes as a 32-bit value. Any
  number of 32 bits is taken: a negative one or one above 65535 is no error.
\<close>

theorem service_assignment_ports:
  assumes "service_assignment env k info = Inr (Some a)"
  shows "\<exists>v n eps. Tag_Value (getTagByKey (Tags info) k) = Some v \<and> ParseInt32 v = Inr n
    \<and> - (2 ^ 31) \<le> n \<and> n < 2 ^ 31
    \<and> ClusterName a = aws_ToString (Service_Name (service info)) @ ''.'' @ NamespaceId info
    \<and> Endpoints a = [\<lparr>LbEndpoints = eps\<rparr>] \<and> (\<forall>e \<in> set eps. sint (PortValue e) = n)"
proof -
  obtain v n eps where v: "Tag_Value (getTagByKey (Tags info) k) = Some v" "ParseInt32 v = Inr n"
    and eps: "page_instances n (ListInstances env (Service_Id (service info))) [] = Inr eps"
    and a: "a = \<lparr>ClusterName = aws_ToString (Service_Name (service info)) @ ''.'' @ NamespaceId info,
        Endpoints = [\<lparr>LbEndpoints = eps\<rparr>], other_fields = ()\<rparr>"
    using assms by (auto simp: service_assignment_def aws_ToString_def split: option.splits sum.splits)
  have n: "- (2 ^ 31) \<le> n" "n < 2 ^ 31" using ParseInt32_bounds [OF v(2)] by simp_all
  then have "sint (word_of_int n :: 32 word) = n"
    by (simp add: signed_of_int signed_take_bit_int_eq_self)
  moreover have "\<forall>e \<in> set eps. PortValue e = word_of_int n"
    using page_instances_ports [OF eps] by simp
  ultimately show ?thesis using v n a by auto
qed

theorem service_assignment_ports_witness:
  "\<exists>a eps. service_assignment (sample_env ''-1'') ''port'' (sample_info ''-1'') = Inr (Some a)
     \<and> ClusterName a = ''web.ns'' \<and> Endpoints a = [\<lparr>LbEndpoints = eps\<rparr>]
     \<and> (\<forall>e \<in> set eps. sint (PortValue e) = - 1) \<and> length eps = 1"
proof -
  have a: "service_assignment (sample_env ''-1'') ''port'' (sample_info ''-1'') =
    Inr (Some \<lparr>ClusterName = ''web.ns'', Endpoints = [\<lparr>LbEndpoints =
      [\<lparr>Hostname = ''i'', Address = ''10.0.0.1'', PortValue = word_of_int (- 1)\<rparr>]\<rparr>], other_fields = ()\<rparr>)"
    by (simp only: sample_assignment sample_ports sum.case)
  from service_assignment_ports [OF this] show ?thesis
    unfolding a by (auto simp: sample_info_def sample_ports aws_ToString_def)
qed

text \<open>
  A round of service discovery that lists its services fails exactly when some service has a port
  tag that is no 32-bit decimal number, or the listing of its instances fails; it returns the error of
  the first such service, and the services behind it are not looked at.
\<close>

theorem discovery_sync_error:
  assumes "listNamespaces (ListNamespaces env) (namespacesNames x) = Inr namespaces"
    and "listServices env namespaces = Inr services"
  shows "fst (sync_discovery env x) = Err e \<longleftrightarrow>
    (\<exists>before i behind. services = before @ i # behind
       \<and> service_assignment env (servicePortTagKey x) i = Inl e
       \<and> (\<forall>j \<in> set before. \<exists>a. service_assignment env (servicePortTagKey x) j = Inr a))"
  using assms by (simp add: sync_discovery_def sync_services_Err)

theorem discovery_sync_error_witness:
  "fst (sync_discovery (sample_env ''80/tcp'') sample_discovery) = Err (NumSyntax ''80/tcp'')"
proof -
  have "service_assignment (sample_env ''80/tcp'') ''port'' (sample_info ''80/tcp'') = Inl (NumSyntax ''80/tcp'')"
    by (simp only: sample_assignment sample_ports sum.case)
  then have "\<exists>before i behind. [sample_info ''80/tcp''] = before @ i # behind
       \<and> service_assignment (sample_env ''80/tcp'') (servicePortTagKey sample_discovery) i = Inl (NumSyntax ''80/tcp'')
       \<and> (\<forall>j \<in> set before. \<exists>a. service_assignment (sample_env ''80/tcp'')
            (servicePortTagKey sample_discovery) j = Inr a)"
    by (intro exI [of _ "[]"]) (simp add: NewXds_def)
  then show ?thesis
    using discovery_sync_error [of "sample_env ''80/tcp''" "sample_discovery", OF _ sample_listing(2)]
      sample_listing(1) by (simp only: sample_discovery_eq discovery.simps)
qed

end
