(* ===== verification/Server.thy ===== *)
theory Server
  imports Go_Prelude
begin

section \<open>The server and the swap handler (\<^verbatim>\<open>pkg/server/server.go\<close>, \<^verbatim>\<open>swap_handler.go\<close>)\<close>

text \<open>
  \<open>server\<close> opens a listener, serves HTTP/2 or h2c on it in a goroutine and shuts it down. The calls
  of \<^verbatim>\<open>crypto/tls\<close>, \<^verbatim>\<open>net\<close> and \<^verbatim>\<open>net/http\<close> return what \<open>server_env\<close> holds. The result of an operation
  is \<open>None\<close> when it blocks for ever. \<open>closeChannel\<close> is unbuffered and only the goroutine sends on it,
  so its state is whether it is closed and whether the goroutine still has its value to send.
\<close>

subsection \<open>The server\<close>

type_synonym ListenerProtocol = int

definition HTTP2 :: ListenerProtocol where "HTTP2 = 0"
definition H2C :: ListenerProtocol where "H2C = 1"

datatype 'h serve_handler = Plain 'h | H2cHandler 'h

record 'h http_server =
  Handler :: "'h serve_handler option"

record ('l, 'cfg, 'h) server =
  listenerProtocol :: ListenerProtocol
  listenerAddress :: string
  tlsConfig :: "'cfg option option"
  listener :: "'l option"
  httpServer :: "'h http_server option"
  httpHandler :: "'h option"
  shutdownTimeout :: int
  serving :: bool
  closeChannel_closed :: bool

record ('l, 'cfg) server_env =
  tls_Listen :: "string \<Rightarrow> 'cfg \<Rightarrow> go_error + 'l"
  net_Listen :: "string \<Rightarrow> go_error + 'l"
  ConfigureServer :: "go_error option"
  http_Shutdown :: "int \<Rightarrow> go_error option"
  http_Close :: "go_error option"
  http_Serve :: go_error

text \<open>
  \<open>tlsConfig\<close> is \<open>None\<close> for a nil function and otherwise what the function returns. \<open>http_Shutdown\<close> takes
  the timeout of its context, in nanoseconds.
\<close>

datatype ('cfg, 'h) server_option =
    WithListenerProtocol ListenerProtocol
  | WithListenerAddress string
  | WithTLSConfig "'cfg option option"
  | WithHTTPHandler "'h option"
  | WithShutdownTimeout int

fun apply_server_option :: "('cfg, 'h) server_option \<Rightarrow> ('l, 'cfg, 'h) server \<Rightarrow> ('l, 'cfg, 'h) server" where
  "apply_server_option (WithListenerProtocol protocol) s = s\<lparr>listenerProtocol := protocol\<rparr>"
| "apply_server_option (WithListenerAddress address) s = s\<lparr>listenerAddress := address\<rparr>"
| "apply_server_option (WithTLSConfig config) s = s\<lparr>tlsConfig := config\<rparr>"
| "apply_server_option (WithHTTPHandler h) s = s\<lparr>httpHandler := h\<rparr>"
| "apply_server_option (WithShutdownTimeout t) s = s\<lparr>shutdownTimeout := t\<rparr>"

definition NewServer :: "('cfg, 'h) server_option list \<Rightarrow> ('l, 'cfg, 'h) server" where
  "NewServer options = fold apply_server_option options
     \<lparr>listenerProtocol = HTTP2, listenerAddress = [], tlsConfig = None, listener = None, httpServer = None,
      httpHandler = None, shutdownTimeout = 0, serving = False, closeChannel_closed = False\<rparr>"

lemma apply_server_option_frame [simp]:
  "listener (apply_server_option opt s) = listener s" "httpServer (apply_server_option opt s) = httpServer s"
  "serving (apply_server_option opt s) = serving s"
  "closeChannel_closed (apply_server_option opt s) = closeChannel_closed s"
  by (cases opt; simp)+

lemma fold_server_options_frame [simp]:
  "listener (fold apply_server_option options s) = listener s"
  "httpServer (fold apply_server_option options s) = httpServer s"
  "serving (fold apply_server_option options s) = serving s"
  "closeChannel_closed (fold apply_server_option options s) = closeChannel_closed s"
  by (induction options arbitrary: s) simp_all

definition assertListen :: "('l, 'cfg, 'h) server \<Rightarrow> go_error option" where
  "assertListen s =
     (if length (listenerAddress s) = 0 then Some ErrEmptyListenerAddress
      else if listenerProtocol s = HTTP2 \<and> tlsConfig s = None then Some ErrEmptyHTTP2TLSConfig
      else if listener s \<noteq> None then Some ErrNonEmptyListener
      else None)"

definition listen :: "('l, 'cfg) server_env \<Rightarrow> ('l, 'cfg, 'h) server \<Rightarrow> unit outcome \<times> ('l, 'cfg, 'h) server" where
  "listen env s =
     (case assertListen s of
        Some err \<Rightarrow> (Err err, s)
      | None \<Rightarrow>
          (case tlsConfig s of
             None \<Rightarrow> (Panic NilDereference, s)
           | Some (Some config) \<Rightarrow>
               (case tls_Listen env (listenerAddress s) config of
                  Inl err \<Rightarrow> (Err err, s)
                | Inr lis \<Rightarrow> (Ok (), s\<lparr>listener := Some lis\<rparr>))
           | Some None \<Rightarrow>
               (case net_Listen env (listenerAddress s) of
                  Inl err \<Rightarrow> (Err err, s)
                | Inr lis \<Rightarrow> (Ok (), s\<lparr>listener := Some lis\<rparr>))))"

definition assertServe :: "('l, 'cfg, 'h) server \<Rightarrow> go_error option" where
  "assertServe s =
     (if listener s = None then Some ErrEmptyListener
      else if httpServer s \<noteq> None then Some ErrNonEmptyHTTPServer
      else if httpHandler s = None then Some ErrEmptyHTTPHandler
      else None)"

definition serveHTTP2 :: "('l, 'cfg) server_env \<Rightarrow> ('l, 'cfg, 'h) server \<Rightarrow> unit outcome \<times> ('l, 'cfg, 'h) server" where
  "serveHTTP2 env s =
     (let s1 = s\<lparr>httpServer := Some \<lparr>Handler = map_option Plain (httpHandler s)\<rparr>\<rparr> in
      case ConfigureServer env of Some err \<Rightarrow> (Err err, s1) | None \<Rightarrow> (Ok (), s1))"

definition serveH2C :: "('l, 'cfg, 'h) server \<Rightarrow> unit outcome \<times> ('l, 'cfg, 'h) server" where
  "serveH2C s = (Ok (), s\<lparr>httpServer := Some \<lparr>Handler = map_option H2cHandler (httpHandler s)\<rparr>\<rparr>)"

definition serve :: "('l, 'cfg) server_env \<Rightarrow> ('l, 'cfg, 'h) server \<Rightarrow> unit outcome \<times> ('l, 'cfg, 'h) server" where
  "serve env s =
     (case assertServe s of
        Some err \<Rightarrow> (Err err, s)
      | None \<Rightarrow>
          (let s1 = s\<lparr>httpServer := Some \<lparr>Handler = None\<rparr>\<rparr> in
           and_then
             (if listenerProtocol s = HTTP2 then serveHTTP2 env s1
              else if listenerProtocol s = H2C then serveH2C s1
              else (Ok (), s1))
             (\<lambda>_ s2. (Ok (), s2\<lparr>serving := True\<rparr>))))"

definition Open :: "('l, 'cfg) server_env \<Rightarrow> ('l, 'cfg, 'h) server \<Rightarrow> unit outcome \<times> ('l, 'cfg, 'h) server" where
  "Open env s = and_then (listen env s) (\<lambda>_ s1. serve env s1)"

text \<open>
  The receive takes the goroutine's value, or nil at once from the closed channel, or blocks; the
  deferred \<open>close\<close> panics on a channel that is already closed.
\<close>

definition waitCloseChannel ::
  "('l, 'cfg) server_env \<Rightarrow> ('l, 'cfg, 'h) server \<Rightarrow> (unit outcome \<times> ('l, 'cfg, 'h) server) option"
where
  "waitCloseChannel env s =
     (if closeChannel_closed s then Some (Panic CloseOfClosedChannel, s)
      else if serving s then
        Some (if http_Serve env = ErrServerClosed then Ok () else Err (http_Serve env),
              s\<lparr>serving := False, closeChannel_closed := True\<rparr>)
      else None)"

definition Close ::
  "('l, 'cfg) server_env \<Rightarrow> ('l, 'cfg, 'h) server \<Rightarrow> (unit outcome \<times> ('l, 'cfg, 'h) server) option"
where
  "Close env s =
     (if httpServer s = None then Some (Ok (), s)
      else
        (case http_Shutdown env (shutdownTimeout s) of
           Some err \<Rightarrow>
             (if err = DeadlineExceeded then
                (case http_Close env of
                   Some err' \<Rightarrow> Some (Err err', s)
                 | None \<Rightarrow> waitCloseChannel env s)
              else Some (Err err, s))
         | None \<Rightarrow> waitCloseChannel env s))"

subsection \<open>The life of a server\<close>

text \<open>Calls of \<open>Open\<close> and of \<open>Close\<close> that return, one after the other.\<close>

inductive server_reach :: "('l, 'cfg, 'h) server \<Rightarrow> ('l, 'cfg, 'h) server \<Rightarrow> bool" where
  server_refl: "server_reach s s"
| server_open: "server_reach s t \<Longrightarrow> server_reach s (snd (Open env t))"
| server_close: "server_reach s t \<Longrightarrow> Close env t = Some (r, u) \<Longrightarrow> server_reach s u"

definition server_inv :: "('l, 'cfg, 'h) server \<Rightarrow> bool" where
  "server_inv s \<longleftrightarrow>
     (serving s \<or> closeChannel_closed s \<longrightarrow> httpServer s \<noteq> None)
     \<and> \<not> (serving s \<and> closeChannel_closed s)
     \<and> (httpServer s \<noteq> None \<longrightarrow> listener s \<noteq> None)"

lemma listen_cases:
  "listen env s = (r, s') \<Longrightarrow>
     (r \<noteq> Ok () \<and> s' = s) \<or> (r = Ok () \<and> listener s = None \<and> (\<exists>lis. s' = s\<lparr>listener := Some lis\<rparr>))"
  by (auto simp: listen_def assertListen_def split: option.splits sum.splits if_splits)

lemma serve_cases:
  "serve env s = (r, s') \<Longrightarrow>
     (r \<noteq> Ok () \<and> s' = s) \<or>
     (listener s \<noteq> None \<and> httpServer s = None \<and> httpHandler s \<noteq> None \<and>
       (\<exists>hs. s' = s\<lparr>httpServer := Some hs, serving := (if r = Ok () then True else serving s)\<rparr>))"
  by (auto simp: serve_def assertServe_def serveHTTP2_def serveH2C_def Let_def split: option.splits if_splits)

lemma server_inv_Open:
  assumes "server_inv s"
  shows "server_inv (snd (Open env s))"
proof -
  obtain r1 s1 where l: "listen env s = (r1, s1)" by fastforce
  have s1: "server_inv s1" using listen_cases [OF l] assms by (auto simp: server_inv_def)
  obtain r2 s2 where v: "serve env s1 = (r2, s2)" by fastforce
  have "server_inv s2" using serve_cases [OF v] s1 by (auto simp: server_inv_def split: if_splits)
  then show ?thesis using l v s1 by (cases r1) (simp_all add: Open_def)
qed

lemma server_inv_Close: "server_inv s \<Longrightarrow> Close env s = Some (r, s') \<Longrightarrow> server_inv s'"
  by (auto simp: server_inv_def Close_def waitCloseChannel_def split: if_splits option.splits)

lemma server_reach_inv: "server_reach s t \<Longrightarrow> server_inv s \<Longrightarrow> server_inv t"
  by (induction rule: server_reach.induct) (auto intro: server_inv_Open server_inv_Close)

lemma server_inv_init: "server_inv (NewServer options)"
  by (simp add: server_inv_def NewServer_def)

lemma server_reach_kept:
  "server_reach s t \<Longrightarrow> (listener s \<noteq> None \<longrightarrow> listener t \<noteq> None)
     \<and> (httpServer s \<noteq> None \<longrightarrow> httpServer t \<noteq> None)
     \<and> listenerProtocol t = listenerProtocol s \<and> listenerAddress t = listenerAddress s
     \<and> tlsConfig t = tlsConfig s \<and> httpHandler t = httpHandler s"
proof (induction rule: server_reach.induct)
  case (server_open s t env)
  obtain r1 t1 where l: "listen env t = (r1, t1)" by fastforce
  obtain r2 t2 where v: "serve env t1 = (r2, t2)" by fastforce
  have "snd (Open env t) = t1 \<or> snd (Open env t) = t2"
    using l v by (cases r1) (simp_all add: Open_def)
  with server_open listen_cases [OF l] serve_cases [OF v] show ?case by auto
next
  case (server_close s t env r u)
  then show ?case
    by (auto simp: Close_def waitCloseChannel_def split: if_splits option.splits)
qed simp

lemma server_closed_stays:
  "server_reach s t \<Longrightarrow> server_inv s \<Longrightarrow> closeChannel_closed s \<Longrightarrow> closeChannel_closed t \<and> \<not> serving t"
proof (induction rule: server_reach.induct)
  case (server_refl s)
  then show ?case by (simp add: server_inv_def)
next
  case (server_open s t env)
  then have t: "closeChannel_closed t" "\<not> serving t" by simp_all
  with server_open server_reach_inv [of s t] have "httpServer t \<noteq> None" "listener t \<noteq> None"
    by (auto simp: server_inv_def)
  then have "\<exists>e. listen env t = (Err e, t)"
    by (auto simp: listen_def assertListen_def split: if_splits)
  with t show ?case by (auto simp: Open_def)
next
  case (server_close s t env r u)
  then show ?case by (auto simp: Close_def waitCloseChannel_def split: if_splits option.splits)
qed

lemma listener_no_Open: "listener s \<noteq> None \<Longrightarrow> \<exists>e. Open env s = (Err e, s)"
  by (auto simp: Open_def listen_def assertListen_def)

subsection \<open>The swap handler\<close>

text \<open>
  \<open>watchSwap\<close> receives a handler and then stores it; \<open>received_handler\<close> is the one between the two
  steps. \<open>Swap\<close> is \<open>None\<close> while the watcher is not ready to receive.
\<close>

record 'h swapHandler =
  handler :: "'h option"
  received_handler :: "'h option"
  handlerCh_closed :: bool

definition NewSwapHandler :: "'h swapHandler" where
  "NewSwapHandler = \<lparr>handler = None, received_handler = None, handlerCh_closed = False\<rparr>"

definition Swap :: "'h \<Rightarrow> 'h swapHandler \<Rightarrow> (unit outcome \<times> 'h swapHandler) option" where
  "Swap h s =
     (if handlerCh_closed s then Some (Panic SendOnClosedChannel, s)
      else if received_handler s \<noteq> None then None
      else Some (Ok (), s\<lparr>received_handler := Some h\<rparr>))"

definition watchSwap_store :: "'h swapHandler \<Rightarrow> 'h swapHandler" where
  "watchSwap_store s =
     (case received_handler s of None \<Rightarrow> s | Some h \<Rightarrow> s\<lparr>handler := Some h, received_handler := None\<rparr>)"

definition swap_ServeHTTP :: "'h swapHandler \<Rightarrow> 'h outcome" where
  "swap_ServeHTTP s = (case handler s of None \<Rightarrow> Panic NilDereference | Some h \<Rightarrow> Ok h)"

definition swap_Close :: "'h swapHandler \<Rightarrow> unit outcome \<times> 'h swapHandler" where
  "swap_Close s =
     (if handlerCh_closed s then (Panic CloseOfClosedChannel, s) else (Ok (), s\<lparr>handlerCh_closed := True\<rparr>))"

text \<open>Runs of the handler, with the handlers that were swapped in, the last first.\<close>

inductive swap_run :: "'h list \<Rightarrow> 'h swapHandler \<Rightarrow> bool" where
  run_new: "swap_run [] NewSwapHandler"
| run_swap: "swap_run hs s \<Longrightarrow> Swap h s = Some (Ok (), s') \<Longrightarrow> swap_run (h # hs) s'"
| run_store: "swap_run hs s \<Longrightarrow> swap_run hs (watchSwap_store s)"
| run_close: "swap_run hs s \<Longrightarrow> swap_Close s = (Ok (), s') \<Longrightarrow> swap_run hs s'"

fun first_of :: "'h list \<Rightarrow> 'h option" where
  "first_of [] = None"
| "first_of (h # hs) = Some h"

lemma swap_run_handlers:
  "swap_run hs s \<Longrightarrow>
     (case received_handler s of None \<Rightarrow> handler s = first_of hs
      | Some h \<Rightarrow> \<exists>hs'. hs = h # hs' \<and> handler s = first_of hs')"
proof (induction rule: swap_run.induct)
  case (run_swap hs s h s')
  then show ?case by (auto simp: Swap_def split: if_splits)
qed (auto simp: NewSwapHandler_def watchSwap_store_def swap_Close_def split: option.splits if_splits)

subsection \<open>Properties\<close>

text \<open>An environment in which every call succeeds, for the witnesses.\<close>

definition sample_server_env :: "(string, nat) server_env" where
  "sample_server_env = \<lparr>tls_Listen = (\<lambda>a c. Inr (''tls '' @ a)), net_Listen = (\<lambda>a. Inr (''tcp '' @ a)),
     ConfigureServer = None, http_Shutdown = (\<lambda>timeout. None), http_Close = None, http_Serve = ErrServerClosed\<rparr>"

definition sample_server :: "(string, nat, nat) server" where
  "sample_server = NewServer [WithListenerAddress ''0.0.0.0:4880'', WithTLSConfig (Some (Some 5)), WithHTTPHandler (Some 7)]"

definition sample_open :: "(string, nat, nat) server" where
  "sample_open = sample_server\<lparr>listener := Some ''tls 0.0.0.0:4880'',
     httpServer := Some \<lparr>Handler = Some (Plain 7)\<rparr>, serving := True\<rparr>"

lemma sample_Open: "Open sample_server_env sample_server = (Ok (), sample_open)"
  by (simp add: Open_def listen_def assertListen_def serve_def assertServe_def serveHTTP2_def
      sample_server_def sample_open_def NewServer_def sample_server_env_def HTTP2_def Let_def)

lemma sample_Close: "Close sample_server_env sample_open =
  Some (Ok (), sample_open\<lparr>serving := False, closeChannel_closed := True\<rparr>)"
  by (simp add: Close_def waitCloseChannel_def sample_open_def sample_server_def NewServer_def sample_server_env_def)

text \<open>
  C37. An \<open>Open\<close> that succeeds has bound a TLS listener exactly when the configured function returns a
  configuration, and serves in its goroutine the given handler, plain for HTTP/2 and wrapped for h2c;
  from then on, whatever calls of \<open>Open\<close> and \<open>Close\<close> follow, no \<open>Open\<close> succeeds again: each returns
  \<open>ErrNonEmptyListener\<close> and changes nothing.
\<close>

theorem Open_once:
  assumes "Open env s = (Ok (), s')"
  shows "(\<exists>lis config. listener s' = Some lis \<and> tlsConfig s = Some config
            \<and> Inr lis = (case config of Some c \<Rightarrow> tls_Listen env (listenerAddress s) c
                                      | None \<Rightarrow> net_Listen env (listenerAddress s)))
       \<and> (\<exists>h. httpHandler s = Some h \<and>
            httpServer s' = Some \<lparr>Handler = (if listenerProtocol s = HTTP2 then Some (Plain h)
                                             else if listenerProtocol s = H2C then Some (H2cHandler h) else None)\<rparr>)
       \<and> serving s'
       \<and> (server_reach s' t \<longrightarrow> Open env' t = (Err ErrNonEmptyListener, t))"
proof -
  obtain s1 where l: "listen env s = (Ok (), s1)" and v: "serve env s1 = (Ok (), s')"
    using assms by (auto simp: Open_def and_then_Ok_iff)
  have "Open env' t = (Err ErrNonEmptyListener, t)" if "server_reach s' t"
  proof -
    from v have "listener s' \<noteq> None" using serve_cases [OF v] by auto
    then have "listener t \<noteq> None" using server_reach_kept [OF that] by simp
    moreover have "length (listenerAddress t) \<noteq> 0 \<and> \<not> (listenerProtocol t = HTTP2 \<and> tlsConfig t = None)"
      using server_reach_kept [OF that] l serve_cases [OF v] listen_cases [OF l]
      by (auto simp: listen_def assertListen_def split: if_splits)
    ultimately show ?thesis by (auto simp: Open_def listen_def assertListen_def)
  qed
  moreover have "\<exists>lis config. listener s1 = Some lis \<and> tlsConfig s = Some config
      \<and> Inr lis = (case config of Some c \<Rightarrow> tls_Listen env (listenerAddress s) c
                                | None \<Rightarrow> net_Listen env (listenerAddress s))"
  proof -
    have "\<exists>lis. listener s1 = Some lis \<and> tlsConfig s = Some (the (tlsConfig s))
        \<and> Inr lis = (case the (tlsConfig s) of Some c \<Rightarrow> tls_Listen env (listenerAddress s) c
                                           | None \<Rightarrow> net_Listen env (listenerAddress s))"
      using l by (auto simp: listen_def assertListen_def split: if_splits option.splits sum.splits)
    then show ?thesis by blast
  qed
  moreover have "listener s' = listener s1" using serve_cases [OF v] by auto
  moreover have "httpHandler s1 = httpHandler s" "listenerProtocol s1 = listenerProtocol s"
    using listen_cases [OF l] by auto
  moreover have "serving s' \<and> (\<exists>h. httpHandler s1 = Some h \<and>
      httpServer s' = Some \<lparr>Handler = (if listenerProtocol s1 = HTTP2 then Some (Plain h)
        else if listenerProtocol s1 = H2C then Some (H2cHandler h) else None)\<rparr>)"
    using v by (auto simp: serve_def assertServe_def serveHTTP2_def serveH2C_def and_then_Ok_iff Let_def
        split: option.splits if_splits)
  ultimately show ?thesis by metis
qed

theorem Open_once_witness:
  "Open sample_server_env (sample_open\<lparr>serving := False, closeChannel_closed := True\<rparr>)
     = (Err ErrNonEmptyListener, sample_open\<lparr>serving := False, closeChannel_closed := True\<rparr>)"
proof -
  have "server_reach sample_open (sample_open\<lparr>serving := False, closeChannel_closed := True\<rparr>)"
    using server_close [OF server_refl sample_Close] .
  with Open_once [OF sample_Open] show ?thesis by blast
qed

text \<open>
  A server is closed at most once: after a \<open>Close\<close> of a serving server has returned, whatever it
  returned, any later \<open>Close\<close> whose shutdown succeeds panics when it closes the channel again.
\<close>

theorem Close_twice_panics:
  assumes "server_reach (NewServer options) s" and "serving s"
    and "Close env s = Some (r, s')" and "http_Shutdown env (shutdownTimeout s) = None"
    and "server_reach s' t" and "http_Shutdown env' (shutdownTimeout t) = None"
  shows "(r = Ok () \<longleftrightarrow> http_Serve env = ErrServerClosed) \<and> Close env' t = Some (Panic CloseOfClosedChannel, t)"
proof -
  have s: "server_inv s" by (rule server_reach_inv [OF assms(1) server_inv_init])
  with assms(2) have hs: "httpServer s \<noteq> None" "\<not> closeChannel_closed s" by (auto simp: server_inv_def)
  with assms(2-4) have s': "closeChannel_closed s'" "r = (if http_Serve env = ErrServerClosed then Ok () else Err (http_Serve env))"
    by (auto simp: Close_def waitCloseChannel_def split: if_splits)
  have "server_inv s'" by (rule server_inv_Close [OF s assms(3)])
  then have "closeChannel_closed t" and "server_inv t"
    using server_closed_stays [OF assms(5)] server_reach_inv [OF assms(5)] s' by simp_all
  then have "httpServer t \<noteq> None" by (simp add: server_inv_def)
  then show ?thesis using s'(2) \<open>closeChannel_closed t\<close> assms(6)
    by (simp add: Close_def waitCloseChannel_def)
qed

theorem Close_twice_panics_witness:
  "Close sample_server_env (sample_open\<lparr>serving := False, closeChannel_closed := True\<rparr>)
   = Some (Panic CloseOfClosedChannel, sample_open\<lparr>serving := False, closeChannel_closed := True\<rparr>)"
proof -
  have "server_reach sample_server sample_open"
    using server_open [OF server_refl, of sample_server sample_server_env] by (simp add: sample_Open)
  then have "server_reach (NewServer [WithListenerAddress ''0.0.0.0:4880'', WithTLSConfig (Some (Some 5)), WithHTTPHandler (Some 7)]) sample_open"
    by (simp only: sample_server_def)
  moreover have "serving sample_open" by (simp add: sample_open_def)
  ultimately show ?thesis
    using Close_twice_panics [OF _ _ sample_Close _ server_refl] by (simp add: sample_server_env_def)
qed

text \<open>
  C38. When \<open>Open\<close> of a server that has no HTTP server yet fails after it has stored one, which only
  the configuration of HTTP/2 does, no goroutine runs and \<open>Close\<close> blocks for ever.
\<close>

theorem Close_blocks_after_failed_Open:
  assumes "server_reach (NewServer options) s" and "httpServer s = None"
    and "Open env s = (r, s')" and "r \<noteq> Ok ()" and "httpServer s' \<noteq> None"
    and "http_Shutdown env' (shutdownTimeout s') = None"
  shows "listenerProtocol s = HTTP2 \<and> r = Err (the (ConfigureServer env)) \<and> Close env' s' = None"
proof -
  have "server_inv s" by (rule server_reach_inv [OF assms(1) server_inv_init])
  with assms(2) have s: "\<not> serving s" "\<not> closeChannel_closed s" by (auto simp: server_inv_def)
  obtain r1 s1 where l: "listen env s = (r1, s1)" by fastforce
  from listen_cases [OF l] assms(2,3,5) l have "r1 = Ok ()" by (cases r1) (auto simp: Open_def)
  with assms(3) l have v: "serve env s1 = (r, s')" by (simp add: Open_def)
  have s1: "listenerProtocol s1 = listenerProtocol s" "httpServer s1 = None" "serving s1 = serving s"
    "closeChannel_closed s1 = closeChannel_closed s"
    using listen_cases [OF l] assms(2) by auto
  with v assms(4,5) have "listenerProtocol s = HTTP2 \<and> r = Err (the (ConfigureServer env))"
    by (auto simp: serve_def serveHTTP2_def serveH2C_def Let_def split: option.splits if_splits)
  moreover have "serving s' = serving s" "closeChannel_closed s' = closeChannel_closed s"
    using serve_cases [OF v] s1 assms(4,5) by auto
  ultimately show ?thesis using s assms(5,6) by (simp add: Close_def waitCloseChannel_def)
qed

theorem Close_blocks_after_failed_Open_witness:
  "Close sample_server_env (snd (Open (sample_server_env\<lparr>ConfigureServer := Some (Foreign ''bad ciphers'')\<rparr>) sample_server))
   = None"
proof -
  let ?env = "sample_server_env\<lparr>ConfigureServer := Some (Foreign ''bad ciphers'')\<rparr>"
  have "Open ?env sample_server = (Err (Foreign ''bad ciphers''), sample_server\<lparr>listener := Some ''tls 0.0.0.0:4880'',
      httpServer := Some \<lparr>Handler = Some (Plain 7)\<rparr>\<rparr>)"
    by (simp add: Open_def listen_def assertListen_def serve_def assertServe_def serveHTTP2_def
      sample_server_def NewServer_def sample_server_env_def HTTP2_def Let_def)
  then show ?thesis
    using Close_blocks_after_failed_Open [OF _ _ _ _ _, of
      "[WithListenerAddress ''0.0.0.0:4880'', WithTLSConfig (Some (Some 5)), WithHTTPHandler (Some 7)]" sample_server ?env _ _ sample_server_env]
    by (simp add: server_refl sample_server_def NewServer_def sample_server_env_def)
qed

text \<open>
  Requests are served by the last handler that was swapped in or, while the watcher has received
  it and not yet stored it, by the one before; before the first is stored every request panics on the
  nil handler, and after \<open>Close\<close> every \<open>Swap\<close> panics.
\<close>

theorem swap_handler_serves_last:
  assumes "swap_run hs s"
  shows "(swap_ServeHTTP s = (case first_of hs of None \<Rightarrow> Panic NilDereference | Some h \<Rightarrow> Ok h)
            \<and> received_handler s = None
          \<or> (\<exists>h hs'. hs = h # hs' \<and> received_handler s = Some h
               \<and> swap_ServeHTTP s = (case first_of hs' of None \<Rightarrow> Panic NilDereference | Some h' \<Rightarrow> Ok h')
               \<and> swap_ServeHTTP (watchSwap_store s) = Ok h))
       \<and> Swap h0 (snd (swap_Close s)) = Some (Panic SendOnClosedChannel, snd (swap_Close s))"
proof (cases "received_handler s")
  case None
  with swap_run_handlers [OF assms] show ?thesis
    by (simp add: swap_ServeHTTP_def swap_Close_def Swap_def)
next
  case (Some h)
  with swap_run_handlers [OF assms] obtain hs' where "hs = h # hs'" "handler s = first_of hs'" by auto
  with Some show ?thesis
    by (simp add: swap_ServeHTTP_def swap_Close_def Swap_def watchSwap_store_def)
qed

theorem swap_handler_serves_last_witness:
  "swap_ServeHTTP (watchSwap_store (\<lparr>handler = Some 1, received_handler = Some (2::nat), handlerCh_closed = False\<rparr>)) = Ok 2
   \<and> swap_ServeHTTP (\<lparr>handler = Some 1, received_handler = Some (2::nat), handlerCh_closed = False\<rparr>) = Ok 1"
proof -
  have "swap_run [1::nat] \<lparr>handler = None, received_handler = Some 1, handlerCh_closed = False\<rparr>"
    by (rule run_swap [OF run_new]) (simp add: Swap_def NewSwapHandler_def)
  from run_store [OF this] have "swap_run [1::nat] \<lparr>handler = Some 1, received_handler = None, handlerCh_closed = False\<rparr>"
    by (simp add: watchSwap_store_def)
  then have "swap_run [2, 1::nat] \<lparr>handler = Some 1, received_handler = Some 2, handlerCh_closed = False\<rparr>"
    by (rule run_swap) (simp add: Swap_def)
  from swap_handler_serves_last [OF this] show ?thesis by simp
qed

end
