(* ===== verification/Http_Router.thy ===== *)
theory Http_Router
  imports Router_Proto Http_Header
begin

section \<open>The router (\<^verbatim>\<open>pkg/server/router.go\<close>)\<close>

text \<open>
  \<open>NewRouter\<close> turns the routes of a configuration into routes of \<^verbatim>\<open>gorilla/mux\<close>. That package is
  outside the repository: the model records the calls the code makes on it. \<open>rtr\<close> lists the routes
  created so far, each with the router it was created on, its name, the matcher calls and the handler
  given to it. \<open>mux_Get\<close> is \<^verbatim>\<open>Router.Get\<close>: the index of the route with a name, if there is one; the
  pointer is nil otherwise and \<open>Subrouter\<close> on it dereferences nil.

  \<open>order\<close> gives the order in which a loop ranges over a map.
\<close>

subsection \<open>Data\<close>

type_synonym BackendProviderKey = int

definition AWSBackendProvider :: BackendProviderKey where
  "AWSBackendProvider = 0"

datatype matcher_call =
    Call_Host string
  | Call_Path string
  | Call_PathPrefix string
  | Call_Methods "string list"
  | Call_Schemes "string list"
  | Call_Headers "string list"
  | Call_HeadersRegexp "string list"
  | Call_Queries "string list"
  | Call_MatcherFunc

datatype router_ref = RootRouter | SubrouterOf nat

record 'h mux_route =
  created_on :: router_ref
  mux_name :: string
  matcher_calls :: "matcher_call list"
  mux_handler :: "'h option"

record 'h backend_provider =
  ToGrpcBackend :: "Router_Handler \<Rightarrow> 'h outcome"
  ToHttpBackend :: "Router_Handler \<Rightarrow> 'h outcome"

record 'h router =
  rtr :: "'h mux_route list"
  provs :: "(BackendProviderKey, 'h backend_provider) gomap"
  handlers :: "Router_Handler list"

text \<open>The function given to \<^verbatim>\<open>MatcherFunc\<close>, on the protocol version and the content type of a request.\<close>

definition contains :: "string \<Rightarrow> string \<Rightarrow> bool" where
  "contains s sub \<longleftrightarrow> (\<exists>i \<in> {0..length s}. take (length sub) (drop i s) = sub)"

definition is_grpc_request :: "int \<Rightarrow> string \<Rightarrow> bool" where
  "is_grpc_request ProtoMajor content_type \<longleftrightarrow> ProtoMajor = 2 \<and> contains content_type ''application/grpc''"

subsection \<open>Parsing a route\<close>

text \<open>\<^verbatim>\<open>make([]string, n)\<close> holds \<open>n\<close> empty strings, and the pairs are appended behind them.\<close>

fun append_pairs :: "(string, string) gomap \<Rightarrow> string list \<Rightarrow> string list \<Rightarrow> string list" where
  "append_pairs m [] acc = acc"
| "append_pairs m (k # ks) acc =
     (case fmlookup m k of None \<Rightarrow> append_pairs m ks acc | Some v \<Rightarrow> append_pairs m ks (acc @ [k, v]))"

definition pair_arguments ::
  "((string, string) gomap \<Rightarrow> string list) \<Rightarrow> (string, string) gomap \<Rightarrow> string list"
where
  "pair_arguments order m = append_pairs m (order m) (replicate (fcard (fmdom m)) [])"

text \<open>The switch on a matcher: the call it makes and whether it makes the route a gRPC call.\<close>

definition matcher_call ::
  "((string, string) gomap \<Rightarrow> string list) \<Rightarrow> Router_Route_Matcher \<Rightarrow> matcher_call option \<times> bool"
where
  "matcher_call order matcher =
     (case Rule matcher of
        Some (Router_Route_Matcher_Host h) \<Rightarrow> (Some (Call_Host h), False)
      | Some (Router_Route_Matcher_Path p) \<Rightarrow> (Some (Call_Path p), False)
      | Some (Router_Route_Matcher_PathPrefix p) \<Rightarrow> (Some (Call_PathPrefix p), False)
      | Some (Router_Route_Matcher_Methods ms) \<Rightarrow>
          (Some (Call_Methods (map (map_get Router_Route_MethodsRule_Method_name) ms)), False)
      | Some (Router_Route_Matcher_Schemes ss) \<Rightarrow>
          (Some (Call_Schemes (map (map_get Router_Route_SchemesRule_Scheme_name) ss)), False)
      | Some (Router_Route_Matcher_Headers m) \<Rightarrow> (Some (Call_Headers (pair_arguments order m)), False)
      | Some (Router_Route_Matcher_HeadersRegexp m) \<Rightarrow> (Some (Call_HeadersRegexp (pair_arguments order m)), False)
      | Some (Router_Route_Matcher_Queries m) \<Rightarrow> (Some (Call_Queries (pair_arguments order m)), False)
      | Some (Router_Route_Matcher_IsGrpcCall b) \<Rightarrow> (if b then (Some Call_MatcherFunc, True) else (None, False))
      | None \<Rightarrow> (None, False))"

fun run_matchers ::
  "((string, string) gomap \<Rightarrow> string list) \<Rightarrow> Router_Route_Matcher list \<Rightarrow> matcher_call list \<Rightarrow> bool \<Rightarrow>
   matcher_call list \<times> bool"
where
  "run_matchers order [] calls isGrpcCall = (calls, isGrpcCall)"
| "run_matchers order (m # ms) calls isGrpcCall =
     (case matcher_call order m of
        (None, g) \<Rightarrow> run_matchers order ms calls (isGrpcCall \<or> g)
      | (Some c, g) \<Rightarrow> run_matchers order ms (calls @ [c]) (isGrpcCall \<or> g))"

text \<open>\<open>rt.Handler\<close> sets the handler of the route created last.\<close>

definition set_handler :: "'h \<Rightarrow> 'h router \<Rightarrow> 'h router" where
  "set_handler h r =
     r\<lparr>rtr := butlast (rtr r) @ [(last (rtr r))\<lparr>mux_handler := Some h\<rparr>]\<rparr>"

definition backend_key :: "Router_Handler \<Rightarrow> BackendProviderKey" where
  "backend_key h =
     (case Backend h of Some (Router_Handler_AwsLambda _) \<Rightarrow> AWSBackendProvider | None \<Rightarrow> 0)"

definition parseProtoRoute ::
  "('h mux_route list \<Rightarrow> string \<Rightarrow> nat option) \<Rightarrow> ((string, string) gomap \<Rightarrow> string list) \<Rightarrow>
   Router_Route \<Rightarrow> 'h router \<Rightarrow> unit outcome \<times> 'h router"
where
  "parseProtoRoute mux_Get order route r =
     (let parent = (if ParentName route \<noteq> '''' then map_option SubrouterOf (mux_Get (rtr r) (ParentName route))
                    else Some RootRouter)
      in case parent of
           None \<Rightarrow> (Panic NilDereference, r)
         | Some on \<Rightarrow>
             (let (calls, isGrpcCall) = run_matchers order (Matchers route) [] False;
                  rt = \<lparr>created_on = on, mux_name = Name route, matcher_calls = calls, mux_handler = None\<rparr>;
                  r1 = r\<lparr>rtr := rtr r @ [rt]\<rparr>
              in case Handler route of
                   None \<Rightarrow> (Ok (), r1)
                 | Some h \<Rightarrow>
                     (let r2 = r1\<lparr>handlers := handlers r1 @ [h]\<rparr> in
                      case fmlookup (provs r2) (backend_key h) of
                        None \<Rightarrow> (Err ErrNoBackendProvider, r2)
                      | Some prov \<Rightarrow>
                          (case (if isGrpcCall then ToGrpcBackend prov h else ToHttpBackend prov h) of
                             Ok b \<Rightarrow> (Ok (), set_handler b r2)
                           | Err e \<Rightarrow> (Err e, r2)
                           | Panic p \<Rightarrow> (Panic p, r2)))))"

definition parseProtoRouterConfig ::
  "('h mux_route list \<Rightarrow> string \<Rightarrow> nat option) \<Rightarrow> ((string, string) gomap \<Rightarrow> string list) \<Rightarrow>
   Router \<Rightarrow> 'h router \<Rightarrow> unit outcome \<times> 'h router"
where
  "parseProtoRouterConfig mux_Get order config r = for_each (parseProtoRoute mux_Get order) (Routes config) r"

text \<open>
  The options, applied in order to a new router; an error of the configuration is the value of a panic.
  \<open>routerOpts\<close> are the options of the command \<^verbatim>\<open>router\<close>: its providers, then the configuration.
\<close>

datatype 'h router_option =
    WithRouterConfig Router
  | WithBackendProvider BackendProviderKey "'h backend_provider"

fun apply_router_option ::
  "('h mux_route list \<Rightarrow> string \<Rightarrow> nat option) \<Rightarrow> ((string, string) gomap \<Rightarrow> string list) \<Rightarrow>
   'h router_option \<Rightarrow> 'h router \<Rightarrow> unit outcome \<times> 'h router"
where
  "apply_router_option mux_Get order (WithRouterConfig config) r =
     (case parseProtoRouterConfig mux_Get order config r of
        (Ok _, r') \<Rightarrow> (Ok (), r')
      | (Err e, r') \<Rightarrow> (Panic (PanicValue e), r')
      | (Panic p, r') \<Rightarrow> (Panic p, r'))"
| "apply_router_option mux_Get order (WithBackendProvider key p) r = (Ok (), r\<lparr>provs := fmupd key p (provs r)\<rparr>)"

definition NewRouter ::
  "('h mux_route list \<Rightarrow> string \<Rightarrow> nat option) \<Rightarrow> ((string, string) gomap \<Rightarrow> string list) \<Rightarrow>
   'h router_option list \<Rightarrow> 'h router outcome"
where
  "NewRouter mux_Get order options =
     (case for_each (apply_router_option mux_Get order) options \<lparr>rtr = [], provs = fmempty, handlers = []\<rparr> of
        (Ok _, r) \<Rightarrow> Ok r
      | (Err e, r) \<Rightarrow> Err e
      | (Panic p, r) \<Rightarrow> Panic p)"

definition routerOpts :: "(BackendProviderKey \<times> 'h backend_provider) list \<Rightarrow> Router \<Rightarrow> 'h router_option list" where
  "routerOpts providers config = map (\<lambda>(k, p). WithBackendProvider k p) providers @ [WithRouterConfig config]"

lemma apply_providers:
  "for_each (apply_router_option mux_Get order) (map (\<lambda>(k, p). WithBackendProvider k p) ps) r
   = (Ok (), r\<lparr>provs := fold (\<lambda>(k, p). fmupd k p) ps (provs r)\<rparr>)"
  by (induction ps arbitrary: r) auto

lemma NewRouter_options:
  "NewRouter mux_Get order (routerOpts providers config) =
     (let r = \<lparr>rtr = [], provs = fold (\<lambda>(k, p). fmupd k p) providers fmempty, handlers = []\<rparr> in
      case parseProtoRouterConfig mux_Get order config r of
        (Ok _, r') \<Rightarrow> Ok r'
      | (Err e, r') \<Rightarrow> Panic (PanicValue e)
      | (Panic p, r') \<Rightarrow> Panic p)"
  by (simp add: NewRouter_def routerOpts_def for_each_append apply_providers Let_def split: prod.split outcome.split)

text \<open>The calls of \<open>DoHealthcheck\<close>, over the keys of the providers in the order of the visit.\<close>

fun DoHealthcheck :: "BackendProviderKey list \<Rightarrow> 'h router \<Rightarrow> (BackendProviderKey \<times> Router_Handler list) list" where
  "DoHealthcheck [] r = []"
| "DoHealthcheck (k # ks) r =
     (case fmlookup (provs r) k of
        None \<Rightarrow> DoHealthcheck ks r
      | Some _ \<Rightarrow> (k, handlers r) # DoHealthcheck ks r)"

subsection \<open>What the code relies on of mux\<close>

text \<open>\<^verbatim>\<open>Get\<close> finds the last route that was given the name.\<close>

definition named_route :: "'h mux_route list \<Rightarrow> string \<Rightarrow> nat option" where
  "named_route rs name =
     (let is = filter (\<lambda>i. mux_name (rs ! i) = name) [0..<length rs] in if is = [] then None else Some (last is))"

definition get_finds_named :: "('h mux_route list \<Rightarrow> string \<Rightarrow> nat option) \<Rightarrow> bool" where
  "get_finds_named mux_Get \<longleftrightarrow> (\<forall>rs name. mux_Get rs name = named_route rs name)"

lemma named_route_None: "named_route rs name = None \<longleftrightarrow> name \<notin> mux_name ` set rs"
proof -
  have "named_route rs name = None \<longleftrightarrow> (\<forall>i < length rs. mux_name (rs ! i) \<noteq> name)"
    by (auto simp: named_route_def Let_def filter_empty_conv)
  also have "\<dots> \<longleftrightarrow> name \<notin> mux_name ` set rs"
    by (metis (no_types) image_iff in_set_conv_nth)
  finally show ?thesis .
qed

text \<open>
  \<^verbatim>\<open>Route.Headers\<close> takes pairs of a name and a value: with an odd number of arguments the route
  matches nothing, and otherwise a request it matches has every named header, under the canonical form of
  its name.
\<close>

definition headers_matcher :: "(string list \<Rightarrow> (string, string list) gomap \<Rightarrow> bool) \<Rightarrow> bool" where
  "headers_matcher match \<longleftrightarrow>
     (\<forall>args hdrs. match args hdrs \<longrightarrow>
        even (length args)
        \<and> (\<forall>i. 2 * i + 1 < length args \<longrightarrow> CanonicalHeaderKey (args ! (2 * i)) \<in> fmdom' hdrs))"

subsection \<open>Lemmas\<close>

lemma append_pairs_eq:
  "append_pairs m ks acc = acc @ concat (map (\<lambda>k. case fmlookup m k of None \<Rightarrow> [] | Some v \<Rightarrow> [k, v]) ks)"
  by (induction m ks acc rule: append_pairs.induct) (auto split: option.split)

lemma append_pairs_length:
  "set ks \<subseteq> fmdom' m \<Longrightarrow> length (append_pairs m ks acc) = length acc + 2 * length ks"
  by (induction m ks acc rule: append_pairs.induct) (auto simp: fmlookup_dom'_iff split: option.splits)

lemma enumerates_length: "enumerates ks m \<Longrightarrow> length ks = fcard (fmdom m)"
  by (metis distinct_card enumerates_def fcard.rep_eq fmdom'_alt_def)

lemma pair_arguments_shape:
  assumes "enumerates (order m) m"
  shows "length (pair_arguments order m) = 3 * fcard (fmdom m)"
    and "take (fcard (fmdom m)) (pair_arguments order m) = replicate (fcard (fmdom m)) []"
proof -
  from assms have sub: "set (order m) \<subseteq> fmdom' m" by (simp add: enumerates_def)
  show "length (pair_arguments order m) = 3 * fcard (fmdom m)"
    using append_pairs_length [OF sub] enumerates_length [OF assms] by (simp add: pair_arguments_def)
  show "take (fcard (fmdom m)) (pair_arguments order m) = replicate (fcard (fmdom m)) []"
    by (simp add: pair_arguments_def append_pairs_eq)
qed

lemma run_matchers_eq:
  "run_matchers order ms calls g =
     (calls @ List.map_filter (fst \<circ> matcher_call order) ms, g \<or> (\<exists>m \<in> set ms. snd (matcher_call order m)))"
  by (induction ms arbitrary: calls g) (auto simp: map_filter_simps split: option.split prod.splits)

lemma matcher_grpc: "snd (matcher_call order m) \<longleftrightarrow> Rule m = Some (Router_Route_Matcher_IsGrpcCall True)"
  by (auto simp: matcher_call_def split: option.split Router_Route_Matcher_Rule.split)

text \<open>The route a parse step creates, and the route it ends with.\<close>

definition route_calls :: "((string, string) gomap \<Rightarrow> string list) \<Rightarrow> Router_Route \<Rightarrow> matcher_call list" where
  "route_calls order route = List.map_filter (fst \<circ> matcher_call order) (Matchers route)"

definition is_grpc_route :: "Router_Route \<Rightarrow> bool" where
  "is_grpc_route route \<longleftrightarrow> (\<exists>m \<in> set (Matchers route). Rule m = Some (Router_Route_Matcher_IsGrpcCall True))"

definition route_backend ::
  "(BackendProviderKey, 'h backend_provider) gomap \<Rightarrow> Router_Route \<Rightarrow> 'h option outcome"
where
  "route_backend ps route =
     (case Handler route of
        None \<Rightarrow> Ok None
      | Some h \<Rightarrow>
          (case fmlookup ps (backend_key h) of
             None \<Rightarrow> Err ErrNoBackendProvider
           | Some prov \<Rightarrow>
               (case (if is_grpc_route route then ToGrpcBackend prov h else ToHttpBackend prov h) of
                  Ok b \<Rightarrow> Ok (Some b) | Err e \<Rightarrow> Err e | Panic p \<Rightarrow> Panic p)))"

definition parent_router :: "'h mux_route list \<Rightarrow> Router_Route \<Rightarrow> router_ref option" where
  "parent_router rs route =
     (if ParentName route \<noteq> '''' then map_option SubrouterOf (named_route rs (ParentName route)) else Some RootRouter)"

lemma parseProtoRoute_Ok:
  assumes "get_finds_named mux_Get" and "parseProtoRoute mux_Get order route r = (Ok (), r')"
  shows "\<exists>on b. parent_router (rtr r) route = Some on \<and> route_backend (provs r) route = Ok b
    \<and> rtr r' = rtr r @ [\<lparr>created_on = on, mux_name = Name route, matcher_calls = route_calls order route, mux_handler = b\<rparr>]
    \<and> provs r' = provs r \<and> handlers r' = handlers r @ (case Handler route of None \<Rightarrow> [] | Some h \<Rightarrow> [h])"
proof -
  obtain on where on: "parent_router (rtr r) route = Some on"
    using assms by (cases "parent_router (rtr r) route")
      (auto simp: parseProtoRoute_def parent_router_def get_finds_named_def Let_def split: if_splits)
  have g: "snd (run_matchers order (Matchers route) [] False) = is_grpc_route route"
    and c: "fst (run_matchers order (Matchers route) [] False) = route_calls order route"
    by (simp_all add: run_matchers_eq is_grpc_route_def matcher_grpc route_calls_def)
  have par: "(if ParentName route \<noteq> '''' then map_option SubrouterOf (mux_Get (rtr r) (ParentName route))
      else Some RootRouter) = Some on"
    using on assms(1) by (simp add: parent_router_def get_finds_named_def split: if_splits)
  show ?thesis
    using assms(2) on unfolding parseProtoRoute_def par Let_def split_beta g c
    by (auto simp: route_backend_def set_handler_def split: option.splits outcome.splits if_splits)
qed

lemma parseProtoRoute_no_parent:
  assumes "get_finds_named mux_Get" and "ParentName route \<noteq> ''''"
    and "ParentName route \<notin> mux_name ` set (rtr r)"
  shows "parseProtoRoute mux_Get order route r = (Panic NilDereference, r)"
  using assms by (simp add: parseProtoRoute_def get_finds_named_def named_route_None [THEN iffD2])

lemma parse_all_Ok:
  assumes "get_finds_named mux_Get"
  shows "for_each (parseProtoRoute mux_Get order) routes r = (Ok (), r') \<Longrightarrow>
    provs r' = provs r \<and> length (rtr r') = length (rtr r) + length routes
    \<and> take (length (rtr r)) (rtr r') = rtr r
    \<and> handlers r' = handlers r @ List.map_filter Handler routes
    \<and> (\<forall>i < length routes. \<exists>on b. parent_router (take (length (rtr r) + i) (rtr r')) (routes ! i) = Some on
         \<and> route_backend (provs r) (routes ! i) = Ok b
         \<and> rtr r' ! (length (rtr r) + i) = \<lparr>created_on = on, mux_name = Name (routes ! i),
             matcher_calls = route_calls order (routes ! i), mux_handler = b\<rparr>)"
proof (induction routes arbitrary: r)
  case (Cons route routes)
  then obtain r1 where one: "parseProtoRoute mux_Get order route r = (Ok (), r1)"
    and rest: "for_each (parseProtoRoute mux_Get order) routes r1 = (Ok (), r')"
    by (auto simp: and_then_Ok_iff)
  obtain on b where r1: "parent_router (rtr r) route = Some on" "route_backend (provs r) route = Ok b"
    "rtr r1 = rtr r @ [\<lparr>created_on = on, mux_name = Name route, matcher_calls = route_calls order route, mux_handler = b\<rparr>]"
    "provs r1 = provs r" "handlers r1 = handlers r @ (case Handler route of None \<Rightarrow> [] | Some h \<Rightarrow> [h])"
    using parseProtoRoute_Ok [OF assms one] by blast
  note IH = Cons.IH [OF rest]
  from IH r1(3) have pre: "take (Suc (length (rtr r))) (rtr r') = rtr r1" and len: "length (rtr r') = Suc (length (rtr r)) + length routes"
    by simp_all
  then have take: "take (length (rtr r)) (rtr r') = rtr r"
    by (metis append_eq_conv_conj le_add2 min_def plus_1_eq_Suc r1(3) take_take)
  have nth: "rtr r' ! length (rtr r) = \<lparr>created_on = on, mux_name = Name route, matcher_calls = route_calls order route, mux_handler = b\<rparr>"
    by (metis lessI nth_append_length nth_take pre r1(3))
  have "\<exists>on b. parent_router (take (length (rtr r) + i) (rtr r')) ((route # routes) ! i) = Some on
         \<and> route_backend (provs r) ((route # routes) ! i) = Ok b
         \<and> rtr r' ! (length (rtr r) + i) = \<lparr>created_on = on, mux_name = Name ((route # routes) ! i),
             matcher_calls = route_calls order ((route # routes) ! i), mux_handler = b\<rparr>"
    if "i < length (route # routes)" for i
  proof (cases i)
    case 0
    with r1(1,2) take nth show ?thesis by simp
  next
    case (Suc j)
    with that IH r1(3,4) show ?thesis by auto
  qed
  moreover have "handlers r' = handlers r @ List.map_filter Handler (route # routes)"
    using IH r1(5) by (auto simp: map_filter_simps split: option.split)
  ultimately show ?case using IH r1(4) len take by simp
qed (simp add: map_filter_simps)

lemma last_filter_upt:
  "j < n \<Longrightarrow> P j \<Longrightarrow> filter P [0..<n] \<noteq> [] \<and> j \<le> last (filter P [0..<n])"
  by (induction n) (auto simp: less_Suc_eq)

lemma named_route_last:
  assumes "named_route rs name = Some i"
  shows "i < length rs \<and> mux_name (rs ! i) = name \<and> (\<forall>j < length rs. i < j \<longrightarrow> mux_name (rs ! j) \<noteq> name)"
proof -
  let ?is = "filter (\<lambda>i. mux_name (rs ! i) = name) [0..<length rs]"
  from assms have i: "?is \<noteq> []" "i = last ?is" by (auto simp: named_route_def Let_def split: if_splits)
  then have "i \<in> set ?is" by (metis last_in_set)
  moreover have "mux_name (rs ! j) \<noteq> name" if "j < length rs" "i < j" for j
    using last_filter_upt [of j "length rs" "\<lambda>i. mux_name (rs ! i) = name"] that i(2) by auto
  ultimately show ?thesis by simp
qed

text \<open>A route whose parent is known and whose backend can be made is parsed.\<close>

lemma parseProtoRoute_succeeds:
  assumes "get_finds_named mux_Get" and "ParentName route = '''' \<or> ParentName route \<in> mux_name ` set (rtr r)"
    and "route_backend (provs r) route = Ok b"
  shows "fst (parseProtoRoute mux_Get order route r) = Ok ()"
proof -
  have "\<exists>on. (if ParentName route \<noteq> '''' then map_option SubrouterOf (mux_Get (rtr r) (ParentName route))
      else Some RootRouter) = Some on"
    using assms(1,2) named_route_None [of "rtr r" "ParentName route"]
    by (auto simp: get_finds_named_def)
  then obtain on where par: "(if ParentName route \<noteq> '''' then map_option SubrouterOf (mux_Get (rtr r) (ParentName route))
      else Some RootRouter) = Some on" by blast
  have g: "snd (run_matchers order (Matchers route) [] False) = is_grpc_route route"
    by (simp add: run_matchers_eq is_grpc_route_def matcher_grpc)
  show ?thesis
    using assms(3) unfolding parseProtoRoute_def par Let_def split_beta g
    by (auto simp: route_backend_def split: option.splits outcome.splits if_splits)
qed

definition parents_first :: "Router_Route list \<Rightarrow> bool" where
  "parents_first routes \<longleftrightarrow>
     (\<forall>i < length routes. ParentName (routes ! i) = '''' \<or> ParentName (routes ! i) \<in> Name ` set (take i routes))"

lemma parse_prefix:
  assumes "get_finds_named mux_Get"
    and "\<forall>i < length routes. ParentName (routes ! i) = ''''
           \<or> ParentName (routes ! i) \<in> mux_name ` set (rtr r) \<union> Name ` set (take i routes)"
    and "\<forall>route \<in> set routes. \<exists>b. route_backend (provs r) route = Ok b"
  shows "fst (for_each (parseProtoRoute mux_Get order) routes r) = Ok ()"
  using assms(2,3)
proof (induction routes arbitrary: r)
  case (Cons route routes)
  from Cons.prems(1) have "ParentName route = '''' \<or> ParentName route \<in> mux_name ` set (rtr r)"
    by fastforce
  moreover from Cons.prems(2) obtain b where "route_backend (provs r) route = Ok b" by auto
  ultimately have "fst (parseProtoRoute mux_Get order route r) = Ok ()"
    by (rule parseProtoRoute_succeeds [OF assms(1)])
  then obtain r1 where one: "parseProtoRoute mux_Get order route r = (Ok (), r1)" by (metis prod.collapse)
  from parseProtoRoute_Ok [OF assms(1) one]
  have r1: "mux_name ` set (rtr r1) = insert (Name route) (mux_name ` set (rtr r))" "provs r1 = provs r" by auto
  have "fst (for_each (parseProtoRoute mux_Get order) routes r1) = Ok ()"
  proof (rule Cons.IH)
    show "\<forall>i < length routes. ParentName (routes ! i) = ''''
        \<or> ParentName (routes ! i) \<in> mux_name ` set (rtr r1) \<union> Name ` set (take i routes)"
      using Cons.prems(1) unfolding r1 by fastforce
  qed (use Cons.prems(2) r1 in simp)
  with one show ?case by simp
qed simp

subsection \<open>Providers\<close>

text \<open>
  What the router relies on of a \<open>BackendProvider\<close>: it makes a backend for every handler whose
  backend is set.
\<close>

locale backend_contract =
  fixes grpc_backend :: "Router_Handler \<Rightarrow> 'h outcome"
    and http_backend :: "Router_Handler \<Rightarrow> 'h outcome"
  assumes grpc_total: "Backend h \<noteq> None \<Longrightarrow> \<exists>b. grpc_backend h = Ok b"
    and http_total: "Backend h \<noteq> None \<Longrightarrow> \<exists>b. http_backend h = Ok b"
begin

lemma backend_made:
  assumes "fmlookup ps AWSBackendProvider = Some \<lparr>ToGrpcBackend = grpc_backend, ToHttpBackend = http_backend\<rparr>"
    and "\<forall>h. Handler route = Some h \<longrightarrow> Backend h \<noteq> None"
  shows "\<exists>b. route_backend ps route = Ok b"
proof (cases "Handler route")
  case (Some h)
  with assms(2) have h: "Backend h \<noteq> None" by simp
  then have "backend_key h = AWSBackendProvider"
    by (auto simp: backend_key_def split: Router_Handler_Backend.split)
  moreover obtain g p where "grpc_backend h = Ok g" "http_backend h = Ok p"
    using grpc_total [OF h] http_total [OF h] by blast
  ultimately show ?thesis using Some assms(1) by (simp add: route_backend_def)
qed (simp add: route_backend_def)

end

subsection \<open>Properties\<close>

lemma NewRouter_Ok:
  "NewRouter mux_Get order (routerOpts providers config) = Ok r \<Longrightarrow>
     for_each (parseProtoRoute mux_Get order) (Routes config)
       \<lparr>rtr = [], provs = fold (\<lambda>(k, p). fmupd k p) providers fmempty, handlers = []\<rparr> = (Ok (), r)"
  by (auto simp: NewRouter_options parseProtoRouterConfig_def split: prod.splits outcome.splits)

lemma NewRouter_backend:
  assumes "get_finds_named mux_Get" and "NewRouter mux_Get order (routerOpts providers config) = Ok r"
    and "i < length (Routes config)"
  shows "i < length (rtr r)
    \<and> route_backend (fold (\<lambda>(k, p). fmupd k p) providers fmempty) (Routes config ! i) = Ok (mux_handler (rtr r ! i))"
  using parse_all_Ok [OF assms(1) NewRouter_Ok [OF assms(2)]] assms(3) by fastforce

text \<open>
  The first route whose backend cannot be made, when the routes up to it list their parents first,
  decides what \<open>NewRouter\<close> panics with.
\<close>

lemma NewRouter_backend_fails:
  assumes law: "get_finds_named mux_Get" and split: "Routes config = before @ route # behind"
    and before: "\<forall>r \<in> set before. \<exists>b. route_backend (fold (\<lambda>(k, p). fmupd k p) providers fmempty) r = Ok b"
    and parents: "parents_first (before @ [route])"
    and fails: "route_backend (fold (\<lambda>(k, p). fmupd k p) providers fmempty) route = bad" "\<forall>b. bad \<noteq> Ok b"
  shows "NewRouter mux_Get order (routerOpts providers config) =
    (case bad of Ok b \<Rightarrow> undefined | Err e \<Rightarrow> Panic (PanicValue e) | Panic p \<Rightarrow> Panic p)"
proof -
  let ?r0 = "\<lparr>rtr = [], provs = fold (\<lambda>(k, p). fmupd k p) providers fmempty, handlers = []\<rparr>"
  have par: "ParentName ((before @ [route]) ! i) = '''' \<or>
      ParentName ((before @ [route]) ! i) \<in> Name ` set (take i (before @ [route]))" if "i < Suc (length before)" for i
    using parents that unfolding parents_first_def by simp
  have "ParentName (before ! i) = '''' \<or> ParentName (before ! i) \<in> Name ` set (take i before)"
    if "i < length before" for i
    using par [of i] that by (simp add: nth_append)
  then have "fst (for_each (parseProtoRoute mux_Get order) before ?r0) = Ok ()"
    using before by (intro parse_prefix [OF law]) auto
  then obtain r1 where pre: "for_each (parseProtoRoute mux_Get order) before ?r0 = (Ok (), r1)"
    by (metis prod.collapse)
  note r1 = parse_all_Ok [OF law pre]
  have "map mux_name (rtr r1) = map Name before"
    using r1 by (intro nth_equalityI) fastforce+
  then have "mux_name ` set (rtr r1) = Name ` set before" by (metis list.set_map)
  with par [of "length before"] have "ParentName route = '''' \<or> ParentName route \<in> mux_name ` set (rtr r1)"
    by simp
  then have "\<exists>on. (if ParentName route \<noteq> '''' then map_option SubrouterOf (mux_Get (rtr r1) (ParentName route))
      else Some RootRouter) = Some on"
    using law named_route_None [of "rtr r1" "ParentName route"] by (auto simp: get_finds_named_def)
  then obtain on where on: "(if ParentName route \<noteq> '''' then map_option SubrouterOf (mux_Get (rtr r1) (ParentName route))
      else Some RootRouter) = Some on" by blast
  have g: "snd (run_matchers order (Matchers route) [] False) = is_grpc_route route"
    by (simp add: run_matchers_eq is_grpc_route_def matcher_grpc)
  obtain h where h: "Handler route = Some h"
    using fails by (cases "Handler route") (auto simp: route_backend_def)
  have "\<exists>r2. parseProtoRoute mux_Get order route r1 = (map_outcome (\<lambda>_. ()) bad, r2)"
    using r1 fails unfolding parseProtoRoute_def on Let_def split_beta g
    by (auto simp: h route_backend_def split: option.splits outcome.splits if_splits)
  then show ?thesis
    using fails(2) by (cases bad) (auto simp: NewRouter_options parseProtoRouterConfig_def split for_each_append pre)
qed

text \<open>For the witnesses: a root route, a route below it with a handler, and a provider.\<close>

definition sample_handler :: Router_Handler where
  "sample_handler = \<lparr>Backend = Some (Router_Handler_AwsLambda
     \<lparr>FunctionName = ''f'', Qualifier = ''live'', EnableHealthCheck = False\<rparr>)\<rparr>"

definition root_route :: Router_Route where
  "root_route = \<lparr>Name = ''root'', ParentName = [], Matchers = [\<lparr>Rule = Some (Router_Route_Matcher_Host ''a.b'')\<rparr>],
     Handler = None\<rparr>"

definition leaf_route :: Router_Route where
  "leaf_route = \<lparr>Name = ''leaf'', ParentName = ''root'',
     Matchers = [\<lparr>Rule = Some (Router_Route_Matcher_IsGrpcCall True)\<rparr>], Handler = Some sample_handler\<rparr>"

abbreviation sample_provider :: "string backend_provider" where
  "sample_provider \<equiv> \<lparr>ToGrpcBackend = (\<lambda>_. Ok ''grpc''), ToHttpBackend = (\<lambda>_. Ok ''http'')\<rparr>"

lemma named_route_law: "get_finds_named named_route"
  by (simp add: get_finds_named_def)

text \<open>The call a rule should make, and the backend that should serve a route.\<close>

definition expected_call ::
  "((string, string) gomap \<Rightarrow> string list) \<Rightarrow> Router_Route_Matcher \<Rightarrow> matcher_call option"
where
  "expected_call order = (\<lambda>m.
     case Rule m of
       Some (Router_Route_Matcher_Host h) \<Rightarrow> Some (Call_Host h)
     | Some (Router_Route_Matcher_Path p) \<Rightarrow> Some (Call_Path p)
     | Some (Router_Route_Matcher_PathPrefix p) \<Rightarrow> Some (Call_PathPrefix p)
     | Some (Router_Route_Matcher_Methods ms) \<Rightarrow>
         Some (Call_Methods (map (map_get Router_Route_MethodsRule_Method_name) ms))
     | Some (Router_Route_Matcher_Schemes ss) \<Rightarrow>
         Some (Call_Schemes (map (map_get Router_Route_SchemesRule_Scheme_name) ss))
     | Some (Router_Route_Matcher_Headers hs) \<Rightarrow>
         Some (Call_Headers (replicate (fcard (fmdom hs)) '''' @
                   concat (map (\<lambda>k. case fmlookup hs k of None \<Rightarrow> [] | Some v \<Rightarrow> [k, v]) (order hs))))
     | Some (Router_Route_Matcher_HeadersRegexp hs) \<Rightarrow>
         Some (Call_HeadersRegexp (replicate (fcard (fmdom hs)) '''' @
                   concat (map (\<lambda>k. case fmlookup hs k of None \<Rightarrow> [] | Some v \<Rightarrow> [k, v]) (order hs))))
     | Some (Router_Route_Matcher_Queries qs) \<Rightarrow>
         Some (Call_Queries (replicate (fcard (fmdom qs)) '''' @
                   concat (map (\<lambda>k. case fmlookup qs k of None \<Rightarrow> [] | Some v \<Rightarrow> [k, v]) (order qs))))
     | Some (Router_Route_Matcher_IsGrpcCall b) \<Rightarrow> (if b then Some Call_MatcherFunc else None)
     | None \<Rightarrow> None)"

lemma route_calls_expected:
  "route_calls order route = List.map_filter (expected_call order) (Matchers route)"
proof -
  have "fst (matcher_call order m) = expected_call order m" for m
    by (simp add: matcher_call_def expected_call_def pair_arguments_def append_pairs_eq
        split: option.split Router_Route_Matcher_Rule.split)
  then have "fst \<circ> matcher_call order = expected_call order" by (simp add: fun_eq_iff)
  then show ?thesis by (simp add: route_calls_def)
qed

lemma provider_lookup: "fmlookup (fold (\<lambda>(k, p). fmupd k p) ps m) k = (case map_of (rev ps) k of None \<Rightarrow> fmlookup m k | Some p \<Rightarrow> Some p)"
  by (induction ps arbitrary: m) (auto simp: map_add_def split: option.split)

lemma backend_key_aws [simp]: "backend_key h = AWSBackendProvider"
  by (simp add: backend_key_def AWSBackendProvider_def split: option.split Router_Handler_Backend.split)

lemma route_backend_expected:
  assumes "route_backend (fold (\<lambda>(k, p). fmupd k p) providers fmempty) route = Ok served"
  shows "case Handler route of
      None \<Rightarrow> served = None
    | Some h \<Rightarrow> \<exists>prov b. map_of (rev providers) AWSBackendProvider = Some prov
        \<and> (if \<exists>m \<in> set (Matchers route). Rule m = Some (Router_Route_Matcher_IsGrpcCall True)
           then ToGrpcBackend prov h else ToHttpBackend prov h) = Ok b
        \<and> served = Some b"
proof (cases "Handler route")
  case (Some h)
  from assms obtain prov where prov: "map_of (rev providers) AWSBackendProvider = Some prov"
    by (auto simp: route_backend_def Some provider_lookup split: option.splits)
  define made where "made = (if is_grpc_route route then ToGrpcBackend prov h else ToHttpBackend prov h)"
  have "route_backend (fold (\<lambda>(k, p). fmupd k p) providers fmempty) route =
      (case made of Ok b \<Rightarrow> Ok (Some b) | Err e \<Rightarrow> Err e | Panic p \<Rightarrow> Panic p)"
    by (simp add: route_backend_def Some provider_lookup prov made_def)
  with assms obtain b where "made = Ok b" "served = Some b" by (cases made) auto
  with prov Some show ?thesis by (simp add: made_def is_grpc_route_def)
qed (use assms in \<open>simp add: route_backend_def\<close>)

text \<open>
  C30. When \<open>NewRouter\<close> returns, it has created one mux route per configured route, in order, with the
  route's name and, for its matchers in order, the mux call of each rule: the host, path and prefix as
  they are, the names of the methods and schemes, the pairs of a map behind as many empty strings as it
  has entries, and the gRPC test where it is asked for; a matcher without a rule makes no call. A route
  without a parent stands on the root router, and one with a parent on the subrouter of the latest
  earlier route of that name. A route with a handler is served by what the last provider given for AWS
  makes of it, a gRPC backend exactly when one of its matchers asks for gRPC calls; a route without one
  has no handler. The handlers it health checks are those of the routes, in order.
\<close>

theorem NewRouter_structure:
  assumes "get_finds_named mux_Get" and "NewRouter mux_Get order (routerOpts providers config) = Ok r"
  shows "length (rtr r) = length (Routes config) \<and> handlers r = List.map_filter Handler (Routes config)
    \<and> (\<forall>i < length (Routes config).
         mux_name (rtr r ! i) = Name (Routes config ! i)
         \<and> matcher_calls (rtr r ! i) = List.map_filter (\<lambda>m.
             case Rule m of
               Some (Router_Route_Matcher_Host h) \<Rightarrow> Some (Call_Host h)
             | Some (Router_Route_Matcher_Path p) \<Rightarrow> Some (Call_Path p)
             | Some (Router_Route_Matcher_PathPrefix p) \<Rightarrow> Some (Call_PathPrefix p)
             | Some (Router_Route_Matcher_Methods ms) \<Rightarrow>
                 Some (Call_Methods (map (map_get Router_Route_MethodsRule_Method_name) ms))
             | Some (Router_Route_Matcher_Schemes ss) \<Rightarrow>
                 Some (Call_Schemes (map (map_get Router_Route_SchemesRule_Scheme_name) ss))
             | Some (Router_Route_Matcher_Headers hs) \<Rightarrow>
                 Some (Call_Headers (replicate (fcard (fmdom hs)) '''' @
                   concat (map (\<lambda>k. case fmlookup hs k of None \<Rightarrow> [] | Some v \<Rightarrow> [k, v]) (order hs))))
             | Some (Router_Route_Matcher_HeadersRegexp hs) \<Rightarrow>
                 Some (Call_HeadersRegexp (replicate (fcard (fmdom hs)) '''' @
                   concat (map (\<lambda>k. case fmlookup hs k of None \<Rightarrow> [] | Some v \<Rightarrow> [k, v]) (order hs))))
             | Some (Router_Route_Matcher_Queries qs) \<Rightarrow>
                 Some (Call_Queries (replicate (fcard (fmdom qs)) '''' @
                   concat (map (\<lambda>k. case fmlookup qs k of None \<Rightarrow> [] | Some v \<Rightarrow> [k, v]) (order qs))))
             | Some (Router_Route_Matcher_IsGrpcCall b) \<Rightarrow> (if b then Some Call_MatcherFunc else None)
             | None \<Rightarrow> None) (Matchers (Routes config ! i))
         \<and> (case Handler (Routes config ! i) of
              None \<Rightarrow> mux_handler (rtr r ! i) = None
            | Some h \<Rightarrow> \<exists>prov b. map_of (rev providers) AWSBackendProvider = Some prov
                \<and> (if \<exists>m \<in> set (Matchers (Routes config ! i)). Rule m = Some (Router_Route_Matcher_IsGrpcCall True)
                   then ToGrpcBackend prov h else ToHttpBackend prov h) = Ok b
                \<and> mux_handler (rtr r ! i) = Some b)
         \<and> (if ParentName (Routes config ! i) = '''' then created_on (rtr r ! i) = RootRouter
            else \<exists>j < i. created_on (rtr r ! i) = SubrouterOf j \<and> Name (Routes config ! j) = ParentName (Routes config ! i)
                   \<and> (\<forall>k < i. j < k \<longrightarrow> Name (Routes config ! k) \<noteq> ParentName (Routes config ! i))))"
proof -
  let ?ps = "fold (\<lambda>(k, p). fmupd k p) providers fmempty"
  from parse_all_Ok [OF assms(1) NewRouter_Ok [OF assms(2)]]
  have len: "length (rtr r) = length (Routes config)" and hs: "handlers r = List.map_filter Handler (Routes config)"
    and entry: "\<forall>i < length (Routes config). \<exists>on b. parent_router (take i (rtr r)) (Routes config ! i) = Some on
         \<and> rtr r ! i = \<lparr>created_on = on, mux_name = Name (Routes config ! i),
             matcher_calls = route_calls order (Routes config ! i), mux_handler = b\<rparr>"
    by auto
  have name: "mux_name (rtr r ! j) = Name (Routes config ! j)" if "j < length (Routes config)" for j
    using entry that by fastforce
  have root: "created_on (rtr r ! i) = RootRouter"
    if "i < length (Routes config)" "ParentName (Routes config ! i) = ''''" for i
    using entry that by (fastforce simp: parent_router_def)
  have sub: "\<exists>j < i. created_on (rtr r ! i) = SubrouterOf j \<and> Name (Routes config ! j) = ParentName (Routes config ! i)
      \<and> (\<forall>k < i. j < k \<longrightarrow> Name (Routes config ! k) \<noteq> ParentName (Routes config ! i))"
    if i: "i < length (Routes config)" "ParentName (Routes config ! i) \<noteq> ''''" for i
  proof -
    obtain on b where on: "parent_router (take i (rtr r)) (Routes config ! i) = Some on"
      "created_on (rtr r ! i) = on" using entry i(1) by fastforce
    then obtain j where j: "named_route (take i (rtr r)) (ParentName (Routes config ! i)) = Some j" "on = SubrouterOf j"
      using i(2) by (auto simp: parent_router_def)
    from named_route_last [OF j(1)] i(1) len on(2) j(2) show ?thesis
      by (intro exI [of _ j]) (auto simp flip: name)
  qed
  have calls: "matcher_calls (rtr r ! i) = List.map_filter (expected_call order) (Matchers (Routes config ! i))"
    if "i < length (Routes config)" for i
    using entry that route_calls_expected [of order] by fastforce
  have served: "case Handler (Routes config ! i) of
              None \<Rightarrow> mux_handler (rtr r ! i) = None
            | Some h \<Rightarrow> \<exists>prov b. map_of (rev providers) AWSBackendProvider = Some prov
                \<and> (if \<exists>m \<in> set (Matchers (Routes config ! i)). Rule m = Some (Router_Route_Matcher_IsGrpcCall True)
                   then ToGrpcBackend prov h else ToHttpBackend prov h) = Ok b
                \<and> mux_handler (rtr r ! i) = Some b" if i: "i < length (Routes config)" for i
    by (rule route_backend_expected [OF conjunct2 [OF NewRouter_backend [OF assms(1,2) i]]])
  have parent: "if ParentName (Routes config ! i) = '''' then created_on (rtr r ! i) = RootRouter
      else \<exists>j < i. created_on (rtr r ! i) = SubrouterOf j \<and> Name (Routes config ! j) = ParentName (Routes config ! i)
             \<and> (\<forall>k < i. j < k \<longrightarrow> Name (Routes config ! k) \<noteq> ParentName (Routes config ! i))"
    if i: "i < length (Routes config)" for i
    using root [OF i] sub [OF i] by simp
  show ?thesis
    unfolding expected_call_def [symmetric]
    by (intro conjI allI impI len hs name calls served parent)
qed

theorem NewRouter_structure_witness:
  "\<exists>r. NewRouter named_route (\<lambda>_. []) (routerOpts [(AWSBackendProvider, sample_provider)] \<lparr>Routes = [root_route, leaf_route]\<rparr>) = Ok r
     \<and> length (rtr r) = 2 \<and> handlers r = [sample_handler]"
proof -
  have "\<exists>r. NewRouter named_route (\<lambda>_. []) (routerOpts [(AWSBackendProvider, sample_provider)] \<lparr>Routes = [root_route, leaf_route]\<rparr>) = Ok r"
    by (simp add: NewRouter_options parseProtoRouterConfig_def parseProtoRoute_def root_route_def leaf_route_def
        matcher_call_def sample_handler_def backend_key_def AWSBackendProvider_def named_route_def Let_def)
  then obtain r where r: "NewRouter named_route (\<lambda>_. []) (routerOpts [(AWSBackendProvider, sample_provider)] \<lparr>Routes = [root_route, leaf_route]\<rparr>) = Ok r" by blast
  with NewRouter_structure [OF named_route_law r] show ?thesis
    by (simp add: root_route_def leaf_route_def map_filter_simps)
qed

lemma NewRouter_not_Err: "NewRouter mux_Get order (routerOpts providers config) \<noteq> Err e"
  by (auto simp: NewRouter_options split: prod.splits outcome.splits)

lemma NewRouter_Ok_parents_first:
  assumes "get_finds_named mux_Get" and "NewRouter mux_Get order (routerOpts providers config) = Ok r"
  shows "parents_first (Routes config)"
proof -
  from parse_all_Ok [OF assms(1) NewRouter_Ok [OF assms(2)]]
  have entry: "\<forall>i < length (Routes config). \<exists>on b. parent_router (take i (rtr r)) (Routes config ! i) = Some on
         \<and> rtr r ! i = \<lparr>created_on = on, mux_name = Name (Routes config ! i),
             matcher_calls = route_calls order (Routes config ! i), mux_handler = b\<rparr>"
    and len: "length (rtr r) = length (Routes config)" by auto
  have "mux_name ` set (take i (rtr r)) = Name ` set (take i (Routes config))" for i
  proof -
    have "map mux_name (rtr r) = map Name (Routes config)"
      using entry len by (intro nth_equalityI) fastforce+
    then show ?thesis by (metis list.set_map take_map)
  qed
  then show ?thesis
    using entry named_route_None unfolding parents_first_def parent_router_def
    by (metis option.distinct(1) option.map(1))
qed

text \<open>
  A configuration in which some route is listed before its parent cannot be loaded: \<open>NewRouter\<close>
  panics, since the route it looks up does not exist yet and the code does not check the pointer.
\<close>

theorem NewRouter_child_first_panics:
  assumes "get_finds_named mux_Get" and "\<not> parents_first (Routes config)"
  shows "\<exists>p. NewRouter mux_Get order (routerOpts providers config) = Panic p"
  using assms NewRouter_Ok_parents_first NewRouter_not_Err
  by (cases "NewRouter mux_Get order (routerOpts providers config)") blast+

theorem NewRouter_child_first_panics_witness:
  "\<exists>p. NewRouter named_route (\<lambda>_. []) (routerOpts [(AWSBackendProvider, sample_provider)] \<lparr>Routes = [leaf_route, root_route]\<rparr>) = Panic p"
  by (rule NewRouter_child_first_panics [OF named_route_law])
     (auto simp: parents_first_def leaf_route_def intro!: exI [of _ 0])

text \<open>
  C31. A route with a non-empty headers rule matches no request: the names and values are appended
  behind as many empty strings as there are headers, so the arguments are odd in number or ask for a
  header with an empty name.
\<close>

theorem headers_rule_matches_nothing:
  assumes "headers_matcher match" and "enumerates (order m) m" and "m \<noteq> fmempty" and "'''' \<notin> fmdom' hdrs"
  shows "length (pair_arguments order m) = 3 * fcard (fmdom m) \<and> \<not> match (pair_arguments order m) hdrs"
proof -
  let ?n = "fcard (fmdom m)" and ?args = "pair_arguments order m"
  note shape = pair_arguments_shape [of order m, OF assms(2)]
  have n: "?n > 0" using assms(3) by (metis fcard_0_eq fmdom_empty fmrestrict_fset_dom fmrestrict_fset_null gr0I)
  have "\<not> match ?args hdrs"
  proof
    assume "match ?args hdrs"
    with assms(1) have "even (length ?args) \<and> (\<forall>i. 2 * i + 1 < length ?args \<longrightarrow> CanonicalHeaderKey (?args ! (2 * i)) \<in> fmdom' hdrs)"
      unfolding headers_matcher_def by blast
    then have even: "even (3 * ?n)" and named: "2 * 0 + 1 < 3 * ?n \<Longrightarrow> CanonicalHeaderKey (?args ! (2 * 0)) \<in> fmdom' hdrs"
      unfolding shape(1) by blast+
    have "2 * 0 + 1 < 3 * ?n" using n even by (cases "?n") auto
    with named have "CanonicalHeaderKey (?args ! 0) \<in> fmdom' hdrs" by simp
    moreover have "?args ! 0 = []"
      using shape(2) n by (metis nth_replicate nth_take)
    ultimately show False using assms(4) by simp
  qed
  with shape(1) show ?thesis by simp
qed

text \<open>
  The matcher of mux, for the witness: the pairs become a map, and every entry asks for a header with the
  canonical name, and for its value among those of the header unless it is empty.
\<close>

fun header_pairs :: "string list \<Rightarrow> (string, string) gomap \<Rightarrow> (string, string) gomap option" where
  "header_pairs [] m = Some m"
| "header_pairs [k] m = None"
| "header_pairs (k # v # args) m = header_pairs args (fmupd k v m)"

definition mux_headers_match :: "string list \<Rightarrow> (string, string list) gomap \<Rightarrow> bool" where
  "mux_headers_match args hdrs \<longleftrightarrow>
     (case header_pairs args fmempty of
        None \<Rightarrow> False
      | Some m \<Rightarrow>
          fBall (fmdom m) (\<lambda>k.
            case fmlookup hdrs (CanonicalHeaderKey k) of
              None \<Rightarrow> False
            | Some vs \<Rightarrow> map_get m k = '''' \<or> map_get m k \<in> set vs))"

lemma header_pairs_even: "header_pairs args m = Some m' \<Longrightarrow> even (length args)"
  by (induction args m rule: header_pairs.induct) auto

lemma header_pairs_keys:
  "header_pairs args m = Some m' \<Longrightarrow>
     fmdom' m \<subseteq> fmdom' m' \<and> (\<forall>i. 2 * i + 1 < length args \<longrightarrow> args ! (2 * i) \<in> fmdom' m')"
proof (induction args m rule: header_pairs.induct)
  case (3 k v args m)
  then have keys: "insert k (fmdom' m) \<subseteq> fmdom' m'" and rest: "\<forall>i. 2 * i + 1 < length args \<longrightarrow> args ! (2 * i) \<in> fmdom' m'"
    by simp_all
  have "(k # v # args) ! (2 * i) \<in> fmdom' m'" if "2 * i + 1 < length (k # v # args)" for i
    using keys rest that by (cases i) auto
  with keys show ?case by blast
qed simp_all

lemma mux_headers_law: "headers_matcher mux_headers_match"
proof -
  have "even (length args) \<and> (\<forall>i. 2 * i + 1 < length args \<longrightarrow> CanonicalHeaderKey (args ! (2 * i)) \<in> fmdom' hdrs)"
    if match: "mux_headers_match args hdrs" for args hdrs
  proof -
    from match obtain m where m: "header_pairs args fmempty = Some m"
      and all: "\<forall>k \<in> fmdom' m. CanonicalHeaderKey k \<in> fmdom' hdrs"
      by (auto simp: mux_headers_match_def fmdom'_alt_def fmlookup_dom_iff split: option.splits)
    from all header_pairs_keys [OF m] header_pairs_even [OF m] show ?thesis by blast
  qed
  then show ?thesis by (simp add: headers_matcher_def)
qed

theorem headers_rule_matches_nothing_witness:
  "pair_arguments (\<lambda>_. [''x-tenant'']) (fmupd ''x-tenant'' ''a'' fmempty) = ['''', ''x-tenant'', ''a'']
   \<and> mux_headers_match [''x-tenant'', ''a''] (fmupd ''X-Tenant'' [''a''] fmempty)
   \<and> \<not> mux_headers_match (pair_arguments (\<lambda>_. [''x-tenant'']) (fmupd ''x-tenant'' ''a'' fmempty))
        (fmupd ''X-Tenant'' [''a''] fmempty)"
proof -
  have "enumerates [''x-tenant''] (fmupd ''x-tenant'' ''a'' fmempty :: (string, string) gomap)"
    by (simp add: enumerates_def)
  moreover have "(fmupd ''x-tenant'' ''a'' fmempty :: (string, string) gomap) \<noteq> fmempty"
    by (auto dest: arg_cong [where f = fmdom'])
  ultimately have "\<not> mux_headers_match (pair_arguments (\<lambda>_. [''x-tenant'']) (fmupd ''x-tenant'' ''a'' fmempty))
        (fmupd ''X-Tenant'' [''a''] fmempty)"
    using headers_rule_matches_nothing [OF mux_headers_law, of "\<lambda>_. [''x-tenant'']" "fmupd ''x-tenant'' ''a'' fmempty"
        "fmupd ''X-Tenant'' [''a''] fmempty"] by fastforce
  moreover have "CanonicalHeaderKey ''x-tenant'' = ''X-Tenant''" by code_simp
  ultimately show ?thesis by (simp add: pair_arguments_def fcard_finsert_if mux_headers_match_def)
qed

text \<open>
  A configuration with a route that has a handler cannot be loaded without a provider: the first
  such route, when the routes up to it list their parents first, makes \<open>NewRouter\<close> panic with
  \<open>ErrNoBackendProvider\<close>.
\<close>

theorem NewRouter_without_provider:
  assumes "get_finds_named mux_Get" and "Routes config = before @ route # behind"
    and "\<forall>r \<in> set before. Handler r = None" and "Handler route \<noteq> None" and "parents_first (before @ [route])"
  shows "NewRouter mux_Get order (routerOpts [] config) = Panic (PanicValue ErrNoBackendProvider)"
proof -
  obtain h where "Handler route = Some h" using assms(4) by blast
  then have "route_backend (fold (\<lambda>(k, p). fmupd k p) [] fmempty) route = (Err ErrNoBackendProvider :: 'a option outcome)"
    by (simp add: route_backend_def)
  with NewRouter_backend_fails [OF assms(1,2) _ assms(5) this] assms(3) show ?thesis
    by (simp add: route_backend_def)
qed

theorem NewRouter_without_provider_witness:
  "NewRouter named_route (\<lambda>_. []) (routerOpts [] \<lparr>Routes = [root_route, leaf_route]\<rparr>)
   = (Panic (PanicValue ErrNoBackendProvider) :: string router outcome)"
  by (rule NewRouter_without_provider [OF named_route_law, where before = "[root_route]" and route = leaf_route and behind = "[]"])
     (simp_all add: root_route_def leaf_route_def parents_first_def less_Suc_eq)

end
