(* ===== verification/Base64.thy ===== *)
theory Base64
  imports Go_Prelude
begin

section \<open>Base64 (\<^verbatim>\<open>encoding/base64\<close>)\<close>

text \<open>
  \<open>base64.StdEncoding\<close> of the Go standard library, which the Lambda backends use for bodies: groups of
  three bytes are written as four digits, the last group is padded. The decoder ignores line ends and
  the unused low bits of a padded group, and refuses everything else. A byte is a \<open>char\<close>.
\<close>

definition base64_digit :: "nat \<Rightarrow> char" where
  "base64_digit n =
     (if n < 26 then char_of (65 + n)
      else if n < 52 then char_of (71 + n)
      else if n < 62 then char_of (n - 4)
      else if n = 62 then CHR ''+'' else CHR ''/'')"

definition base64_value :: "char \<Rightarrow> nat option" where
  "base64_value c =
     (let k = of_char c in
      if 65 \<le> k \<and> k \<le> 90 then Some (k - 65)
      else if 97 \<le> k \<and> k \<le> 122 then Some (k - 71)
      else if 48 \<le> k \<and> k \<le> 57 then Some (k + 4)
      else if c = CHR ''+'' then Some 62
      else if c = CHR ''/'' then Some 63
      else None)"

fun encode_bytes :: "nat list \<Rightarrow> string" where
  "encode_bytes [] = []"
| "encode_bytes [a] = [base64_digit (a div 4), base64_digit (a mod 4 * 16), CHR ''='', CHR ''='']"
| "encode_bytes [a, b] =
     [base64_digit (a div 4), base64_digit (a mod 4 * 16 + b div 16), base64_digit (b mod 16 * 4), CHR ''='']"
| "encode_bytes (a # b # c # r) =
     base64_digit (a div 4) # base64_digit (a mod 4 * 16 + b div 16)
     # base64_digit (b mod 16 * 4 + c div 64) # base64_digit (c mod 64) # encode_bytes r"

definition EncodeToString :: "string \<Rightarrow> string" where
  "EncodeToString bs = encode_bytes (map of_char bs)"

definition first_byte :: "nat \<Rightarrow> nat \<Rightarrow> char" where
  "first_byte a b = char_of (a * 4 + b div 16)"

definition second_byte :: "nat \<Rightarrow> nat \<Rightarrow> char" where
  "second_byte b c = char_of (b mod 16 * 16 + c div 4)"

definition third_byte :: "nat \<Rightarrow> nat \<Rightarrow> char" where
  "third_byte c d = char_of (c mod 4 * 64 + d)"

definition corrupt_input :: go_error where
  "corrupt_input = Foreign ''illegal base64 data''"

fun decode_quanta :: "string \<Rightarrow> go_error + string" where
  "decode_quanta [] = Inr []"
| "decode_quanta (a # b # c # d # r) =
     (case (base64_value a, base64_value b) of
        (Some va, Some vb) \<Rightarrow>
          (case (base64_value c, base64_value d) of
             (Some vc, Some vd) \<Rightarrow>
               (case decode_quanta r of
                  Inl e \<Rightarrow> Inl e
                | Inr bs \<Rightarrow> Inr (first_byte va vb # second_byte vb vc # third_byte vc vd # bs))
           | (Some vc, None) \<Rightarrow>
               (if d = CHR ''='' \<and> r = [] then Inr [first_byte va vb, second_byte vb vc] else Inl corrupt_input)
           | (None, _) \<Rightarrow>
               (if c = CHR ''='' \<and> d = CHR ''='' \<and> r = [] then Inr [first_byte va vb] else Inl corrupt_input))
      | _ \<Rightarrow> Inl corrupt_input)"
| "decode_quanta _ = Inl corrupt_input"

definition line_end :: "char \<Rightarrow> bool" where
  "line_end c \<longleftrightarrow> c = CHR 0x0D \<or> c = CHR 0x0A"

definition DecodeString :: "string \<Rightarrow> go_error + string" where
  "DecodeString s = decode_quanta (filter (\<lambda>c. \<not> line_end c) s)"

subsection \<open>Decoding what was encoded\<close>

lemma digit_range:
  "of_char (base64_digit n) = (if n < 26 then 65 + n else if n < 52 then 71 + n else if n < 62 then n - 4
     else if n = 62 then 43 else 47)"
  by (simp add: base64_digit_def)

lemma value_digit [simp]: "n < 64 \<Longrightarrow> base64_value (base64_digit n) = Some n"
proof -
  assume n: "n < 64"
  have plus: "base64_digit n = CHR ''+'' \<longleftrightarrow> (of_char (base64_digit n) :: nat) = 43"
    and slash: "base64_digit n = CHR ''/'' \<longleftrightarrow> (of_char (base64_digit n) :: nat) = 47"
    using of_char_eq_iff [where 'a = nat, of "base64_digit n" "CHR ''+''"]
      of_char_eq_iff [where 'a = nat, of "base64_digit n" "CHR ''/''"] by simp_all
  show ?thesis
    unfolding base64_value_def Let_def plus slash digit_range using n by auto
qed

lemma digit_not_line_end [simp]: "\<not> line_end (base64_digit n)"
proof
  assume "line_end (base64_digit n)"
  then have "(of_char (base64_digit n) :: nat) \<in> {10, 13}" by (auto simp: line_end_def)
  then show False unfolding digit_range by (auto split: if_splits)
qed

lemma pad_no_value [simp]: "base64_value (CHR ''='') = None" "\<not> line_end (CHR ''='')"
  by (simp_all add: base64_value_def line_end_def)

lemma encode_no_line_end: "filter (\<lambda>c. \<not> line_end c) (encode_bytes bs) = encode_bytes bs"
  by (induction bs rule: encode_bytes.induct) simp_all

lemma first_of_digits [simp]:
  "b < 256 \<Longrightarrow> first_byte (a div 4) (a mod 4 * 16 + b div 16) = char_of (a :: nat)"
  "first_byte (a div 4) (a mod 4 * 16) = char_of a"
  by (simp_all add: first_byte_def)

lemma second_of_digits [simp]:
  "b < 256 \<Longrightarrow> c < 256 \<Longrightarrow> second_byte (a mod 4 * 16 + b div 16) (b mod 16 * 4 + c div 64) = char_of (b :: nat)"
  "b < 256 \<Longrightarrow> second_byte (a mod 4 * 16 + b div 16) (b mod 16 * 4) = char_of b"
proof -
  assume b: "b < 256"
  then have d: "b div 16 < 16" by simp
  then have q: "(a mod 4 * 16 + b div 16) mod 16 = b div 16" by simp
  show "second_byte (a mod 4 * 16 + b div 16) (b mod 16 * 4) = char_of b"
    unfolding second_byte_def q by simp
  assume "c < 256"
  then have "(b mod 16 * 4 + c div 64) div 4 = b mod 16" by simp
  then show "second_byte (a mod 4 * 16 + b div 16) (b mod 16 * 4 + c div 64) = char_of b"
    unfolding second_byte_def q by simp
qed

lemma third_of_digits [simp]:
  "c < 256 \<Longrightarrow> third_byte (b mod 16 * 4 + c div 64) (c mod 64) = char_of (c :: nat)"
proof -
  assume "c < 256"
  then have "(b mod 16 * 4 + c div 64) mod 4 = c div 64" by simp
  then show ?thesis unfolding third_byte_def by simp
qed

lemma decode_encode_bytes:
  "\<forall>b \<in> set bs. b < 256 \<Longrightarrow> decode_quanta (encode_bytes bs) = Inr (map char_of bs)"
proof (induction bs rule: encode_bytes.induct)
  case (4 a b c r)
  have "a mod 4 * 16 + b div 16 < 64" "b mod 16 * 4 + c div 64 < 64" "a div 4 < 64"
    using 4(2) by auto
  with 4 show ?case by simp
next
  case (3 a b)
  have "a mod 4 * 16 + b div 16 < 64" "b mod 16 * 4 < 64" "a div 4 < 64" using 3 by auto
  with 3 show ?case by simp
next
  case (2 a)
  have "a mod 4 * 16 < 64" "a div 4 < 64" using 2 by auto
  with 2 show ?case by simp
qed simp

theorem DecodeString_EncodeToString [simp]: "DecodeString (EncodeToString bs) = Inr bs"
  by (simp add: DecodeString_def EncodeToString_def encode_no_line_end decode_encode_bytes comp_def)

end
