(* ===== verification/Lambda_Invoke.thy ===== *)
theory Lambda_Invoke
  imports Router_Proto Base64
begin

section \<open>Invoking a Lambda function (\<^verbatim>\<open>pkg/providers/aws/lambda\<close>)\<close>

text \<open>
  What the two backends and the health check share: the events of API Gateway, the call of
  \<open>Invoke\<close> and the body of a response. JSON, the AWS client, gRPC metadata and \<open>uuid\<close> are the fields of
  \<open>lambda_env\<close>; a pointer that may be nil is an \<open>option\<close>, and so is a map that may be nil.
  \<open>json_Unmarshal\<close> returns what it leaves in its destination and its error.
\<close>

type_synonym MD = "(string, string list) gomap"

record APIGatewayProxyRequest =
  HTTPMethod :: string
  Path :: string
  MultiValueHeaders :: "MD option"
  MultiValueQueryStringParameters :: "MD option"
  Body :: string
  IsBase64Encoded :: bool

record APIGatewayProxyResponse =
  StatusCode :: int
  Headers :: "(string, string) gomap option"
  response_MultiValueHeaders :: "MD option"
  response_Body :: string
  response_IsBase64Encoded :: bool

definition zero_response :: APIGatewayProxyResponse where
  "zero_response = \<lparr>StatusCode = 0, Headers = None, response_MultiValueHeaders = None,
     response_Body = [], response_IsBase64Encoded = False\<rparr>"

record InvokeInput =
  invoked_FunctionName :: string
  invoked_Qualifier :: string
  invoked_Payload :: string

record InvokeOutput =
  FunctionError :: "string option"
  output_Payload :: string

record lambda_env =
  json_Marshal :: "APIGatewayProxyRequest \<Rightarrow> go_error + string"
  Invoke :: "InvokeInput \<Rightarrow> InvokeOutput option \<times> go_error option"
  json_Unmarshal :: "string \<Rightarrow> APIGatewayProxyResponse \<Rightarrow> APIGatewayProxyResponse \<times> go_error option"
  NewString :: "nat \<Rightarrow> string"
  metadata_New :: "(string, string) gomap option \<Rightarrow> MD"
  metadata_Join :: "MD \<Rightarrow> MD option \<Rightarrow> MD"
  metadata_Set :: "string \<Rightarrow> string \<Rightarrow> MD \<Rightarrow> MD"

text \<open>
  The call of \<open>Invoke\<close> with the two tests that follow it: \<open>result.FunctionError\<close> is read before the
  error is looked at, which panics when the client returned no result.
\<close>

definition invoke :: "lambda_env \<Rightarrow> string \<Rightarrow> string \<Rightarrow> string \<Rightarrow> string outcome" where
  "invoke env name qual payload =
     (case Invoke env \<lparr>invoked_FunctionName = name, invoked_Qualifier = qual, invoked_Payload = payload\<rparr> of
        (None, _) \<Rightarrow> Panic NilDereference
      | (Some result, err) \<Rightarrow>
          (case FunctionError result of
             Some m \<Rightarrow> Err (Foreign (''function error: '' @ m))
           | None \<Rightarrow> (case err of Some e \<Rightarrow> Err e | None \<Rightarrow> Ok (output_Payload result))))"

definition response_bytes :: "APIGatewayProxyResponse \<Rightarrow> go_error + string" where
  "response_bytes r =
     (if response_IsBase64Encoded r then DecodeString (response_Body r) else Inr (response_Body r))"

text \<open>
  An environment whose Lambda functions answer every request that has a base64 body, with
  \<open>serve\<close> of the bytes in it.
\<close>

definition serves :: "lambda_env \<Rightarrow> (string \<Rightarrow> string) \<Rightarrow> bool" where
  "serves env serve \<longleftrightarrow>
     (\<forall>req bs. IsBase64Encoded req \<longrightarrow> DecodeString (Body req) = Inr bs \<longrightarrow>
        (\<exists>p. json_Marshal env req = Inr p \<and>
          (\<forall>name qual. \<exists>out r. invoke env name qual p = Ok out \<and> json_Unmarshal env out zero_response = (r, None)
             \<and> StatusCode r = 200 \<and> response_IsBase64Encoded r \<and> response_Body r = EncodeToString (serve bs))))"

text \<open>A function that echoes the bytes of its body, with a trivial JSON encoding, for the witnesses.\<close>

definition echo_env :: lambda_env where
  "echo_env = \<lparr>json_Marshal = (\<lambda>req. Inr (Body req)),
     Invoke = (\<lambda>inp. (Some \<lparr>FunctionError = None, output_Payload =
       (case DecodeString (invoked_Payload inp) of Inl e \<Rightarrow> [] | Inr bs \<Rightarrow> EncodeToString bs)\<rparr>, None)),
     json_Unmarshal = (\<lambda>p r. (r\<lparr>StatusCode := 200, response_Body := p, response_IsBase64Encoded := True\<rparr>, None)),
     NewString = (\<lambda>n. ''id''), metadata_New = (\<lambda>_. fmempty), metadata_Join = (\<lambda>a b. a),
     metadata_Set = (\<lambda>k v md. fmupd k [v] md)\<rparr>"

lemma invoke_echo:
  "invoke echo_env name qual p = Ok (case DecodeString p of Inl e \<Rightarrow> [] | Inr bs \<Rightarrow> EncodeToString bs)"
  by (simp add: invoke_def echo_env_def)

lemma echo_serves: "serves echo_env id"
  by (simp add: serves_def invoke_echo) (simp add: echo_env_def)

subsection \<open>The health check\<close>

text \<open>
  \<open>lambda_DoHealthcheck\<close> (\<open>DoHealthcheck\<close> of the package) asks the gRPC health service of a function and ignores every error it gets. The
  bytes of the request message are given by \<open>proto_Marshal\<close>; the status in the answer is decoded and
  dropped. The result is the request it sent, if it sent one, and whether the process survived.
\<close>

definition health_request :: "(string \<Rightarrow> string) \<Rightarrow> APIGatewayProxyRequest" where
  "health_request proto_Marshal =
     \<lparr>HTTPMethod = ''POST'', Path = ''grpc.health.v1.Health/Check'',
      MultiValueHeaders = Some fmempty, MultiValueQueryStringParameters = Some fmempty,
      Body = EncodeToString (proto_Marshal ''*''), IsBase64Encoded = True\<rparr>"

definition lambda_DoHealthcheck :: "lambda_env \<Rightarrow> (string \<Rightarrow> string) \<Rightarrow> LambdaBackend \<Rightarrow> InvokeInput \<times> unit outcome" where
  "lambda_DoHealthcheck env proto_Marshal b =
     (let payload = (case json_Marshal env (health_request proto_Marshal) of Inl _ \<Rightarrow> [] | Inr p \<Rightarrow> p);
          input = \<lparr>invoked_FunctionName = FunctionName b, invoked_Qualifier = Qualifier b, invoked_Payload = payload\<rparr>
      in (input, case Invoke env input of (None, _) \<Rightarrow> Panic NilDereference | (Some result, _) \<Rightarrow> Ok ()))"

end
