(* ===== verification/Grpc.thy ===== *)
theory Grpc
  imports Go_Prelude
begin

section \<open>The gRPC handler (\<^verbatim>\<open>pkg/server/grpc.go\<close>, \<^verbatim>\<open>grpc_codec.go\<close>)\<close>

text \<open>
  The handler serves every gRPC method as a stream of raw frames: one goroutine receives frames from
  the client and hands them to a method backend, another asks the backend for responses and sends
  them, and \<open>Handle\<close> waits for both. A byte slice is a \<open>string\<close>, a list of 8-bit characters. What the
  stream returns (received frames, failures of \<open>SetHeader\<close> and \<open>SendMsg\<close>) is an argument.
\<close>

subsection \<open>Status errors\<close>

text \<open>
  \<open>status.FromError\<close> finds a status in a status error and in an error that wraps one.
\<close>

fun status_FromError :: "go_error \<Rightarrow> bool" where
  "status_FromError (StatusError c m) = True"
| "status_FromError (StatusErrorf c m e) = True"
| "status_FromError (Wrapped m e) = status_FromError e"
| "status_FromError _ = False"

definition wrapGrpcError :: "go_error \<Rightarrow> go_error" where
  "wrapGrpcError err =
     (if status_FromError err then err else StatusErrorf StatusInternal ''Internal error: '' err)"

lemma wrapGrpcError_status [simp]: "status_FromError (wrapGrpcError err)"
  by (simp add: wrapGrpcError_def)

lemma wrapGrpcError_idem [simp]: "wrapGrpcError (wrapGrpcError err) = wrapGrpcError err"
  by (simp add: wrapGrpcError_def)

subsection \<open>The method backend and the stream\<close>

text \<open>
  The interface \<open>GrpcMethodBackend\<close>. The two goroutines share the backend without a lock. \<open>Request\<close>
  is therefore given by the assignments it makes, in order, and its result, so that the other
  goroutine can run between two of them; the other methods are single steps.
\<close>

record ('b, 'md) method_backend =
  Begin :: "'md \<Rightarrow> 'b \<Rightarrow> unit outcome \<times> 'b"
  Request :: "string \<Rightarrow> 'b \<Rightarrow> ('b \<Rightarrow> 'b) list \<times> unit outcome"
  Response :: "'b \<Rightarrow> (go_panic + 'md option \<times> string \<times> go_error option) \<times> 'b"
  EndMethod :: "'b \<Rightarrow> 'b"

record 'md server_stream =
  incomingMetadata :: "'md option"
  SetHeader :: "'md \<Rightarrow> go_error option"
  SendMsg :: "nat \<Rightarrow> go_error option"

text \<open>
  \<open>wrapGrpcFlow\<close> starts a flow in a goroutine, sends its result on an unbuffered channel and closes
  the channel: \<open>Offering r\<close> is the goroutine at its send, \<open>Closing r\<close> before the deferred close.
\<close>

datatype flow_channel =
    Running
  | Offering "go_error option"
  | Closing "go_error option"
  | ClosedCh "go_error option"

datatype 'b receive_pc =
    Beginning
  | Receiving
  | Requesting "('b \<Rightarrow> 'b) list" "unit outcome"

datatype 'md send_pc =
    Responding nat
  | Delivering nat "'md option" string "go_error option"

text \<open>\<open>Selecting i r s\<close> is the loop of \<open>Handle\<close> with what is left of its two channels (false: nil).\<close>

datatype handle_pc =
    Selecting nat bool bool
  | Ending "go_error option"
  | HandleReturned "go_error option"
  | HandleCrashed go_panic

record ('b, 'md) rpc =
  method_state :: 'b
  incoming :: "(go_error + string) list"
  receiver :: "'b receive_pc"
  receiveCh :: flow_channel
  sender :: "'md send_pc"
  sendCh :: flow_channel
  headers_set :: "'md list"
  sent_frames :: "string list"
  handle :: handle_pc

definition start_rpc :: "(go_error + string) list \<Rightarrow> 'b \<Rightarrow> ('b, 'md) rpc" where
  "start_rpc inc b =
     \<lparr>method_state = b, incoming = inc, receiver = Beginning, receiveCh = Running,
      sender = Responding 0, sendCh = Running, headers_set = [], sent_frames = [],
      handle = Selecting 0 True True\<rparr>"

text \<open>
  The handler with its one option (\<^verbatim>\<open>builder.go\<close>), and \<open>Handle\<close> up to its loop: without the option the call
  of the factory panics; otherwise it is the error of the factory, or the two goroutines. \<open>'st\<close> is what
  the factory sees of the stream.
\<close>

record ('st, 'b) grpcHandler =
  methodBackendFactory :: "('st \<Rightarrow> go_error + 'b) option"

datatype ('st, 'b) grpc_handler_option = WithGrpcMethodBackendFactory "'st \<Rightarrow> go_error + 'b"

fun apply_grpc_handler_option :: "('st, 'b) grpc_handler_option \<Rightarrow> ('st, 'b) grpcHandler \<Rightarrow> ('st, 'b) grpcHandler" where
  "apply_grpc_handler_option (WithGrpcMethodBackendFactory factory) g = g\<lparr>methodBackendFactory := Some factory\<rparr>"

definition NewGrpcHandler :: "('st, 'b) grpc_handler_option list \<Rightarrow> ('st, 'b) grpcHandler" where
  "NewGrpcHandler options = fold apply_grpc_handler_option options \<lparr>methodBackendFactory = None\<rparr>"

definition Handle :: "('st, 'b) grpcHandler \<Rightarrow> 'st \<Rightarrow> (go_error + string) list \<Rightarrow> ('b, 'md) rpc outcome" where
  "Handle g stream inc =
     (case methodBackendFactory g of
        None \<Rightarrow> Panic NilDereference
      | Some factory \<Rightarrow> (case factory stream of Inl err \<Rightarrow> Err err | Inr b \<Rightarrow> Ok (start_rpc inc b)))"

lemma Handle_starts: "Handle g stream inc = Ok s0 \<Longrightarrow> \<exists>b. s0 = start_rpc inc b"
  by (auto simp: Handle_def split: option.splits sum.splits)

lemma Handle_with_factory:
  "Handle (NewGrpcHandler [WithGrpcMethodBackendFactory factory]) stream inc =
     (case factory stream of Inl err \<Rightarrow> Err err | Inr b \<Rightarrow> Ok (start_rpc inc b))"
  by (simp add: Handle_def NewGrpcHandler_def)

subsection \<open>The two flows\<close>

text \<open>
  One step of \<open>grpcReceiveFrom\<close>; \<open>None\<close> while \<open>RecvMsg\<close> blocks. A panic ends the process.
\<close>

definition receive_error :: "go_error \<Rightarrow> go_error option" where
  "receive_error err = (if errors_Is err EOF then None else Some err)"

definition request_error :: "go_error \<Rightarrow> go_error option" where
  "request_error err = (if errors_Is err EOF then None else Some (wrapGrpcError err))"

definition grpcReceiveFrom ::
  "('b, 'md) method_backend \<Rightarrow> 'md server_stream \<Rightarrow> ('b, 'md) rpc \<Rightarrow> ('b, 'md) rpc option"
where
  "grpcReceiveFrom ops str s =
     (case receiver s of
        Beginning \<Rightarrow>
          (case incomingMetadata str of
             None \<Rightarrow> Some (s\<lparr>receiver := Receiving\<rparr>)
           | Some md \<Rightarrow>
               (case Begin ops md (method_state s) of
                  (Ok _, b) \<Rightarrow> Some (s\<lparr>method_state := b, receiver := Receiving\<rparr>)
                | (Err err, b) \<Rightarrow> Some (s\<lparr>method_state := b, receiveCh := Offering (Some (wrapGrpcError err))\<rparr>)
                | (Panic p, b) \<Rightarrow> Some (s\<lparr>method_state := b, handle := HandleCrashed p\<rparr>)))
      | Receiving \<Rightarrow>
          (case incoming s of
             [] \<Rightarrow> None
           | Inl err # rest \<Rightarrow> Some (s\<lparr>incoming := rest, receiveCh := Offering (receive_error err)\<rparr>)
           | Inr payload # rest \<Rightarrow>
               (let (writes, r) = Request ops payload (method_state s)
                in Some (s\<lparr>incoming := rest, receiver := Requesting writes r\<rparr>)))
      | Requesting (w # ws) r \<Rightarrow> Some (s\<lparr>method_state := w (method_state s), receiver := Requesting ws r\<rparr>)
      | Requesting [] r \<Rightarrow>
          (case r of
             Ok _ \<Rightarrow> Some (s\<lparr>receiver := Receiving\<rparr>)
           | Err err \<Rightarrow> Some (s\<lparr>receiveCh := Offering (request_error err)\<rparr>)
           | Panic p \<Rightarrow> Some (s\<lparr>handle := HandleCrashed p\<rparr>)))"

text \<open>
  One step of \<open>grpcSendFrom\<close>: the call of \<open>Response\<close>, or what the loop does with its results.
\<close>

definition deliver ::
  "'md server_stream \<Rightarrow> nat \<Rightarrow> 'md option \<Rightarrow> string \<Rightarrow> go_error option \<Rightarrow> ('b, 'md) rpc \<Rightarrow> ('b, 'md) rpc"
where
  "deliver str i md payload err s =
     (let failed = (if i = 0 then Option.bind md (SetHeader str) else None) in
      case failed of
        Some e \<Rightarrow> s\<lparr>sendCh := Offering (Some (StatusErrorf StatusInternal ''Unable to set header on server stream: '' e))\<rparr>
      | None \<Rightarrow>
          (let s1 = (case md of Some h \<Rightarrow> if i = 0 then s\<lparr>headers_set := headers_set s @ [h]\<rparr> else s | None \<Rightarrow> s) in
           if err \<noteq> None \<and> err \<noteq> Some EOF then s1\<lparr>sendCh := Offering (Some (wrapGrpcError (the err)))\<rparr>
           else
             (case SendMsg str (length (sent_frames s)) of
                Some e \<Rightarrow> s1\<lparr>sendCh := Offering (Some (StatusErrorf StatusInternal ''Error sending result to server stream: '' e))\<rparr>
              | None \<Rightarrow>
                  (let s2 = s1\<lparr>sent_frames := sent_frames s @ [payload]\<rparr> in
                   if err = Some EOF then s2\<lparr>sendCh := Offering None\<rparr>
                   else s2\<lparr>sender := Responding (Suc i)\<rparr>))))"

definition grpcSendFrom ::
  "('b, 'md) method_backend \<Rightarrow> 'md server_stream \<Rightarrow> ('b, 'md) rpc \<Rightarrow> ('b, 'md) rpc"
where
  "grpcSendFrom ops str s =
     (case sender s of
        Responding i \<Rightarrow>
          (case Response ops (method_state s) of
             (Inl p, b) \<Rightarrow> s\<lparr>method_state := b, handle := HandleCrashed p\<rparr>
           | (Inr (md, payload, err), b) \<Rightarrow> s\<lparr>method_state := b, sender := Delivering i md payload err\<rparr>)
      | Delivering i md payload err \<Rightarrow> deliver str i md payload err s)"

subsection \<open>The handler and its goroutines\<close>

text \<open>
  The steps of the three goroutines. The loop takes the result of a flow or sees its channel closed;
  after four such events, or at an error, the deferred \<open>End\<close> runs and \<open>Handle\<close> returns.
\<close>

fun take_result :: "go_error option \<Rightarrow> handle_pc \<Rightarrow> handle_pc" where
  "take_result None next_pc = next_pc"
| "take_result (Some err) next_pc = Ending (Some err)"

lemma take_result_no_crash [simp]: "take_result r (Selecting i rcv snd_open) \<noteq> HandleCrashed p"
  by (cases r) simp_all

definition crashed_rpc :: "('b, 'md) rpc \<Rightarrow> bool" where
  "crashed_rpc s = (case handle s of HandleCrashed p \<Rightarrow> True | _ \<Rightarrow> False)"

inductive rpc_step ::
  "('b, 'md) method_backend \<Rightarrow> 'md server_stream \<Rightarrow> ('b, 'md) rpc \<Rightarrow> ('b, 'md) rpc \<Rightarrow> bool"
  for ops str
where
  flow_receive: "\<not> crashed_rpc s \<Longrightarrow> receiveCh s = Running \<Longrightarrow> grpcReceiveFrom ops str s = Some t \<Longrightarrow>
     rpc_step ops str s t"
| flow_send: "\<not> crashed_rpc s \<Longrightarrow> sendCh s = Running \<Longrightarrow> rpc_step ops str s (grpcSendFrom ops str s)"
| close_receive: "\<not> crashed_rpc s \<Longrightarrow> receiveCh s = Closing r \<Longrightarrow> rpc_step ops str s (s\<lparr>receiveCh := ClosedCh r\<rparr>)"
| close_send: "\<not> crashed_rpc s \<Longrightarrow> sendCh s = Closing r \<Longrightarrow> rpc_step ops str s (s\<lparr>sendCh := ClosedCh r\<rparr>)"
| take_receive: "handle s = Selecting i True snd_open \<Longrightarrow> i < 4 \<Longrightarrow> receiveCh s = Offering r \<Longrightarrow>
     rpc_step ops str s (s\<lparr>receiveCh := Closing r, handle := take_result r (Selecting (Suc i) True snd_open)\<rparr>)"
| take_send: "handle s = Selecting i rcv_open True \<Longrightarrow> i < 4 \<Longrightarrow> sendCh s = Offering r \<Longrightarrow>
     rpc_step ops str s (s\<lparr>sendCh := Closing r, handle := take_result r (Selecting (Suc i) rcv_open True)\<rparr>)"
| see_receive_closed: "handle s = Selecting i True snd_open \<Longrightarrow> i < 4 \<Longrightarrow> receiveCh s = ClosedCh r \<Longrightarrow>
     rpc_step ops str s (s\<lparr>handle := Selecting (Suc i) False snd_open\<rparr>)"
| see_send_closed: "handle s = Selecting i rcv_open True \<Longrightarrow> i < 4 \<Longrightarrow> sendCh s = ClosedCh r \<Longrightarrow>
     rpc_step ops str s (s\<lparr>handle := Selecting (Suc i) rcv_open False\<rparr>)"
| loop_over: "handle s = Selecting i rcv_open snd_open \<Longrightarrow> \<not> i < 4 \<Longrightarrow>
     rpc_step ops str s (s\<lparr>handle := Ending None\<rparr>)"
| deferred_End: "handle s = Ending r \<Longrightarrow>
     rpc_step ops str s (s\<lparr>method_state := EndMethod ops (method_state s), handle := HandleReturned r\<rparr>)"

abbreviation rpc_steps ::
  "('b, 'md) method_backend \<Rightarrow> 'md server_stream \<Rightarrow> ('b, 'md) rpc \<Rightarrow> ('b, 'md) rpc \<Rightarrow> bool"
where
  "rpc_steps ops str \<equiv> (rpc_step ops str)\<^sup>*\<^sup>*"

text \<open>What a step of a flow leaves alone.\<close>

lemma receive_frame:
  "grpcReceiveFrom ops str s = Some t \<Longrightarrow>
     sendCh t = sendCh s \<and> sender t = sender s \<and> sent_frames t = sent_frames s \<and> headers_set t = headers_set s
     \<and> (handle t = handle s \<or> (\<exists>p. handle t = HandleCrashed p))
     \<and> (receiveCh t = receiveCh s \<or> (\<exists>r. receiveCh t = Offering r))"
  by (auto simp: grpcReceiveFrom_def Let_def split: receive_pc.splits option.splits list.splits sum.splits
      outcome.splits prod.splits)

lemma send_frame:
  "receiveCh (grpcSendFrom ops str s) = receiveCh s \<and> receiver (grpcSendFrom ops str s) = receiver s
   \<and> incoming (grpcSendFrom ops str s) = incoming s
   \<and> (handle (grpcSendFrom ops str s) = handle s \<or> (\<exists>p. handle (grpcSendFrom ops str s) = HandleCrashed p))
   \<and> (sendCh (grpcSendFrom ops str s) = sendCh s \<or> (\<exists>r. sendCh (grpcSendFrom ops str s) = Offering r))"
  by (auto simp: grpcSendFrom_def deliver_def Let_def split: send_pc.splits option.splits sum.splits
      prod.splits)

lemma receive_sendCh [simp]: "grpcReceiveFrom ops str s = Some t \<Longrightarrow> sendCh t = sendCh s"
  using receive_frame by blast

lemma send_receiveCh [simp]: "receiveCh (grpcSendFrom ops str s) = receiveCh s"
  using send_frame by blast

subsection \<open>The invariant of the loop\<close>

text \<open>
  The events the loop has seen of a channel; while it selects, no error has been taken.
\<close>

fun events_of :: "bool \<Rightarrow> flow_channel \<Rightarrow> nat \<Rightarrow> bool" where
  "events_of False (ClosedCh None) n = (n = 2)"
| "events_of True (ClosedCh None) n = (n = 1)"
| "events_of True (Closing None) n = (n = 1)"
| "events_of True Running n = (n = 0)"
| "events_of True (Offering r) n = (n = 0)"
| "events_of _ _ n = False"

fun offered :: "flow_channel \<Rightarrow> go_error option \<Rightarrow> bool" where
  "offered (Closing r) r' = (r = r')"
| "offered (ClosedCh r) r' = (r = r')"
| "offered _ r' = False"

fun handle_inv :: "handle_pc \<Rightarrow> flow_channel \<Rightarrow> flow_channel \<Rightarrow> bool" where
  "handle_inv (Selecting i rcv snd_open) rc sc = (\<exists>m n. events_of rcv rc m \<and> events_of snd_open sc n \<and> i = m + n)"
| "handle_inv (Ending None) rc sc = (rc = ClosedCh None \<and> sc = ClosedCh None)"
| "handle_inv (HandleReturned None) rc sc = (rc = ClosedCh None \<and> sc = ClosedCh None)"
| "handle_inv (Ending (Some e)) rc sc = (offered rc (Some e) \<or> offered sc (Some e))"
| "handle_inv (HandleReturned (Some e)) rc sc = (offered rc (Some e) \<or> offered sc (Some e))"
| "handle_inv (HandleCrashed p) rc sc = True"

lemma handle_inv_iffs [simp]:
  "handle_inv (Ending r) rc sc \<longleftrightarrow>
     (case r of None \<Rightarrow> rc = ClosedCh None \<and> sc = ClosedCh None | Some e \<Rightarrow> offered rc r \<or> offered sc r)"
  "handle_inv (HandleReturned r) rc sc = handle_inv (Ending r) rc sc"
  by (cases r; simp)+

lemma events_of_iffs:
  "events_of b Running n \<longleftrightarrow> b \<and> n = 0"
  "events_of b (Offering r) n \<longleftrightarrow> b \<and> n = 0"
  "events_of b (Closing r) n \<longleftrightarrow> b \<and> r = None \<and> n = 1"
  "events_of b (ClosedCh r) n \<longleftrightarrow> r = None \<and> n = (if b then 1 else 2)"
  by (cases b; cases r; simp)+

lemma events_of_le: "events_of b c n \<Longrightarrow> n \<le> 2 \<and> (n = 2 \<longleftrightarrow> \<not> b) \<and> (n = 2 \<longrightarrow> c = ClosedCh None)"
  by (cases c) (auto simp: events_of_iffs split: if_splits)

abbreviation rpc_inv :: "('b, 'md) rpc \<Rightarrow> bool" where
  "rpc_inv s \<equiv> handle_inv (handle s) (receiveCh s) (sendCh s)"

lemma offered_Running [simp]: "offered c r \<Longrightarrow> c \<noteq> Running" "offered c r \<Longrightarrow> c \<noteq> Offering r'"
  by (cases c; simp)+

lemma handle_inv_receive_offer:
  "handle_inv h Running sc \<Longrightarrow> handle_inv h (Offering r) sc"
  by (cases h) (auto simp: events_of_iffs split: option.splits)

lemma handle_inv_send_offer:
  "handle_inv h rc Running \<Longrightarrow> handle_inv h rc (Offering r)"
  by (cases h) (auto simp: events_of_iffs split: option.splits)

lemma rpc_inv_step: "rpc_step ops str s t \<Longrightarrow> rpc_inv s \<Longrightarrow> rpc_inv t"
proof (induction rule: rpc_step.induct)
  case (flow_receive s t)
  with receive_frame [OF flow_receive(3)] show ?case
    by (metis handle_inv.simps(6) handle_inv_receive_offer)
next
  case (flow_send s)
  with send_frame [of ops str s] show ?case
    by (metis handle_inv.simps(6) handle_inv_send_offer)
next
  case (close_receive s r)
  then show ?case by (cases "handle s") (auto simp: events_of_iffs split: option.splits)
next
  case (close_send s r)
  then show ?case by (cases "handle s") (auto simp: events_of_iffs split: option.splits)
next
  case (take_receive s i snd_open r)
  then show ?case by (cases r) (auto simp: events_of_iffs)
next
  case (take_send s i rcv_open r)
  then show ?case by (cases r) (auto simp: events_of_iffs)
next
  case (loop_over s i rcv_open snd_open)
  then obtain m n where "events_of rcv_open (receiveCh s) m" "events_of snd_open (sendCh s) n" "i = m + n" by auto
  with loop_over(2) events_of_le [of rcv_open "receiveCh s" m] events_of_le [of snd_open "sendCh s" n] show ?case by auto
qed (auto simp: events_of_iffs split: option.splits)

lemma rpc_inv_start: "rpc_inv (start_rpc inc b)"
  by (simp add: start_rpc_def)

lemma rpc_inv_steps: "rpc_steps ops str s t \<Longrightarrow> rpc_inv s \<Longrightarrow> rpc_inv t"
  by (induction rule: rtranclp_induct) (auto intro: rpc_inv_step)

lemma rpc_inv_reach:
  "Handle g stream inc = Ok s0 \<Longrightarrow> rpc_steps ops str s0 s \<Longrightarrow> rpc_inv s"
  by (blast dest: Handle_starts intro: rpc_inv_steps rpc_inv_start)

subsection \<open>The receiving flow alone\<close>

text \<open>The steps of the receiving goroutine while the others rest, and how they take it through one request.\<close>

definition receive_alone ::
  "('b, 'md) method_backend \<Rightarrow> 'md server_stream \<Rightarrow> ('b, 'md) rpc \<Rightarrow> ('b, 'md) rpc \<Rightarrow> bool"
where
  "receive_alone ops str s t \<longleftrightarrow>
     \<not> crashed_rpc s \<and> receiveCh s = Running \<and> grpcReceiveFrom ops str s = Some t"

lemma crashed_rpc_updates [simp]:
  "crashed_rpc (s\<lparr>method_state := b\<rparr>) = crashed_rpc s"
  "crashed_rpc (s\<lparr>incoming := inc\<rparr>) = crashed_rpc s"
  "crashed_rpc (s\<lparr>receiver := pc\<rparr>) = crashed_rpc s"
  "crashed_rpc (s\<lparr>receiveCh := c\<rparr>) = crashed_rpc s"
  "crashed_rpc (s\<lparr>handle := HandleCrashed p\<rparr>) = True"
  by (simp_all add: crashed_rpc_def)

lemma not_crashed_start [simp]: "\<not> crashed_rpc (start_rpc inc b)"
  by (simp add: start_rpc_def crashed_rpc_def)

lemma request_error_EOF [simp]: "request_error EOF = None"
  by (simp add: request_error_def)

lemma receive_writes:
  "\<not> crashed_rpc s \<Longrightarrow> receiveCh s = Running \<Longrightarrow> receiver s = Requesting ws r \<Longrightarrow>
     (receive_alone ops str)\<^sup>*\<^sup>* s
       (s\<lparr>method_state := fold (\<lambda>w. w) ws (method_state s), receiver := Requesting [] r\<rparr>)"
proof (induction ws arbitrary: s)
  case Nil
  then have "s\<lparr>method_state := fold (\<lambda>w. w) [] (method_state s), receiver := Requesting [] r\<rparr> = s" by (cases s) simp
  then show ?case by simp
next
  case (Cons w ws)
  let ?t = "s\<lparr>method_state := w (method_state s), receiver := Requesting ws r\<rparr>"
  have "receive_alone ops str s ?t" using Cons.prems by (simp add: receive_alone_def grpcReceiveFrom_def)
  moreover have "(receive_alone ops str)\<^sup>*\<^sup>* ?t
      (?t\<lparr>method_state := fold (\<lambda>w. w) ws (method_state ?t), receiver := Requesting [] r\<rparr>)"
    by (rule Cons.IH) (use Cons.prems in simp_all)
  ultimately show ?case by (simp add: converse_rtranclp_into_rtranclp)
qed

lemma receive_request_over:
  assumes "\<not> crashed_rpc s" and "receiveCh s = Running" and "receiver s = Requesting ws (Err EOF)"
  shows "(receive_alone ops str)\<^sup>*\<^sup>* s
    (s\<lparr>method_state := fold (\<lambda>w. w) ws (method_state s), receiver := Requesting [] (Err EOF), receiveCh := Offering None\<rparr>)"
proof -
  let ?t = "s\<lparr>method_state := fold (\<lambda>w. w) ws (method_state s), receiver := Requesting [] (Err EOF)\<rparr>"
  have "receive_alone ops str ?t (?t\<lparr>receiveCh := Offering None\<rparr>)"
    using assms by (simp add: receive_alone_def grpcReceiveFrom_def)
  with receive_writes [OF assms] show ?thesis by (rule rtranclp.rtrancl_into_rtrancl)
qed

text \<open>
  \<open>takes_request ops str payload b b0 ws\<close>: on a call whose backend is \<open>b\<close>, \<open>Begin\<close> leaves \<open>b0\<close>, and the
  request with this payload makes the assignments \<open>ws\<close> and ends the receiving flow with EOF.
\<close>

definition takes_request ::
  "('b, 'md) method_backend \<Rightarrow> 'md server_stream \<Rightarrow> string \<Rightarrow> 'b \<Rightarrow> 'b \<Rightarrow> ('b \<Rightarrow> 'b) list \<Rightarrow> bool"
where
  "takes_request ops str payload b b0 ws \<longleftrightarrow>
     (case incomingMetadata str of None \<Rightarrow> b0 = b | Some md \<Rightarrow> Begin ops md b = (Ok (), b0))
     \<and> Request ops payload b0 = (ws, Err EOF)"

lemma receive_starts_request:
  assumes "takes_request ops str payload b b0 ws"
  shows "(receive_alone ops str)\<^sup>*\<^sup>* (start_rpc (Inr payload # rest) b)
    ((start_rpc rest b0)\<lparr>receiver := Requesting ws (Err EOF)\<rparr>)"
proof -
  let ?s = "(start_rpc (Inr payload # rest) b0)\<lparr>receiver := Receiving\<rparr>"
  have "receive_alone ops str (start_rpc (Inr payload # rest) b) ?s"
    using assms by (auto simp: takes_request_def receive_alone_def grpcReceiveFrom_def start_rpc_def crashed_rpc_def
        split: option.splits)
  moreover have "receive_alone ops str ?s ((start_rpc rest b0)\<lparr>receiver := Requesting ws (Err EOF)\<rparr>)"
    using assms by (simp add: takes_request_def receive_alone_def grpcReceiveFrom_def start_rpc_def crashed_rpc_def)
  ultimately show ?thesis by (meson converse_rtranclp_into_rtranclp rtranclp.rtrancl_refl)
qed

lemma receive_one_request:
  assumes "takes_request ops str payload b b0 ws"
  shows "(receive_alone ops str)\<^sup>*\<^sup>* (start_rpc (Inr payload # rest) b)
    ((start_rpc rest (fold (\<lambda>w. w) ws b0))\<lparr>receiver := Requesting [] (Err EOF), receiveCh := Offering None\<rparr>)"
proof -
  let ?s = "(start_rpc rest b0)\<lparr>receiver := Requesting ws (Err EOF)\<rparr>"
  have "(receive_alone ops str)\<^sup>*\<^sup>* ?s
      ((start_rpc rest (fold (\<lambda>w. w) ws b0))\<lparr>receiver := Requesting [] (Err EOF), receiveCh := Offering None\<rparr>)"
    using receive_request_over [of ?s ws ops str] by (simp add: start_rpc_def crashed_rpc_def)
  with receive_starts_request [OF assms, of rest] show ?thesis by (rule rtranclp_trans)
qed

subsection \<open>Backends that report status errors\<close>

lemma status_not_EOF: "status_FromError e \<Longrightarrow> \<not> errors_Is e EOF"
  by (induction e) simp_all

text \<open>
  The contract of a backend whose errors are gRPC status errors or EOF: the handler then reports
  exactly the backend's errors.
\<close>

locale status_backend =
  fixes ops :: "('b, 'md) method_backend"
  assumes begin_status: "fst (Begin ops h b) = Err e \<Longrightarrow> status_FromError e"
    and request_status: "snd (Request ops payload b) = Err e \<Longrightarrow> e = EOF \<or> status_FromError e"
    and response_status: "fst (Response ops b) = Inr (md, payload, Some e) \<Longrightarrow> e = EOF \<or> status_FromError e"
begin

lemma request_error_kept:
  "snd (Request ops payload b) = Err e \<Longrightarrow> request_error e = (if e = EOF then None else Some e)"
  using request_status [of payload b e] status_not_EOF [of e] by (auto simp: request_error_def wrapGrpcError_def)

lemma response_error_kept:
  "fst (Response ops b) = Inr (md, payload, Some e) \<Longrightarrow> e \<noteq> EOF \<Longrightarrow> wrapGrpcError e = e"
  using response_status by (auto simp: wrapGrpcError_def)

end

subsection \<open>Completed calls\<close>

lemma receive_alone_step: "receive_alone ops str s t \<Longrightarrow> rpc_step ops str s t"
  by (auto simp: receive_alone_def intro: flow_receive)

lemma receive_alone_steps: "(receive_alone ops str)\<^sup>*\<^sup>* s t \<Longrightarrow> rpc_steps ops str s t"
  by (rule rtranclp_mono [THEN predicate2D]) (auto intro: receive_alone_step)

text \<open>
  Two flows that have ended without an error let \<open>Handle\<close> return nil: while it selects, it takes their
  two results and sees both channels closed.
\<close>

definition selecting :: "('b, 'md) rpc \<Rightarrow> bool" where
  "selecting s = (case handle s of Selecting i rcv snd_open \<Rightarrow> True | _ \<Rightarrow> False)"

fun flow_error :: "flow_channel \<Rightarrow> go_error option" where
  "flow_error Running = None"
| "flow_error (Offering r) = r"
| "flow_error (Closing r) = r"
| "flow_error (ClosedCh r) = r"

lemma offered_error: "offered c r \<Longrightarrow> flow_error c = r"
  by (cases c) simp_all

definition ended_well :: "flow_channel \<Rightarrow> bool" where
  "ended_well c \<longleftrightarrow> c = Offering None \<or> c = Closing None \<or> c = ClosedCh None"

lemma ended_well_iffs [simp]:
  "\<not> ended_well Running" "ended_well (Offering r) \<longleftrightarrow> r = None" "ended_well (Closing r) \<longleftrightarrow> r = None"
  "ended_well (ClosedCh r) \<longleftrightarrow> r = None"
  by (auto simp: ended_well_def)

lemma ended_well_error: "ended_well c \<longleftrightarrow> c \<noteq> Running \<and> flow_error c = None"
  by (cases c) auto

fun channel_left :: "flow_channel \<Rightarrow> nat" where
  "channel_left Running = 3"
| "channel_left (Offering r) = 2"
| "channel_left (Closing r) = 1"
| "channel_left (ClosedCh r) = 0"

fun handle_left :: "handle_pc \<Rightarrow> nat" where
  "handle_left (Selecting i rcv snd_open) = 5 - i"
| "handle_left _ = 0"

definition ends_as :: "('b, 'md) method_backend \<Rightarrow> ('b, 'md) rpc \<Rightarrow> ('b, 'md) rpc \<Rightarrow> bool" where
  "ends_as ops s u \<longleftrightarrow> handle u = HandleReturned None \<and> method_state u = EndMethod ops (method_state s)
     \<and> sent_frames u = sent_frames s \<and> headers_set u = headers_set s"

lemma ended_flows_step:
  assumes "handle s = Selecting i rcv snd_open" and "i < 4" and "rpc_inv s"
    and "ended_well (receiveCh s)" and "ended_well (sendCh s)"
  shows "\<exists>t. rpc_step ops str s t \<and> selecting t \<and> ended_well (receiveCh t) \<and> ended_well (sendCh t)
    \<and> method_state t = method_state s \<and> sent_frames t = sent_frames s \<and> headers_set t = headers_set s
    \<and> handle_left (handle t) + channel_left (receiveCh t) + channel_left (sendCh t)
      < handle_left (handle s) + channel_left (receiveCh s) + channel_left (sendCh s)"
proof -
  note h = assms(1,2)
  have nc: "\<not> crashed_rpc s" using h by (simp add: crashed_rpc_def)
  from assms(3) h(1) obtain m n where mn: "events_of rcv (receiveCh s) m" "events_of snd_open (sendCh s) n" "i = m + n"
    by auto
  consider "receiveCh s = Closing None" | "sendCh s = Closing None"
    | "receiveCh s = Offering None" | "sendCh s = Offering None"
    | "receiveCh s = ClosedCh None" "sendCh s = ClosedCh None"
    using assms(4,5) by (auto simp: ended_well_def)
  then show ?thesis
  proof cases
    case 1
    with close_receive [OF nc 1, of ops str] h assms(5) show ?thesis
      by (intro exI [of _ "s\<lparr>receiveCh := ClosedCh None\<rparr>"]) (simp add: selecting_def)
  next
    case 2
    with close_send [OF nc 2, of ops str] h assms(4) show ?thesis
      by (intro exI [of _ "s\<lparr>sendCh := ClosedCh None\<rparr>"]) (simp add: selecting_def)
  next
    case 3
    with mn(1) have "rcv" by (simp add: events_of_iffs)
    with take_receive [of s i snd_open None ops str] 3 h assms(5) show ?thesis
      by (intro exI [of _ "s\<lparr>receiveCh := Closing None, handle := Selecting (Suc i) True snd_open\<rparr>"]) (simp add: selecting_def)
  next
    case 4
    with mn(2) have "snd_open" by (simp add: events_of_iffs)
    with take_send [of s i rcv None ops str] 4 h assms(4) show ?thesis
      by (intro exI [of _ "s\<lparr>sendCh := Closing None, handle := Selecting (Suc i) rcv True\<rparr>"]) (simp add: selecting_def)
  next
    case 5
    with mn h(2) have "rcv \<or> snd_open" by (cases rcv; cases snd_open) (simp_all add: events_of_iffs)
    then show ?thesis
    proof
      assume "rcv"
      with see_receive_closed [of s i snd_open None ops str] 5 h show ?thesis
        by (intro exI [of _ "s\<lparr>handle := Selecting (Suc i) False snd_open\<rparr>"]) (simp add: selecting_def)
    next
      assume "snd_open"
      with see_send_closed [of s i rcv None ops str] 5 h show ?thesis
        by (intro exI [of _ "s\<lparr>handle := Selecting (Suc i) rcv False\<rparr>"]) (simp add: selecting_def)
    qed
  qed
qed

lemma Ending_returns: "handle s = Ending None \<Longrightarrow> \<exists>u. rpc_steps ops str s u \<and> ends_as ops s u"
  by (rule exI, rule conjI, rule r_into_rtranclp, erule deferred_End) (simp add: ends_as_def)

lemma ended_flows_return:
  assumes "selecting s" and "rpc_inv s" and "ended_well (receiveCh s)" and "ended_well (sendCh s)"
  shows "\<exists>u. rpc_steps ops str s u \<and> ends_as ops s u"
  using assms
proof (induction "handle_left (handle s) + channel_left (receiveCh s) + channel_left (sendCh s)"
    arbitrary: s rule: less_induct)
  case less
  from less.prems(1) obtain i rcv snd_open where h: "handle s = Selecting i rcv snd_open"
    by (auto simp: selecting_def split: handle_pc.splits)
  show ?case
  proof (cases "i < 4")
    case True
    from ended_flows_step [OF h True less.prems(2-4), of ops str] obtain t where t: "rpc_step ops str s t"
      "selecting t" "ended_well (receiveCh t)" "ended_well (sendCh t)"
      "method_state t = method_state s" "sent_frames t = sent_frames s" "headers_set t = headers_set s"
      "handle_left (handle t) + channel_left (receiveCh t) + channel_left (sendCh t)
        < handle_left (handle s) + channel_left (receiveCh s) + channel_left (sendCh s)" by blast
    from less.hyps [OF t(8,2) rpc_inv_step [OF t(1) less.prems(2)] t(3,4)] obtain u
      where "rpc_steps ops str t u" "ends_as ops t u" by blast
    with t(1,5-7) show ?thesis by (auto simp: ends_as_def intro: converse_rtranclp_into_rtranclp)
  next
    case False
    with loop_over [OF h, of ops str] have step: "rpc_step ops str s (s\<lparr>handle := Ending None\<rparr>)" by blast
    from Ending_returns [of "s\<lparr>handle := Ending None\<rparr>" ops str] obtain u
      where "rpc_steps ops str (s\<lparr>handle := Ending None\<rparr>) u" "ends_as ops s u" by (auto simp: ends_as_def)
    with step show ?thesis by (meson converse_rtranclp_into_rtranclp)
  qed
qed

subsection \<open>Calls whose response is asked for after the request\<close>

text \<open>
  The sending goroutine has not asked the backend for a response, and the receiving one has ended.
\<close>

definition asks_late :: "('b, 'md) rpc \<Rightarrow> bool" where
  "asks_late s \<longleftrightarrow> sender s = Responding 0 \<and> sendCh s = Running \<and> receiveCh s \<noteq> Running"

text \<open>
  What holds of a call with one frame until the backend is asked for a response: how far the receiving
  goroutine is, and that the backend ends up as the request leaves it.
\<close>

definition request_progress ::
  "string \<Rightarrow> 'b \<Rightarrow> 'b \<Rightarrow> ('b \<Rightarrow> 'b) list \<Rightarrow> ('b, 'md) rpc \<Rightarrow> bool"
where
  "request_progress payload b b0 ws s \<longleftrightarrow>
     sent_frames s = [] \<and> headers_set s = [] \<and> \<not> crashed_rpc s
     \<and> (if receiveCh s = Running
        then (case receiver s of
                Beginning \<Rightarrow> incoming s = [Inr payload] \<and> method_state s = b
              | Receiving \<Rightarrow> incoming s = [Inr payload] \<and> method_state s = b0
              | Requesting todo r \<Rightarrow> r = Err EOF \<and> fold (\<lambda>w. w) todo (method_state s) = fold (\<lambda>w. w) ws b0)
        else ended_well (receiveCh s) \<and> method_state s = fold (\<lambda>w. w) ws b0)"

definition unasked_inv :: "string \<Rightarrow> 'b \<Rightarrow> 'b \<Rightarrow> ('b \<Rightarrow> 'b) list \<Rightarrow> ('b, 'md) rpc \<Rightarrow> bool" where
  "unasked_inv payload b b0 ws s \<longleftrightarrow>
     sender s = Responding 0 \<and> sendCh s = Running \<longrightarrow>
       crashed_rpc s \<and> receiveCh s = Running \<or> request_progress payload b b0 ws s"

lemma unasked_not_ending:
  assumes "rpc_inv s" and "sendCh s = Running" and "receiveCh s = Running \<or> ended_well (receiveCh s)"
  shows "handle s \<noteq> Ending r" and "handle s \<noteq> HandleReturned r"
  using assms by (cases r; auto simp: ended_well_def)+

lemma request_progress_receive:
  assumes "takes_request ops str payload b b0 ws" and "request_progress payload b b0 ws s"
    and "receiveCh s = Running" and "grpcReceiveFrom ops str s = Some t"
  shows "request_progress payload b b0 ws t"
proof (cases "receiver s")
  case (Requesting todo r)
  with assms(2-4) show ?thesis by (cases todo) (auto simp: grpcReceiveFrom_def request_progress_def)
qed (use assms in \<open>auto simp: takes_request_def grpcReceiveFrom_def request_progress_def split: option.splits\<close>)

lemma unasked_send:
  "sender s = Responding 0 \<Longrightarrow> sendCh s = Running \<Longrightarrow>
     (\<exists>md p err. fst (Response ops (method_state s)) = Inr (md, p, err)
        \<and> sender (grpcSendFrom ops str s) = Delivering 0 md p err)
     \<or> crashed_rpc (grpcSendFrom ops str s) \<and> (\<exists>p. fst (Response ops (method_state s)) = Inl p)"
  by (auto simp: grpcSendFrom_def crashed_rpc_def split: prod.splits sum.splits)

lemma asked_send:
  "sender s \<noteq> Responding 0 \<Longrightarrow> sendCh s = Running \<Longrightarrow>
     sender (grpcSendFrom ops str s) \<noteq> Responding 0 \<or> sendCh (grpcSendFrom ops str s) \<noteq> Running"
  by (auto simp: grpcSendFrom_def deliver_def Let_def split: send_pc.splits prod.splits sum.splits option.splits)

lemma unasked_inv_step:
  assumes "takes_request ops str payload b b0 ws" and "fst (Response ops (fold (\<lambda>w. w) ws b0)) = Inr out"
    and "rpc_step ops str s t" and "rpc_inv s" and "unasked_inv payload b b0 ws s"
  shows "unasked_inv payload b b0 ws t"
  using assms(3)
proof (cases rule: rpc_step.cases)
  case flow_receive
  with assms(5) request_progress_receive [OF assms(1) _ flow_receive(2,3)] receive_frame [OF flow_receive(3)]
  show ?thesis by (auto simp: unasked_inv_def)
next
  case flow_send
  show ?thesis
  proof (cases "sender s = Responding 0")
    case True
    show ?thesis
    proof (cases "receiveCh s = Running")
      case False
      with True flow_send assms(5) have "method_state s = fold (\<lambda>w. w) ws b0"
        by (auto simp: unasked_inv_def request_progress_def)
      with unasked_send [OF True flow_send(3), of ops str] assms(2) flow_send(1) show ?thesis by (auto simp: unasked_inv_def)
    qed (use unasked_send [OF True flow_send(3), of ops str] flow_send(1) in \<open>auto simp: unasked_inv_def\<close>)
  next
    case False
    with asked_send [OF False flow_send(3)] flow_send(1) show ?thesis by (auto simp: unasked_inv_def)
  qed
next
  case (deferred_End r)
  with assms(4,5) unasked_not_ending(1) [OF assms(4), of r] show ?thesis
    by (auto simp: unasked_inv_def request_progress_def crashed_rpc_def split: if_splits)
qed (use assms(5) in \<open>auto simp: unasked_inv_def request_progress_def crashed_rpc_def
    split: handle_pc.splits receive_pc.splits\<close>)

lemma request_progress_start: "request_progress payload b b0 ws (start_rpc [Inr payload] b)"
  by (simp add: request_progress_def) (simp add: start_rpc_def)

text \<open>A call reaches such a state, and in every such state the backend is as the request left it.\<close>

lemma asks_late_reached:
  assumes "takes_request ops str payload b b0 ws"
  shows "\<exists>s. rpc_steps ops str (start_rpc [Inr payload] b) s \<and> asks_late s"
proof -
  let ?s = "(start_rpc [] (fold (\<lambda>w. w) ws b0))\<lparr>receiver := Requesting [] (Err EOF), receiveCh := Offering None\<rparr>"
  have "asks_late ?s" by (simp add: asks_late_def start_rpc_def)
  with receive_alone_steps [OF receive_one_request [OF assms, of "[]"]] show ?thesis by blast
qed

lemma asks_late_state:
  assumes "takes_request ops str payload b b0 ws" and "fst (Response ops (fold (\<lambda>w. w) ws b0)) = Inr out"
    and "rpc_steps ops str (start_rpc [Inr payload] b) s" and "asks_late s"
  shows "\<not> crashed_rpc s \<and> ended_well (receiveCh s) \<and> method_state s = fold (\<lambda>w. w) ws b0
    \<and> sent_frames s = [] \<and> headers_set s = []"
proof -
  have "unasked_inv payload b b0 ws s"
    using assms(3)
  proof (induction rule: rtranclp_induct)
    case base
    show ?case using request_progress_start [of payload b b0 ws] unfolding unasked_inv_def by blast
  next
    case (step t u)
    from unasked_inv_step [OF assms(1,2) step(2) rpc_inv_steps [OF step(1) rpc_inv_start] step(3)] show ?case .
  qed
  with assms(4) show ?thesis by (auto simp: unasked_inv_def asks_late_def request_progress_def)
qed

text \<open>
  From then on a call whose backend has one response, with EOF, delivers it, as long as the stream takes
  it: in every state, and in every state it can still return.
\<close>

definition answering ::
  "'md option \<Rightarrow> string \<Rightarrow> 'b \<Rightarrow> ('b, 'md) rpc \<Rightarrow> bool"
where
  "answering md payload b1 s \<longleftrightarrow>
     \<not> crashed_rpc s \<and> ended_well (receiveCh s)
     \<and> (sendCh s = Running \<and> sent_frames s = []
          \<and> (sender s = Responding 0 \<and> method_state s = b1 \<or> sender s = Delivering 0 md payload (Some EOF))
        \<or> ended_well (sendCh s) \<and> sent_frames s = [payload])"

lemma answering_send:
  assumes "Response ops b1 = (Inr (md, payload, Some EOF), b2)"
    and "Option.bind md (SetHeader str) = None" and "SendMsg str 0 = None"
    and "answering md payload b1 s" and "sendCh s = Running"
  shows "answering md payload b1 (grpcSendFrom ops str s)
    \<and> (sender s = Responding 0 \<longrightarrow> sender (grpcSendFrom ops str s) \<noteq> Responding 0 \<and> sendCh (grpcSendFrom ops str s) = Running)
    \<and> (sender s \<noteq> Responding 0 \<longrightarrow> ended_well (sendCh (grpcSendFrom ops str s)))
    \<and> handle (grpcSendFrom ops str s) = handle s"
proof (cases "sender s = Responding 0")
  case True
  with assms show ?thesis by (auto simp: answering_def grpcSendFrom_def crashed_rpc_def)
next
  case False
  with assms(4,5) have "sender s = Delivering 0 md payload (Some EOF)" "sent_frames s = []"
    by (auto simp: answering_def)
  with assms show ?thesis by (cases md) (auto simp: answering_def grpcSendFrom_def deliver_def crashed_rpc_def)
qed

lemma answering_step:
  assumes "Response ops b1 = (Inr (md, payload, Some EOF), b2)"
    and "Option.bind md (SetHeader str) = None" and "SendMsg str 0 = None"
    and "rpc_step ops str s t" and "rpc_inv s" and "answering md payload b1 s"
  shows "answering md payload b1 t"
  using assms(4)
proof (cases rule: rpc_step.cases)
  case flow_send
  with answering_send [OF assms(1-3,6)] show ?thesis by blast
next
  case (deferred_End r)
  show ?thesis
  proof (cases "sendCh s = Running")
    case True
    with unasked_not_ending(1) [OF assms(5), of r] assms(6) deferred_End show ?thesis by (auto simp: answering_def)
  qed (use deferred_End assms(6) in \<open>auto simp: answering_def crashed_rpc_def\<close>)
qed (use assms(6) in \<open>auto simp: answering_def crashed_rpc_def split: handle_pc.splits\<close>)

lemma answering_returns:
  assumes "Response ops b1 = (Inr (md, payload, Some EOF), b2)"
    and "Option.bind md (SetHeader str) = None" and "SendMsg str 0 = None"
    and "rpc_inv s" and "answering md payload b1 s"
  shows "\<exists>u. rpc_steps ops str s u \<and> handle u = HandleReturned None \<and> sent_frames u = [payload]"
proof -
  have ended: "\<exists>u. rpc_steps ops str v u \<and> handle u = HandleReturned None \<and> sent_frames u = [payload]"
    if v: "answering md payload b1 v" "rpc_inv v" "sendCh v \<noteq> Running" for v
  proof (cases "selecting v")
    case True
    with v ended_flows_return [OF True v(2), of ops str] show ?thesis by (auto simp: answering_def ends_as_def)
  next
    case False
    with v(1) obtain r where h: "handle v = Ending r \<or> handle v = HandleReturned r"
      by (auto simp: selecting_def answering_def crashed_rpc_def split: handle_pc.splits)
    with v have "r = None" by (cases r) (auto simp: answering_def ended_well_error dest!: offered_error)
    with h v Ending_returns [of v ops str] show ?thesis by (auto simp: answering_def ends_as_def)
  qed
  let ?step = "\<lambda>v. grpcSendFrom ops str v"
  have step: "rpc_step ops str v (?step v)" if "answering md payload b1 v" "sendCh v = Running" for v
    using that by (auto simp: answering_def intro: flow_send)
  note sending = answering_send [OF assms(1-3)]
  have delivered: "\<exists>u. rpc_steps ops str v u \<and> handle u = HandleReturned None \<and> sent_frames u = [payload]"
    if v: "answering md payload b1 v" "rpc_inv v" "sendCh v = Running" "sender v \<noteq> Responding 0" for v
  proof -
    have "ended_well (sendCh (?step v))" using sending [OF v(1,3)] v(4) by blast
    then have "sendCh (?step v) \<noteq> Running" by auto
    with ended [of "?step v"] sending [OF v(1,3)] rpc_inv_step [OF step [OF v(1,3)] v(2)] step [OF v(1,3)]
    show ?thesis by (meson converse_rtranclp_into_rtranclp)
  qed
  show ?thesis
  proof (cases "sendCh s = Running")
    case True
    show ?thesis
    proof (cases "sender s = Responding 0")
      case True
      with delivered [of "?step s"] sending [OF assms(5) \<open>sendCh s = Running\<close>]
        rpc_inv_step [OF step [OF assms(5) \<open>sendCh s = Running\<close>] assms(4)] step [OF assms(5) \<open>sendCh s = Running\<close>]
      show ?thesis by (meson converse_rtranclp_into_rtranclp)
    qed (use delivered [OF assms(5,4) True] in blast)
  qed (use ended [OF assms(5,4)] in blast)
qed

lemma late_response_delivered:
  assumes "takes_request ops str payload b b0 ws"
    and "Response ops (fold (\<lambda>w. w) ws b0) = (Inr (md, p, Some EOF), b2)"
    and "Option.bind md (SetHeader str) = None" and "SendMsg str 0 = None"
    and "rpc_steps ops str (start_rpc [Inr payload] b) s" and "asks_late s" and "rpc_steps ops str s t"
  shows "\<not> crashed_rpc t \<and> (\<forall>x. handle t = HandleReturned x \<longrightarrow> x = None \<and> sent_frames t = [p])
    \<and> (\<exists>u. rpc_steps ops str t u \<and> handle u = HandleReturned None \<and> sent_frames u = [p])"
proof -
  let ?b1 = "fold (\<lambda>w. w) ws b0"
  have inv: "rpc_inv s" by (rule rpc_inv_steps [OF assms(5) rpc_inv_start])
  have "answering md p ?b1 s"
    using asks_late_state [OF assms(1) _ assms(5,6)] assms(2,6) by (auto simp: answering_def asks_late_def)
  with assms(7) have t: "rpc_inv t \<and> answering md p ?b1 t"
  proof (induction rule: rtranclp_induct)
    case base
    then show ?case using inv by simp
  next
    case (step u v)
    then show ?case using rpc_inv_step answering_step [OF assms(2-4)] by blast
  qed
  have "x = None \<and> sent_frames t = [p]" if h: "handle t = HandleReturned x" for x
  proof -
    have "sendCh t \<noteq> Running"
      using unasked_not_ending(2) [OF conjunct1 [OF t], of x] h conjunct2 [OF t] unfolding answering_def by blast
    with t have "ended_well (receiveCh t)" "ended_well (sendCh t)" "sent_frames t = [p]" by (auto simp: answering_def)
    with t h show ?thesis by (cases x) (auto simp: ended_well_error dest!: offered_error)
  qed
  with t answering_returns [OF assms(2-4)] show ?thesis by (auto simp: answering_def)
qed

subsection \<open>Properties\<close>

text \<open>
  A backend that answers \<open>ok\<close> to every request, and a call whose client goes away before it sends
  anything, for the witnesses.
\<close>

definition sample_method :: "(unit, unit) method_backend" where
  "sample_method = \<lparr>Begin = (\<lambda>_ b. (Ok (), b)), Request = (\<lambda>_ b. ([], Err EOF)),
     Response = (\<lambda>b. (Inr (None, ''ok'', Some EOF), b)), EndMethod = id\<rparr>"

definition sample_stream :: "unit server_stream" where
  "sample_stream = \<lparr>incomingMetadata = None, SetHeader = (\<lambda>_. None), SendMsg = (\<lambda>_. None)\<rparr>"

definition reset_error :: go_error where
  "reset_error = Foreign ''connection reset''"

definition reset_rpc :: "(unit, unit) rpc" where
  "reset_rpc = (start_rpc [] ())\<lparr>receiver := Receiving, receiveCh := Closing (Some reset_error),
     handle := HandleReturned (Some reset_error)\<rparr>"

lemma reset_run: "rpc_steps sample_method sample_stream (start_rpc [Inl reset_error] ()) reset_rpc"
proof -
  let ?s = "\<lambda>inc pc c h. (start_rpc inc ())\<lparr>receiver := pc, receiveCh := c, handle := h\<rparr>"
  let ?step = "rpc_step sample_method sample_stream"
  let ?h = "Selecting 0 True True"
  have s1: "?step (start_rpc [Inl reset_error] ()) (?s [Inl reset_error] Receiving Running ?h)"
    by (rule flow_receive) (simp_all add: start_rpc_def crashed_rpc_def grpcReceiveFrom_def sample_stream_def)
  have s2: "?step (?s [Inl reset_error] Receiving Running ?h) (?s [] Receiving (Offering (Some reset_error)) ?h)"
    by (rule flow_receive)
      (simp_all add: start_rpc_def crashed_rpc_def grpcReceiveFrom_def receive_error_def reset_error_def)
  have s3: "?step (?s [] Receiving (Offering (Some reset_error)) ?h)
      (?s [] Receiving (Closing (Some reset_error)) (Ending (Some reset_error)))"
    using take_receive [of "?s [] Receiving (Offering (Some reset_error)) ?h" 0 True "Some reset_error"]
    by (simp add: start_rpc_def)
  have s4: "?step (?s [] Receiving (Closing (Some reset_error)) (Ending (Some reset_error))) reset_rpc"
    using deferred_End [of "?s [] Receiving (Closing (Some reset_error)) (Ending (Some reset_error))" "Some reset_error"]
    by (simp add: start_rpc_def reset_rpc_def sample_method_def)
  show ?thesis by (meson s1 s2 s3 s4 rtranclp.rtrancl_into_rtrancl rtranclp.rtrancl_refl)
qed

lemma reset_Handle:
  "Handle (NewGrpcHandler [WithGrpcMethodBackendFactory (\<lambda>_ :: unit. Inr ())]) () [Inl reset_error]
   = Ok (start_rpc [Inl reset_error] () :: (unit, unit) rpc)"
  by (simp add: Handle_with_factory)

text \<open>
  C8. \<open>Handle\<close> waits for both flows and reports the first error. When it returns nil, both flows have
  ended with nil and their goroutines are gone; when it returns an error, that is the result of one of
  them. Until then, while it has seen fewer than four events, one of its channels is not nil, so its
  \<open>select\<close> never waits on nothing.
\<close>

theorem Handle_result:
  assumes "Handle g stream inc = Ok s0" and "rpc_steps ops str s0 s"
  shows "(handle s = HandleReturned None \<longrightarrow> receiveCh s = ClosedCh None \<and> sendCh s = ClosedCh None)
    \<and> (\<forall>e. handle s = HandleReturned (Some e) \<longrightarrow> offered (receiveCh s) (Some e) \<or> offered (sendCh s) (Some e))
    \<and> (\<forall>i rcv snd_open. handle s = Selecting i rcv snd_open \<longrightarrow> i \<le> 4 \<and> (i < 4 \<longleftrightarrow> rcv \<or> snd_open))"
proof -
  have inv: "rpc_inv s" by (rule rpc_inv_reach [OF assms(1,2)])
  moreover have "i \<le> 4 \<and> (i < 4 \<longleftrightarrow> rcv \<or> snd_open)" if "handle s = Selecting i rcv snd_open" for i rcv snd_open
  proof -
    from inv that obtain m n where mn: "events_of rcv (receiveCh s) m" "events_of snd_open (sendCh s) n" "i = m + n"
      by auto
    from events_of_le [OF mn(1)] events_of_le [OF mn(2)] mn(3) show ?thesis by linarith
  qed
  ultimately show ?thesis by auto
qed

theorem Handle_result_witness:
  "offered (receiveCh reset_rpc) (Some reset_error) \<or> offered (sendCh reset_rpc) (Some reset_error)"
  using Handle_result [OF reset_Handle reset_run] by (simp add: reset_rpc_def)

text \<open>Once \<open>Handle\<close> has left its loop no result is taken any more.\<close>

definition unfinished :: "flow_channel \<Rightarrow> bool" where
  "unfinished c \<longleftrightarrow> c = Running \<or> (\<exists>r. c = Offering r)"

lemma unfinished_iffs [simp]:
  "unfinished Running" "unfinished (Offering r)" "\<not> unfinished (Closing r)" "\<not> unfinished (ClosedCh r)"
  by (simp_all add: unfinished_def)

lemma no_take:
  assumes "rpc_step ops str s t" and "\<not> selecting s"
  shows "unfinished (receiveCh t) = unfinished (receiveCh s) \<and> unfinished (sendCh t) = unfinished (sendCh s)
    \<and> \<not> selecting t"
  using assms
proof (cases rule: rpc_step.cases)
  case flow_receive
  then show ?thesis using receive_frame [OF flow_receive(3)] assms(2) by (auto simp: selecting_def)
next
  case flow_send
  then show ?thesis using send_frame [of ops str s] assms(2) by (auto simp: selecting_def)
qed (use assms(2) in \<open>auto simp: selecting_def\<close>)

lemma no_takes:
  "rpc_steps ops str s t \<Longrightarrow> \<not> selecting s \<Longrightarrow>
     unfinished (receiveCh t) = unfinished (receiveCh s) \<and> unfinished (sendCh t) = unfinished (sendCh s) \<and> \<not> selecting t"
  by (induction rule: rtranclp_induct) (auto dest: no_take)

text \<open>
  C25. When \<open>Handle\<close> returns the error of one flow, a flow that has not handed over its result by then
  is abandoned: whatever happens later, its goroutine runs on or waits at its send, and it never ends,
  because nothing receives from its channel any more. \<open>Handle\<close> never abandons both flows.
\<close>

theorem abandoned_flow_never_ends:
  assumes "Handle g stream inc = Ok s0" and "rpc_steps ops str s0 s" and "handle s = HandleReturned r"
    and "rpc_steps ops str s t"
  shows "(unfinished (receiveCh s) \<longrightarrow> unfinished (receiveCh t)) \<and> (unfinished (sendCh s) \<longrightarrow> unfinished (sendCh t))
    \<and> (r = None \<longrightarrow> \<not> unfinished (receiveCh s) \<and> \<not> unfinished (sendCh s))
    \<and> (unfinished (receiveCh s) \<longrightarrow> \<not> unfinished (sendCh s) \<and> offered (sendCh s) r)
    \<and> (unfinished (sendCh s) \<longrightarrow> \<not> unfinished (receiveCh s) \<and> offered (receiveCh s) r)"
proof -
  have "\<not> selecting s" using assms(3) by (simp add: selecting_def)
  note later = no_takes [OF assms(4) this]
  have "rpc_inv s" by (rule rpc_inv_reach [OF assms(1,2)])
  with assms(3) have "case r of None \<Rightarrow> receiveCh s = ClosedCh None \<and> sendCh s = ClosedCh None
      | Some e \<Rightarrow> offered (receiveCh s) r \<or> offered (sendCh s) r" by simp
  with later show ?thesis
    by (cases r; cases "receiveCh s"; cases "sendCh s"; simp)
qed

theorem abandoned_flow_never_ends_witness:
  "\<exists>t. rpc_step sample_method sample_stream reset_rpc t \<and> unfinished (sendCh reset_rpc) \<and> unfinished (sendCh t)"
proof -
  let ?t = "grpcSendFrom sample_method sample_stream reset_rpc"
  have sending: "unfinished (sendCh reset_rpc)" by (simp add: reset_rpc_def start_rpc_def)
  have "rpc_step sample_method sample_stream reset_rpc ?t"
    by (rule flow_send) (simp_all add: reset_rpc_def start_rpc_def crashed_rpc_def)
  moreover have "handle reset_rpc = HandleReturned (Some reset_error)" by (simp add: reset_rpc_def)
  ultimately show ?thesis
    using abandoned_flow_never_ends [OF reset_Handle reset_run _ r_into_rtranclp] sending by blast
qed

text \<open>The errors of the flows.\<close>

definition typed_errors :: "(go_error + string) list \<Rightarrow> ('b, 'md) rpc \<Rightarrow> bool" where
  "typed_errors inc s \<longleftrightarrow>
     (\<forall>e. flow_error (receiveCh s) = Some e \<longrightarrow> \<not> errors_Is e EOF \<and> Inl e \<in> set inc \<or> status_FromError e)
     \<and> (\<forall>e. flow_error (sendCh s) = Some e \<longrightarrow> status_FromError e)
     \<and> set (incoming s) \<subseteq> set inc"

lemma receive_results:
  "grpcReceiveFrom ops str s = Some t \<Longrightarrow> receiveCh s = Running \<Longrightarrow>
     set (incoming t) \<subseteq> set (incoming s)
     \<and> (receiveCh t = Running \<or> (\<exists>e. receiveCh t = Offering (Some (wrapGrpcError e)))
        \<or> (\<exists>e. receiveCh t = Offering (request_error e))
        \<or> (\<exists>e. Inl e \<in> set (incoming s) \<and> receiveCh t = Offering (receive_error e)))"
  by (auto simp: grpcReceiveFrom_def Let_def split: receive_pc.splits option.splits list.splits sum.splits
      outcome.splits prod.splits)

lemma send_results:
  "sendCh s = Running \<Longrightarrow>
     sendCh (grpcSendFrom ops str s) = Running \<or> sendCh (grpcSendFrom ops str s) = Offering None
     \<or> (\<exists>e. status_FromError e \<and> sendCh (grpcSendFrom ops str s) = Offering (Some e))"
  by (auto simp: grpcSendFrom_def deliver_def Let_def split: send_pc.splits option.splits sum.splits prod.splits)

lemma typed_errors_receive:
  assumes "grpcReceiveFrom ops str s = Some t" and "receiveCh s = Running" and "typed_errors inc s"
  shows "typed_errors inc t"
  using receive_results [OF assms(1,2)] receive_sendCh [OF assms(1)] assms(3)
  by (auto simp: typed_errors_def receive_error_def request_error_def split: if_splits)

lemma typed_errors_send:
  assumes "sendCh s = Running" and "typed_errors inc s"
  shows "typed_errors inc (grpcSendFrom ops str s)"
  using send_results [OF assms(1), of ops str] send_frame [of ops str s] assms(2)
  by (auto simp: typed_errors_def)

lemma typed_errors_step: "rpc_step ops str s t \<Longrightarrow> typed_errors inc s \<Longrightarrow> typed_errors inc t"
proof (induction rule: rpc_step.induct)
  case (flow_receive s t)
  then show ?case by (auto intro: typed_errors_receive)
next
  case (flow_send s)
  then show ?case by (auto intro: typed_errors_send)
qed (auto simp: typed_errors_def)

text \<open>
  C9. What a client can get: every error \<open>Handle\<close> returns after its factory is a gRPC status error,
  except the error that \<open>RecvMsg\<close> returned, which is passed on as it is; an EOF is never returned as
  an error, even when it is wrapped.
\<close>

theorem Handle_error_type:
  assumes "Handle g stream inc = Ok s0" and "rpc_steps ops str s0 s" and "handle s = HandleReturned (Some e)"
  shows "status_FromError e \<or> \<not> errors_Is e EOF \<and> Inl e \<in> set inc"
proof -
  have "rpc_inv s" by (rule rpc_inv_reach [OF assms(1,2)])
  with assms(3) have "flow_error (receiveCh s) = Some e \<or> flow_error (sendCh s) = Some e"
    using offered_error by auto
  moreover have "typed_errors inc s"
    using assms(2)
  proof (induction rule: rtranclp_induct)
    case base
    show ?case using Handle_starts [OF assms(1)] by (auto simp: start_rpc_def typed_errors_def)
  next
    case (step t u)
    from typed_errors_step [OF step(2,3)] show ?case .
  qed
  ultimately show ?thesis by (auto simp: typed_errors_def)
qed

theorem Handle_error_type_witness:
  "\<not> status_FromError reset_error \<and> \<not> errors_Is reset_error EOF"
  using Handle_error_type [OF reset_Handle reset_run, of reset_error]
  by (simp add: reset_rpc_def) (simp add: reset_error_def)

end
