(* ===== verification/Grpc_Codec.thy ===== *)
theory Grpc_Codec
  imports Go_Prelude
begin

section \<open>The codec of raw frames (\<^verbatim>\<open>pkg/server/grpc_codec.go\<close>)\<close>

text \<open>
  A \<open>frame\<close> is passed through as its bytes, everything else goes to the parent codec. A value behind
  \<open>interface{}\<close> is a frame, a protobuf message or a value of another type, given by the name of that
  type. \<open>Unmarshal\<close> returns what it leaves in its destination. The functions of package \<open>proto\<close> are
  arguments.
\<close>

datatype 'm any_value = FrameValue string | ProtoValue 'm | OtherValue string

record 'm codec =
  Marshal :: "'m any_value \<Rightarrow> go_error + string"
  Unmarshal :: "string \<Rightarrow> 'm any_value \<Rightarrow> go_error option \<times> 'm any_value"
  codec_String :: string

definition newFrame :: "string \<Rightarrow> 'm any_value" where
  "newFrame payload = FrameValue payload"

fun type_name :: "'m any_value \<Rightarrow> string" where
  "type_name (FrameValue payload) = ''*server.frame''"
| "type_name (ProtoValue m) = ''proto.Message''"
| "type_name (OtherValue t) = t"

definition rawCodec :: "'m codec \<Rightarrow> 'm codec" where
  "rawCodec parentCodec =
     \<lparr>Marshal = (\<lambda>v. case v of FrameValue payload \<Rightarrow> Inr payload | _ \<Rightarrow> Marshal parentCodec v),
      Unmarshal = (\<lambda>data v. case v of FrameValue _ \<Rightarrow> (None, FrameValue data) | _ \<Rightarrow> Unmarshal parentCodec data v),
      codec_String = ''proxy>'' @ codec_String parentCodec\<rparr>"

definition protoCodec ::
  "('m \<Rightarrow> go_error + string) \<Rightarrow> (string \<Rightarrow> 'm \<Rightarrow> go_error option \<times> 'm) \<Rightarrow> 'm codec"
where
  "protoCodec proto_Marshal proto_Unmarshal =
     \<lparr>Marshal = (\<lambda>v. case v of
          ProtoValue m \<Rightarrow> proto_Marshal m
        | _ \<Rightarrow> Inl (Foreign (''failed to marshal, message is '' @ type_name v @ '', want proto.Message''))),
      Unmarshal = (\<lambda>data v. case v of
          ProtoValue m \<Rightarrow> (let (err, m') = proto_Unmarshal data m in (err, ProtoValue m'))
        | _ \<Rightarrow> (Some (Foreign (''failed to unmarshal, message is '' @ type_name v @ '', want proto.Message'')), v)),
      codec_String = ''proto''\<rparr>"

definition CodecWithParent :: "'m codec \<Rightarrow> 'm codec" where
  "CodecWithParent fallback = rawCodec fallback"

definition Codec :: "('m \<Rightarrow> go_error + string) \<Rightarrow> (string \<Rightarrow> 'm \<Rightarrow> go_error option \<times> 'm) \<Rightarrow> 'm codec" where
  "Codec proto_Marshal proto_Unmarshal = CodecWithParent (protoCodec proto_Marshal proto_Unmarshal)"

text \<open>
  What the handler relies on: frames pass unchanged in both directions, whatever the parent is. The
  handler of the Lambda backends uses the codec through this interface.
\<close>

locale frame_codec =
  fixes c :: "'m codec"
  assumes marshal_frame: "Marshal c (newFrame payload) = Inr payload"
    and unmarshal_frame: "Unmarshal c data (newFrame payload) = (None, newFrame data)"
begin

lemma frame_roundtrip:
  "Marshal c (newFrame payload) = Inr data \<Longrightarrow> snd (Unmarshal c data (newFrame other)) = newFrame payload"
  by (simp add: marshal_frame unmarshal_frame)

lemma data_roundtrip: "Marshal c (snd (Unmarshal c data (newFrame payload))) = Inr data"
  by (simp add: marshal_frame unmarshal_frame)

end

interpretation raw: frame_codec "rawCodec parentCodec"
  by unfold_locales (simp_all add: rawCodec_def newFrame_def)

interpretation server_codec: frame_codec "Codec proto_Marshal proto_Unmarshal"
  by unfold_locales (simp_all add: Codec_def CodecWithParent_def rawCodec_def newFrame_def)

lemma codec_other_values:
  "\<forall>p. v \<noteq> FrameValue p \<Longrightarrow> Marshal (rawCodec c) v = Marshal c v \<and> Unmarshal (rawCodec c) data v = Unmarshal c data v"
  by (cases v) (simp_all add: rawCodec_def)

lemma Codec_String: "codec_String (Codec proto_Marshal proto_Unmarshal) = ''proxy>proto''"
  by (simp add: Codec_def CodecWithParent_def rawCodec_def protoCodec_def)

end
