(* ===== verification/Lambda_Grpc.thy ===== *)
theory Lambda_Grpc
  imports Lambda_Invoke Grpc Grpc_Codec
begin

section \<open>The gRPC backend of a Lambda function (\<^verbatim>\<open>grpc_backend.go\<close>)\<close>

text \<open>
  The method backend of the AWS provider: a request frame becomes the base64 body of an API Gateway
  request, the function's response is kept for \<open>Response\<close>, which turns its HTTP status into a gRPC
  status. The receiving goroutine writes the fields that the sending one reads, without a lock.
\<close>

record grpcMethodBackend =
  functionName :: string
  qualifier :: string
  transport_Method :: string
  request_metadata :: "MD option"
  outgoingMetadata :: "MD option"
  lambdaResponse :: "APIGatewayProxyResponse option"
  responseBody :: string
  ids_drawn :: nat

text \<open>
  What the factory of \<open>NewGrpcBackend\<close> makes for a call, whose stream it asks for the name of the called
  method, and the backend: a gRPC handler with that factory.
\<close>

definition call_backend :: "LambdaBackend \<Rightarrow> string \<Rightarrow> grpcMethodBackend" where
  "call_backend backend mname =
     \<lparr>functionName = FunctionName backend, qualifier = Qualifier backend, transport_Method = mname,
      request_metadata = None, outgoingMetadata = None, lambdaResponse = None, responseBody = [],
      ids_drawn = 0\<rparr>"

definition backendFactory :: "LambdaBackend \<Rightarrow> string \<Rightarrow> go_error + grpcMethodBackend" where
  "backendFactory backend stream = Inr (call_backend backend stream)"

record grpcBackend =
  GrpcHandler :: "(string, grpcMethodBackend) grpcHandler"
  grpc_backend :: LambdaBackend

definition NewGrpcBackend :: "LambdaBackend \<Rightarrow> grpcBackend" where
  "NewGrpcBackend backend =
     \<lparr>GrpcHandler = NewGrpcHandler [WithGrpcMethodBackendFactory (backendFactory backend)], grpc_backend = backend\<rparr>"

lemma Handle_grpc_backend [simp]:
  "Handle (GrpcHandler (NewGrpcBackend backend)) mname inc = Ok (start_rpc inc (call_backend backend mname))"
  by (simp add: NewGrpcBackend_def Handle_with_factory backendFactory_def)

definition draw_id :: "grpcMethodBackend \<Rightarrow> grpcMethodBackend" where
  "draw_id g = g\<lparr>ids_drawn := Suc (ids_drawn g)\<rparr>"

definition lambda_wrapGrpcError :: "lambda_env \<Rightarrow> grpcMethodBackend \<Rightarrow> go_error" where
  "lambda_wrapGrpcError env g =
     StatusError StatusInternal (''internal server error: '' @ NewString env (ids_drawn g))"

definition lambda_Begin :: "MD \<Rightarrow> grpcMethodBackend \<Rightarrow> unit outcome \<times> grpcMethodBackend" where
  "lambda_Begin md g = (Ok (), g\<lparr>request_metadata := Some md\<rparr>)"

definition lambda_event :: "string \<Rightarrow> grpcMethodBackend \<Rightarrow> APIGatewayProxyRequest" where
  "lambda_event payload g =
     \<lparr>HTTPMethod = [], Path = transport_Method g, MultiValueHeaders = request_metadata g,
      MultiValueQueryStringParameters = None, Body = EncodeToString payload, IsBase64Encoded = True\<rparr>"

definition lambda_Request ::
  "lambda_env \<Rightarrow> string \<Rightarrow> grpcMethodBackend \<Rightarrow> (grpcMethodBackend \<Rightarrow> grpcMethodBackend) list \<times> unit outcome"
where
  "lambda_Request env payload g =
     (let failed = (\<lambda>writes. (writes @ [draw_id], Err (lambda_wrapGrpcError env g))) in
      case json_Marshal env (lambda_event payload g) of
        Inl err \<Rightarrow> failed []
      | Inr p \<Rightarrow>
          (case invoke env (functionName g) (qualifier g) p of
             Panic pn \<Rightarrow> ([], Panic pn)
           | Err err \<Rightarrow> failed []
           | Ok out \<Rightarrow>
               (let (r, err) = json_Unmarshal env out zero_response;
                    stored = [\<lambda>g. g\<lparr>lambdaResponse := Some zero_response\<rparr>, \<lambda>g. g\<lparr>lambdaResponse := Some r\<rparr>]
                in case err of
                     Some e \<Rightarrow> failed stored
                   | None \<Rightarrow>
                       (case response_bytes r of
                          Inl e \<Rightarrow> failed stored
                        | Inr bs \<Rightarrow>
                            (stored @ [\<lambda>g. g\<lparr>responseBody := bs\<rparr>,
                               \<lambda>g. g\<lparr>outgoingMetadata :=
                                  Some (metadata_Join env (metadata_New env (Headers r)) (response_MultiValueHeaders r))\<rparr>],
                             Err EOF)))))"

text \<open>The status of a response by its HTTP status; \<open>Err\<close> of an OK status is nil.\<close>

definition response_status :: "int \<Rightarrow> status_code \<times> string" where
  "response_status code =
     (if code = 410 then (StatusOK, ''moved permanently'')
      else if code = 404 then (StatusNotFound, ''not found'')
      else if code = 403 then (StatusPermissionDenied, ''forbidden'')
      else if code = 401 then (StatusUnauthenticated, ''unauthorized'')
      else if code = 409 then (StatusAlreadyExists, ''already exists'')
      else if code = 501 then (StatusUnimplemented, ''not implemented'')
      else if code = 405 then (StatusUnimplemented, ''method not allowed'')
      else if code = 429 then (StatusResourceExhausted, ''too many requests'')
      else if code = 500 then (StatusInternal, ''internal server error'')
      else if code = 503 then (StatusUnavailable, ''service unavailable'')
      else if code = 204 then (StatusOutOfRange, ''out of range'')
      else if code = 412 then (StatusFailedPrecondition, ''failed precondition'')
      else (StatusInternal, ''internal server error''))"

definition status_Err :: "status_code \<times> string \<Rightarrow> go_error option" where
  "status_Err st = (if fst st = StatusOK then None else Some (StatusError (fst st) (snd st)))"

definition lambda_Response ::
  "lambda_env \<Rightarrow> grpcMethodBackend \<Rightarrow> (go_panic + MD option \<times> string \<times> go_error option) \<times> grpcMethodBackend"
where
  "lambda_Response env g =
     (case lambdaResponse g of
        None \<Rightarrow> (Inl NilDereference, g)
      | Some r \<Rightarrow>
          (if StatusCode r = 200 then (Inr (outgoingMetadata g, responseBody g, Some EOF), g)
           else
             (case outgoingMetadata g of
                None \<Rightarrow> (Inl NilMapAssignment, draw_id g)
              | Some md \<Rightarrow>
                  (let md' = metadata_Set env ''x-error-id'' (NewString env (ids_drawn g)) md
                   in (Inr (Some md', [], status_Err (response_status (StatusCode r))),
                       (draw_id g)\<lparr>outgoingMetadata := Some md'\<rparr>)))))"

definition lambda_End :: "grpcMethodBackend \<Rightarrow> grpcMethodBackend" where
  "lambda_End g = g"

definition lambda_method :: "lambda_env \<Rightarrow> (grpcMethodBackend, MD) method_backend" where
  "lambda_method env =
     \<lparr>Begin = lambda_Begin, Request = lambda_Request env, Response = lambda_Response env, EndMethod = lambda_End\<rparr>"

lemma lambda_method_sel [simp]:
  "Begin (lambda_method env) = lambda_Begin" "Request (lambda_method env) = lambda_Request env"
  "Response (lambda_method env) = lambda_Response env" "EndMethod (lambda_method env) = lambda_End"
  by (simp_all add: lambda_method_def)

text \<open>All its errors are status errors or EOF, so the handler reports them as they are.\<close>

lemma lambda_Request_result:
  "snd (lambda_Request env payload g) = Err e \<Longrightarrow> e = EOF \<or> e = lambda_wrapGrpcError env g"
  by (auto simp: lambda_Request_def Let_def split: sum.splits outcome.splits prod.splits option.splits)

lemma lambda_Response_result:
  "fst (lambda_Response env g) = Inr (md, payload, Some e) \<Longrightarrow> e = EOF \<or> status_FromError e"
  by (auto simp: lambda_Response_def status_Err_def Let_def split: option.splits if_splits)

interpretation lambda_status: status_backend "lambda_method env"
proof unfold_locales
  show "snd (Request (lambda_method env) payload b) = Err e \<Longrightarrow> e = EOF \<or> status_FromError e" for payload b e
    using lambda_Request_result [of env payload b e] by (auto simp: lambda_wrapGrpcError_def)
  show "fst (Response (lambda_method env) b) = Inr (md, payload, Some e) \<Longrightarrow> e = EOF \<or> status_FromError e"
    for b md payload e using lambda_Response_result by simp
qed (simp add: lambda_Begin_def)

subsection \<open>A request, from its frame to its response\<close>

text \<open>
  \<open>answers env g payload r bs\<close>: the function answers the payload with \<open>r\<close>, whose body is \<open>bs\<close>.
\<close>

definition answers ::
  "lambda_env \<Rightarrow> grpcMethodBackend \<Rightarrow> string \<Rightarrow> APIGatewayProxyResponse \<Rightarrow> string \<Rightarrow> bool"
where
  "answers env g payload r bs \<longleftrightarrow>
     (\<exists>p out. json_Marshal env (lambda_event payload g) = Inr p
        \<and> invoke env (functionName g) (qualifier g) p = Ok out
        \<and> json_Unmarshal env out zero_response = (r, None) \<and> response_bytes r = Inr bs)"

definition response_metadata :: "lambda_env \<Rightarrow> APIGatewayProxyResponse \<Rightarrow> MD" where
  "response_metadata env r = metadata_Join env (metadata_New env (Headers r)) (response_MultiValueHeaders r)"

definition response_writes ::
  "lambda_env \<Rightarrow> APIGatewayProxyResponse \<Rightarrow> string \<Rightarrow> (grpcMethodBackend \<Rightarrow> grpcMethodBackend) list"
where
  "response_writes env r bs =
     [\<lambda>g. g\<lparr>lambdaResponse := Some zero_response\<rparr>, \<lambda>g. g\<lparr>lambdaResponse := Some r\<rparr>,
      \<lambda>g. g\<lparr>responseBody := bs\<rparr>, \<lambda>g. g\<lparr>outgoingMetadata := Some (response_metadata env r)\<rparr>]"

definition responded :: "lambda_env \<Rightarrow> APIGatewayProxyResponse \<Rightarrow> string \<Rightarrow> grpcMethodBackend \<Rightarrow> grpcMethodBackend" where
  "responded env r bs g =
     g\<lparr>lambdaResponse := Some r, responseBody := bs, outgoingMetadata := Some (response_metadata env r)\<rparr>"

lemma answers_Request:
  "answers env g payload r bs \<Longrightarrow> lambda_Request env payload g = (response_writes env r bs, Err EOF)"
  by (auto simp: answers_def lambda_Request_def response_writes_def response_metadata_def)

lemma fold_response_writes: "fold (\<lambda>w. w) (response_writes env r bs) g = responded env r bs g"
  by (simp add: response_writes_def responded_def)

lemma serves_answers:
  assumes "serves env serve"
  obtains r where "answers env g payload r (serve payload)" and "StatusCode r = 200"
proof -
  have "IsBase64Encoded (lambda_event payload g)" "DecodeString (Body (lambda_event payload g)) = Inr payload"
    by (simp_all add: lambda_event_def)
  with assms obtain p out r where "json_Marshal env (lambda_event payload g) = Inr p"
    "invoke env (functionName g) (qualifier g) p = Ok out" "json_Unmarshal env out zero_response = (r, None)"
    "StatusCode r = 200" "response_IsBase64Encoded r" "response_Body r = EncodeToString (serve payload)"
    unfolding serves_def by metis
  then show thesis by (intro that [of r]) (auto simp: answers_def response_bytes_def)
qed

text \<open>The backend after its metadata is known, and how it takes the one frame of a call.\<close>

definition begun :: "MD option \<Rightarrow> grpcMethodBackend \<Rightarrow> grpcMethodBackend" where
  "begun md g = (case md of None \<Rightarrow> g | Some h \<Rightarrow> g\<lparr>request_metadata := Some h\<rparr>)"

lemma lambda_takes_request:
  "answers env (begun (incomingMetadata str) g) payload r bs \<Longrightarrow>
     takes_request (lambda_method env) str payload g (begun (incomingMetadata str) g) (response_writes env r bs)"
  using answers_Request
  by (auto simp: takes_request_def begun_def lambda_Begin_def split: option.split)

subsection \<open>Properties\<close>

text \<open>
  C7. Frames survive the way through JSON in every run in which the sending goroutine asks for the
  response after the receiving one has taken the request to its end; such runs exist. In them the bytes
  a client sends, read into a frame by the codec, encoded into the event, handled by a function that
  answers base64 with \<open>serve\<close>, and decoded from its response, come back as \<open>serve\<close> of exactly these
  bytes: whatever the order of the later steps, the call does not crash, it returns only nil and only
  with this one message sent, and it can always still do so. The stream takes the header and the message.
\<close>

theorem lambda_call_roundtrip:
  assumes "serves env serve" and "\<And>md. SetHeader str md = None" and "SendMsg str 0 = None"
    and "Unmarshal (Codec proto_Marshal proto_Unmarshal) data (newFrame q) = (None, newFrame payload)"
    and "Handle (GrpcHandler (NewGrpcBackend backend)) mname [Inr payload] = Ok s0"
  shows "(\<exists>s. rpc_steps (lambda_method env) str s0 s \<and> asks_late s)
    \<and> (\<forall>s t. rpc_steps (lambda_method env) str s0 s \<and> asks_late s \<and> rpc_steps (lambda_method env) str s t \<longrightarrow>
        \<not> crashed_rpc t
        \<and> (\<forall>x. handle t = HandleReturned x \<longrightarrow>
             x = None
             \<and> map (\<lambda>p. Marshal (Codec proto_Marshal proto_Unmarshal) (newFrame p)) (sent_frames t) = [Inr (serve data)])
        \<and> (\<exists>u. rpc_steps (lambda_method env) str t u \<and> handle u = HandleReturned None
             \<and> map (\<lambda>p. Marshal (Codec proto_Marshal proto_Unmarshal) (newFrame p)) (sent_frames u) = [Inr (serve data)]))"
proof -
  let ?call = "call_backend backend mname" and ?g = "begun (incomingMetadata str) (call_backend backend mname)"
  have payload: "payload = data" using assms(4) unfolding server_codec.unmarshal_frame by (simp add: newFrame_def)
  obtain r where r: "answers env ?g payload r (serve payload)" "StatusCode r = 200"
    by (rule serves_answers [OF assms(1)])
  let ?ws = "response_writes env r (serve payload)"
  have resp: "Response (lambda_method env) (fold (\<lambda>w. w) ?ws ?g)
      = (Inr (Some (response_metadata env r), serve payload, Some EOF), responded env r (serve payload) ?g)"
    using r(2) by (simp add: fold_response_writes lambda_Response_def) (simp add: responded_def)
  have hdr: "Option.bind (Some (response_metadata env r)) (SetHeader str) = None" using assms(2) by simp
  have s0: "s0 = start_rpc [Inr payload] ?call" using assms(5) by simp
  note takes = lambda_takes_request [OF r(1)]
  show ?thesis
    using asks_late_reached [OF takes] late_response_delivered [OF takes resp hdr assms(3)]
    unfolding s0 server_codec.marshal_frame payload by fastforce
qed

definition md_stream :: "MD server_stream" where
  "md_stream = \<lparr>incomingMetadata = Some fmempty, SetHeader = (\<lambda>_. None), SendMsg = (\<lambda>_. None)\<rparr>"

lemma proto_codec_frame:
  "Unmarshal (Codec pm pu) data (newFrame q) = (None, newFrame data)" "Marshal (Codec pm pu) (newFrame p) = Inr p"
  by (rule server_codec.unmarshal_frame, rule server_codec.marshal_frame)

theorem lambda_call_roundtrip_witness:
  "\<exists>s u. rpc_steps (lambda_method echo_env) md_stream
      (start_rpc [Inr ''frame''] (call_backend \<lparr>FunctionName = ''f'', Qualifier = ''1'', EnableHealthCheck = False\<rparr> ''/s/m'')) s
    \<and> asks_late s \<and> rpc_steps (lambda_method echo_env) md_stream s u
    \<and> handle u = HandleReturned None \<and> sent_frames u = [''frame'']"
proof -
  have str: "\<And>md. SetHeader md_stream md = None" "SendMsg md_stream 0 = None" by (simp_all add: md_stream_def)
  from lambda_call_roundtrip [OF echo_serves str proto_codec_frame(1) [of "\<lambda>_ :: unit. Inl EOF" "\<lambda>_ m. (None, m)" "''frame''"]
      Handle_grpc_backend [of "\<lparr>FunctionName = ''f'', Qualifier = ''1'', EnableHealthCheck = False\<rparr>" "''/s/m''"]]
  show ?thesis unfolding proto_codec_frame(2) by (fastforce simp: map_eq_Cons_conv)
qed

lemma response_status_OK: "fst (response_status c) = StatusOK \<longleftrightarrow> c = 410"
  by (simp add: response_status_def)

text \<open>
  What the client gets for a response of the function, when \<open>Response\<close> is called after the request:
  for HTTP status 200 the decoded body and EOF, with the metadata of the response; for every other
  status an empty payload, the metadata with an error id, and an error with the gRPC code of the
  table, which is never EOF. Only 410 has no error at all.
\<close>

theorem lambda_Response_by_status:
  assumes "answers env g payload r bs"
  shows "snd (lambda_Request env payload g) = Err EOF
    \<and> fst (lambda_Response env (fold (\<lambda>w. w) (fst (lambda_Request env payload g)) g)) =
        (if StatusCode r = 200 then Inr (Some (response_metadata env r), bs, Some EOF)
         else Inr (Some (metadata_Set env ''x-error-id'' (NewString env (ids_drawn g)) (response_metadata env r)), [],
                   status_Err (response_status (StatusCode r))))
    \<and> (status_Err (response_status (StatusCode r)) = None \<longleftrightarrow> StatusCode r = 410)
    \<and> status_Err (response_status (StatusCode r)) \<noteq> Some EOF"
  using answers_Request [OF assms]
  by (simp add: fold_response_writes lambda_Response_def status_Err_def) (simp add: responded_def Let_def status_Err_def response_status_OK)

definition status_env :: "int \<Rightarrow> lambda_env" where
  "status_env code = echo_env\<lparr>json_Unmarshal := (\<lambda>p r. (r\<lparr>StatusCode := code, response_Body := p, response_IsBase64Encoded := True\<rparr>, None))\<rparr>"

lemma status_env_answers:
  "answers (status_env code) g payload (zero_response\<lparr>StatusCode := code, response_Body := EncodeToString payload,
     response_IsBase64Encoded := True\<rparr>) payload"
  by (simp add: answers_def response_bytes_def lambda_event_def status_env_def)
    (simp add: invoke_def echo_env_def)

definition sample_call :: grpcMethodBackend where
  "sample_call = call_backend \<lparr>FunctionName = ''f'', Qualifier = ''1'', EnableHealthCheck = False\<rparr> ''/s/m''"

theorem lambda_Response_by_status_witness:
  "fst (lambda_Response (status_env 404) (fold (\<lambda>w. w) (fst (lambda_Request (status_env 404) ''x'' sample_call)) sample_call))
   = Inr (Some (fmupd ''x-error-id'' [''id''] fmempty), [], Some (StatusError StatusNotFound ''not found''))"
  using lambda_Response_by_status [OF status_env_answers [of 404 sample_call "''x''"]]
  by (simp add: response_metadata_def) (simp add: status_Err_def response_status_def status_env_def echo_env_def)

definition failing :: "lambda_env \<Rightarrow> bool" where
  "failing env \<longleftrightarrow> (\<forall>name qual p out. invoke env name qual p \<noteq> Ok out)"

lemma failing_Request:
  "failing env \<Longrightarrow> lambda_Request env payload g = (ws, r) \<Longrightarrow>
     set ws \<subseteq> {draw_id} \<and> (r = Panic NilDereference \<or> (\<exists>e. r = Err e))"
  by (auto simp: failing_def lambda_Request_def invoke_def Let_def
      split: sum.splits outcome.splits option.splits prod.splits)

definition doomed :: "(grpcMethodBackend, MD) rpc \<Rightarrow> bool" where
  "doomed s \<longleftrightarrow>
     sent_frames s = [] \<and> lambdaResponse (method_state s) = None \<and> sender s = Responding 0 \<and> sendCh s = Running
     \<and> (handle s = HandleCrashed NilDereference \<or> \<not> crashed_rpc s)
     \<and> (\<forall>ws r. receiver s = Requesting ws r \<longrightarrow> set ws \<subseteq> {draw_id} \<and> (r = Panic NilDereference \<or> (\<exists>e. r = Err e)))"

lemma doomed_receive:
  assumes "failing env" and "doomed s" and "\<not> crashed_rpc s"
    and "grpcReceiveFrom (lambda_method env) str s = Some t"
  shows "doomed t"
proof (cases "receiver s")
  case Beginning
  with assms show ?thesis
    by (auto simp: grpcReceiveFrom_def doomed_def lambda_Begin_def split: option.splits)
next
  case Receiving
  show ?thesis
  proof (cases "incoming s")
    case (Cons x rest)
    with Receiving assms show ?thesis
      by (cases x; cases "lambda_Request env (projr x) (method_state s)")
        (auto simp: grpcReceiveFrom_def doomed_def dest: failing_Request)
  qed (use Receiving assms(4) in \<open>simp add: grpcReceiveFrom_def\<close>)
next
  case (Requesting ws r)
  with assms(2-4) show ?thesis
    by (cases ws; cases r) (auto simp: grpcReceiveFrom_def doomed_def draw_id_def)
qed

lemma doomed_send:
  "doomed s \<Longrightarrow> handle (grpcSendFrom (lambda_method env) str s) = HandleCrashed NilDereference
     \<and> doomed (grpcSendFrom (lambda_method env) str s)"
  by (simp add: doomed_def grpcSendFrom_def lambda_Response_def)

lemma doomed_step:
  assumes "failing env" and "rpc_step (lambda_method env) str s t" and "doomed s"
  shows "doomed t"
  using assms(2)
proof (cases rule: rpc_step.cases)
  case flow_receive
  with doomed_receive [OF assms(1,3)] show ?thesis by blast
next
  case flow_send
  with doomed_send [OF assms(3)] show ?thesis by blast
qed (use assms(3) in \<open>auto simp: doomed_def lambda_End_def crashed_rpc_def split: handle_pc.splits\<close>)

lemma doomed_steps:
  "rpc_steps (lambda_method env) str s t \<Longrightarrow> failing env \<Longrightarrow> doomed s \<Longrightarrow> doomed t"
  by (induction rule: rtranclp_induct) (auto intro: doomed_step)

lemma doomed_start: "doomed (start_rpc inc (call_backend backend mname))"
  by (simp add: doomed_def start_rpc_def call_backend_def crashed_rpc_def)

text \<open>
  C6. A failed invocation ends the whole process. When every invocation fails, no frame is ever sent
  and no call returns without an error; and at every moment the process has crashed, or the sending
  goroutine is running and its next step, which nothing can prevent, dereferences the response that
  does not exist, even after \<open>Handle\<close> has returned the error of the request.
\<close>

theorem failed_invocation_crashes:
  assumes "failing env" and "Handle (GrpcHandler (NewGrpcBackend backend)) mname inc = Ok s0"
    and "rpc_steps (lambda_method env) str s0 s"
  shows "sent_frames s = [] \<and> handle s \<noteq> HandleReturned None
    \<and> (handle s = HandleCrashed NilDereference
       \<or> \<not> crashed_rpc s \<and> rpc_step (lambda_method env) str s (grpcSendFrom (lambda_method env) str s)
         \<and> handle (grpcSendFrom (lambda_method env) str s) = HandleCrashed NilDereference)"
proof -
  have "doomed s0" using assms(2) doomed_start by auto
  from doomed_steps [OF assms(3,1) this] have d: "doomed s" .
  have "rpc_inv s" by (rule rpc_inv_reach [OF assms(2,3)])
  with d have "handle s \<noteq> HandleReturned None" by (auto simp: doomed_def)
  with d doomed_send [OF d] show ?thesis by (auto simp: doomed_def intro: flow_send)
qed

definition broken_env :: lambda_env where
  "broken_env = echo_env\<lparr>Invoke := (\<lambda>_. (Some \<lparr>FunctionError = Some ''Unhandled'', output_Payload = []\<rparr>, None))\<rparr>"

theorem failed_invocation_crashes_witness:
  "\<exists>s. rpc_steps (lambda_method broken_env) md_stream (start_rpc [Inr ''frame''] sample_call) s
    \<and> handle s = HandleCrashed NilDereference"
proof -
  let ?s0 = "start_rpc [Inr ''frame''] sample_call"
  have "failing broken_env" by (simp add: failing_def invoke_def broken_env_def)
  from failed_invocation_crashes [OF this Handle_grpc_backend rtranclp.rtrancl_refl, where str = md_stream and inc = "[Inr ''frame'']"
      and backend = "\<lparr>FunctionName = ''f'', Qualifier = ''1'', EnableHealthCheck = False\<rparr>" and mname = "''/s/m''"]
  have "rpc_step (lambda_method broken_env) md_stream ?s0 (grpcSendFrom (lambda_method broken_env) md_stream ?s0)"
    "handle (grpcSendFrom (lambda_method broken_env) md_stream ?s0) = HandleCrashed NilDereference"
    by (simp_all add: sample_call_def) (simp_all add: start_rpc_def)
  then show ?thesis by blast
qed

text \<open>
  The calls of the stream that can fail at the message with this index, and the error of the sending flow
  then.
\<close>

definition stream_failure :: "MD server_stream \<Rightarrow> nat \<Rightarrow> go_error \<Rightarrow> bool" where
  "stream_failure str n e \<longleftrightarrow>
     n = 0 \<and> (\<exists>md x. SetHeader str md = Some x
       \<and> e = StatusErrorf StatusInternal ''Unable to set header on server stream: '' x)
     \<or> (\<exists>x. SendMsg str n = Some x \<and> e = StatusErrorf StatusInternal ''Error sending result to server stream: '' x)"

definition gone_loop :: "(grpcMethodBackend, MD) rpc \<Rightarrow> bool" where
  "gone_loop s \<longleftrightarrow>
     (\<exists>r. lambdaResponse (method_state s) = Some r \<and> StatusCode r = 410) \<and> outgoingMetadata (method_state s) \<noteq> None
     \<and> (sender s = Responding (length (sent_frames s)) \<or> (\<exists>md. sender s = Delivering (length (sent_frames s)) md [] None))
     \<and> sendCh s = Running"

definition gone_call :: "MD server_stream \<Rightarrow> (grpcMethodBackend, MD) rpc \<Rightarrow> bool" where
  "gone_call str s \<longleftrightarrow>
     \<not> crashed_rpc s \<and> ended_well (receiveCh s) \<and> set (sent_frames s) \<subseteq> {[]}
     \<and> (gone_loop s \<or> (\<exists>e. stream_failure str (length (sent_frames s)) e \<and> flow_error (sendCh s) = Some e))"

lemma status_Err_gone: "status_Err (response_status 410) = None"
  by (simp add: status_Err_def response_status_def)

lemma gone_responds:
  assumes "gone_loop s" and "sender s = Responding (length (sent_frames s))"
  shows "\<exists>g md. lambda_Response env (method_state s) = (Inr (Some md, [], None), g)
    \<and> (\<exists>r. lambdaResponse g = Some r \<and> StatusCode r = 410) \<and> outgoingMetadata g \<noteq> None"
  using assms status_Err_gone by (auto simp: gone_loop_def lambda_Response_def Let_def draw_id_def)

lemma gone_send:
  assumes "gone_call str s" and "gone_loop s"
  shows "gone_call str (grpcSendFrom (lambda_method env) str s)
    \<and> ((\<nexists>e. stream_failure str (length (sent_frames s)) e) \<longrightarrow> gone_loop (grpcSendFrom (lambda_method env) str s)
        \<and> sent_frames (grpcSendFrom (lambda_method env) str s) =
            sent_frames s @ (if sender s = Responding (length (sent_frames s)) then [] else [[]])
        \<and> (sender s = Responding (length (sent_frames s)) \<longrightarrow>
             sender (grpcSendFrom (lambda_method env) str s) \<noteq> Responding (length (sent_frames s))))"
proof (cases "sender s = Responding (length (sent_frames s))")
  case True
  from gone_responds [OF assms(2) True, of env] obtain g md r where
    "lambda_Response env (method_state s) = (Inr (Some md, [], None), g)"
    "lambdaResponse g = Some r" "StatusCode r = 410" "outgoingMetadata g \<noteq> None" by blast
  with True assms show ?thesis
    by (simp add: gone_call_def gone_loop_def grpcSendFrom_def crashed_rpc_def)
next
  case False
  with assms(2) obtain md where md: "sender s = Delivering (length (sent_frames s)) md [] None"
    by (auto simp: gone_loop_def)
  define n where "n = length (sent_frames s)"
  have step: "grpcSendFrom (lambda_method env) str s = deliver str n md [] None s"
    using md by (simp add: grpcSendFrom_def n_def)
  note s = assms [unfolded gone_call_def gone_loop_def]
  show ?thesis
  proof (cases "if n = 0 then Option.bind md (SetHeader str) else None")
    case (Some x)
    then have "n = 0" "\<exists>h. SetHeader str h = Some x" by (auto simp: Option.bind_eq_Some_conv split: if_splits)
    with Some s have "gone_call str (deliver str n md [] None s)" "\<exists>e. stream_failure str n e"
      by (auto simp: gone_call_def deliver_def stream_failure_def crashed_rpc_def n_def)
    with step n_def show ?thesis by simp
  next
    case None
    note hdr = None
    show ?thesis
    proof (cases "SendMsg str n")
      case (Some x)
      with hdr s have "gone_call str (deliver str n md [] None s)" "\<exists>e. stream_failure str n e"
        by (auto simp: gone_call_def deliver_def stream_failure_def crashed_rpc_def n_def split: option.splits)
      with step n_def show ?thesis by simp
    next
      case None
      with hdr s False show ?thesis unfolding step
        by (auto simp: gone_call_def gone_loop_def deliver_def crashed_rpc_def n_def split: option.splits)
    qed
  qed
qed

lemma gone_step:
  assumes "rpc_step (lambda_method env) str s t" and "gone_call str s"
  shows "gone_call str t"
  using assms(1)
proof (cases rule: rpc_step.cases)
  case flow_send
  with assms(2) have "gone_loop s" by (cases "sendCh s") (auto simp: gone_call_def)
  with gone_send [OF assms(2)] flow_send(1) show ?thesis by blast
qed (use assms(2) in \<open>auto simp: gone_call_def gone_loop_def lambda_End_def crashed_rpc_def split: handle_pc.splits\<close>)

lemma gone_steps:
  "rpc_steps (lambda_method env) str s t \<Longrightarrow> gone_call str s \<Longrightarrow> gone_call str t"
  by (induction rule: rtranclp_induct) (auto intro: gone_step)

lemma gone_sends:
  assumes "gone_call str s" and "gone_loop s" and "\<nexists>e. stream_failure str (length (sent_frames s)) e"
  shows "\<exists>t. rpc_steps (lambda_method env) str s t \<and> sent_frames t = sent_frames s @ [[]]"
proof -
  let ?step = "\<lambda>s. grpcSendFrom (lambda_method env) str s"
  have step: "rpc_step (lambda_method env) str u (?step u)" if "gone_call str u" "gone_loop u" for u
    using that by (auto simp: gone_call_def gone_loop_def intro: flow_send)
  note sends = gone_send [of str _ env]
  show ?thesis
  proof (cases "sender s = Responding (length (sent_frames s))")
    case True
    with sends [OF assms(1,2)] assms(3) have t: "gone_call str (?step s)" "gone_loop (?step s)"
      "sent_frames (?step s) = sent_frames s" "sender (?step s) \<noteq> Responding (length (sent_frames s))" by auto
    with sends [OF t(1,2)] assms(3) have "sent_frames (?step (?step s)) = sent_frames s @ [[]]" by simp
    with step [OF assms(1,2)] step [OF t(1,2)] show ?thesis
      by (meson converse_rtranclp_into_rtranclp rtranclp.rtrancl_refl)
  next
    case False
    with sends [OF assms(1,2)] assms(3) step [OF assms(1,2)] show ?thesis by auto
  qed
qed

text \<open>
  C19. Nothing in the handler ends a call that the function answers with status 410 Gone: its gRPC status
  is OK, whose error is nil and not EOF, so the sending loop goes on. From every state in which the
  request is over and the response has not been asked for, in every run: only empty messages are sent,
  and the call never returns nil. Either the sending goroutine is still in its loop, \<open>Handle\<close> has not
  returned, and one more empty message can be sent unless the stream refuses the header or this message;
  or the stream has refused one of them, and the error for it is the result of the flow and the only one
  \<open>Handle\<close> can return.
\<close>

theorem gone_ended_by_stream_only:
  assumes "answers env (begun (incomingMetadata str) (call_backend backend mname)) payload r bs" and "StatusCode r = 410"
    and "Handle (GrpcHandler (NewGrpcBackend backend)) mname [Inr payload] = Ok s0"
    and "rpc_steps (lambda_method env) str s0 s" and "asks_late s" and "rpc_steps (lambda_method env) str s t"
  shows "\<not> crashed_rpc t \<and> set (sent_frames t) \<subseteq> {[]}
    \<and> (sendCh t = Running \<and> (\<forall>x. handle t \<noteq> HandleReturned x)
         \<and> ((\<exists>e. stream_failure str (length (sent_frames t)) e)
            \<or> (\<exists>u. rpc_steps (lambda_method env) str t u \<and> sent_frames u = sent_frames t @ [[]]))
       \<or> (\<exists>e. stream_failure str (length (sent_frames t)) e \<and> flow_error (sendCh t) = Some e
            \<and> (\<forall>x. handle t = HandleReturned x \<longrightarrow> x = Some e)))"
proof -
  let ?g = "begun (incomingMetadata str) (call_backend backend mname)"
  have s0: "s0 = start_rpc [Inr payload] (call_backend backend mname)" using assms(3) by simp
  have g1: "lambdaResponse (responded env r bs ?g) = Some r" "outgoingMetadata (responded env r bs ?g) \<noteq> None"
    by (simp_all add: responded_def)
  have resp: "fst (Response (lambda_method env) (fold (\<lambda>w. w) (response_writes env r bs) ?g)) =
      Inr (Some (metadata_Set env ''x-error-id'' (NewString env (ids_drawn ?g)) (response_metadata env r)), [], None)"
    using assms(2) status_Err_gone by (simp add: fold_response_writes lambda_Response_def) (simp add: responded_def Let_def)
  have "gone_call str s"
    using asks_late_state [OF lambda_takes_request [OF assms(1)] resp assms(4) [unfolded s0] assms(5)] assms(2,5) g1
    by (auto simp: gone_call_def gone_loop_def asks_late_def fold_response_writes)
  from gone_steps [OF assms(6) this] have t: "gone_call str t" .
  have inv: "rpc_inv t" by (rule rpc_inv_reach [OF assms(3) rtranclp_trans [OF assms(4,6)]])
  show ?thesis
  proof (cases "gone_loop t")
    case True
    then have run: "sendCh t = Running" by (simp add: gone_loop_def)
    with t inv have "handle t \<noteq> HandleReturned x" for x
      using unasked_not_ending(2) [OF inv run] by (auto simp: gone_call_def)
    moreover have "(\<exists>e. stream_failure str (length (sent_frames t)) e)
        \<or> (\<exists>u. rpc_steps (lambda_method env) str t u \<and> sent_frames u = sent_frames t @ [[]])"
      using gone_sends [OF t True] by blast
    ultimately show ?thesis using t run unfolding gone_call_def by blast
  next
    case False
    with t obtain e where e: "stream_failure str (length (sent_frames t)) e" "flow_error (sendCh t) = Some e"
      by (auto simp: gone_call_def)
    have "x = Some e" if h: "handle t = HandleReturned x" for x
      using inv h t e(2) by (cases x) (auto simp: gone_call_def ended_well_error dest!: offered_error)
    with t e show ?thesis by (auto simp: gone_call_def)
  qed
qed

definition never_fails :: "MD server_stream \<Rightarrow> bool" where
  "never_fails str \<longleftrightarrow> (\<forall>md. SetHeader str md = None) \<and> (\<forall>n. SendMsg str n = None)"

lemma md_stream_never_fails: "never_fails md_stream"
  by (simp add: never_fails_def md_stream_def)

theorem gone_ended_by_stream_only_witness:
  "\<exists>s. rpc_steps (lambda_method (status_env 410)) md_stream (start_rpc [Inr ''frame''] sample_call) s
    \<and> (\<exists>t. rpc_steps (lambda_method (status_env 410)) md_stream s t \<and> sent_frames t = sent_frames s @ [[]])"
proof -
  let ?backend = "\<lparr>FunctionName = ''f'', Qualifier = ''1'', EnableHealthCheck = False\<rparr>"
  note answers = status_env_answers [of 410 "begun (incomingMetadata md_stream) (call_backend ?backend ''/s/m'')" "''frame''"]
  obtain s where s: "rpc_steps (lambda_method (status_env 410)) md_stream (start_rpc [Inr ''frame''] sample_call) s" "asks_late s"
    using asks_late_reached [OF lambda_takes_request [OF answers]] unfolding sample_call_def by blast
  have "\<not> stream_failure md_stream n e" for n e by (simp add: stream_failure_def md_stream_def)
  with gone_ended_by_stream_only [OF answers _ Handle_grpc_backend s(1) [unfolded sample_call_def] s(2) rtranclp.rtrancl_refl] s(1)
  show ?thesis by auto
qed

lemma half_written_run:
  assumes "answers env (begun (incomingMetadata str) g) payload r bs"
  shows "(receive_alone (lambda_method env) str)\<^sup>*\<^sup>* (start_rpc [Inr payload] g)
    ((start_rpc [] ((begun (incomingMetadata str) g)\<lparr>lambdaResponse := Some r\<rparr>))
      \<lparr>receiver := Requesting (drop 2 (response_writes env r bs)) (Err EOF)\<rparr>)"
proof -
  let ?g = "begun (incomingMetadata str) g" and ?ws = "response_writes env r bs"
  let ?step = "receive_alone (lambda_method env) str"
  have "?step\<^sup>*\<^sup>* (start_rpc [Inr payload] g) ((start_rpc [] ?g)\<lparr>receiver := Requesting ?ws (Err EOF)\<rparr>)"
    by (rule receive_starts_request [OF lambda_takes_request [OF assms]])
  moreover have "?step ((start_rpc [] ?g)\<lparr>receiver := Requesting ?ws (Err EOF)\<rparr>)
      ((start_rpc [] (?g\<lparr>lambdaResponse := Some zero_response\<rparr>))\<lparr>receiver := Requesting (drop 1 ?ws) (Err EOF)\<rparr>)"
    by (simp add: receive_alone_def start_rpc_def crashed_rpc_def grpcReceiveFrom_def response_writes_def)
  moreover have "?step ((start_rpc [] (?g\<lparr>lambdaResponse := Some zero_response\<rparr>))\<lparr>receiver := Requesting (drop 1 ?ws) (Err EOF)\<rparr>)
      ((start_rpc [] (?g\<lparr>lambdaResponse := Some r\<rparr>))\<lparr>receiver := Requesting (drop 2 ?ws) (Err EOF)\<rparr>)"
    by (simp add: receive_alone_def start_rpc_def crashed_rpc_def grpcReceiveFrom_def response_writes_def)
  ultimately show ?thesis by (meson rtranclp.rtrancl_into_rtrancl)
qed

text \<open>
  C20. The two goroutines race on the response: when the sending one asks for it after the status has
  been stored and before the body has, the call returns without an error and the client gets one empty
  message instead of the function's answer, and no metadata.
\<close>

theorem half_written_response_lost:
  assumes "answers env (begun (incomingMetadata str) (call_backend backend mname)) payload r bs"
    and "StatusCode r = 200" and "never_fails str"
    and "Handle (GrpcHandler (NewGrpcBackend backend)) mname [Inr payload] = Ok s0"
  shows "\<exists>s. rpc_steps (lambda_method env) str s0 s
    \<and> handle s = HandleReturned None \<and> sent_frames s = [[]] \<and> headers_set s = []
    \<and> responseBody (method_state s) = bs"
proof -
  let ?g = "(begun (incomingMetadata str) (call_backend backend mname))\<lparr>lambdaResponse := Some r\<rparr>"
  let ?t = "(start_rpc [] ?g)\<lparr>receiver := Requesting (drop 2 (response_writes env r bs)) (Err EOF)\<rparr>"
  let ?u = "?t\<lparr>sender := Delivering 0 None [] (Some EOF), sent_frames := [[]], sendCh := Offering None\<rparr>"
  let ?v = "?u\<lparr>method_state := responded env r bs ?g, receiver := Requesting [] (Err EOF), receiveCh := Offering None\<rparr>"
  have "rpc_step (lambda_method env) str ?t (?t\<lparr>sender := Delivering 0 None [] (Some EOF)\<rparr>)"
    using flow_send [of ?t "lambda_method env" str] assms(2)
    by (simp add: start_rpc_def crashed_rpc_def grpcSendFrom_def lambda_Response_def begun_def call_backend_def
        split: option.splits)
  moreover have "rpc_step (lambda_method env) str (?t\<lparr>sender := Delivering 0 None [] (Some EOF)\<rparr>) ?u"
    using flow_send [of "?t\<lparr>sender := Delivering 0 None [] (Some EOF)\<rparr>" "lambda_method env" str] assms(3)
    by (simp add: start_rpc_def crashed_rpc_def grpcSendFrom_def deliver_def never_fails_def)
  ultimately have sent: "rpc_steps (lambda_method env) str ?t ?u" by (meson converse_rtranclp_into_rtranclp rtranclp.rtrancl_refl)
  have "(receive_alone (lambda_method env) str)\<^sup>*\<^sup>* ?u ?v"
    using receive_request_over [of ?u _ "lambda_method env" str]
    by (simp add: crashed_rpc_def start_rpc_def response_writes_def responded_def)
  note received = receive_alone_steps [OF this]
  have "selecting ?v" "ended_well (receiveCh ?v)" "ended_well (sendCh ?v)" "rpc_inv ?v"
    by (simp_all add: selecting_def start_rpc_def)
  from ended_flows_return [OF this(1,4,2,3), of "lambda_method env" str] obtain w
    where w: "rpc_steps (lambda_method env) str ?v w" "ends_as (lambda_method env) ?v w" by blast
  have "rpc_steps (lambda_method env) str (start_rpc [Inr payload] (call_backend backend mname)) w"
    using receive_alone_steps [OF half_written_run [OF assms(1)]] sent received w(1) by (meson rtranclp_trans)
  moreover have "s0 = start_rpc [Inr payload] (call_backend backend mname)" using assms(4) by simp
  ultimately show ?thesis
    using w(2) by (auto simp: ends_as_def lambda_End_def responded_def start_rpc_def)
qed

theorem half_written_response_lost_witness:
  "\<exists>s. rpc_steps (lambda_method (status_env 200)) md_stream (start_rpc [Inr ''frame''] sample_call) s
    \<and> handle s = HandleReturned None \<and> sent_frames s = [[]]"
  unfolding sample_call_def
  using half_written_response_lost [OF status_env_answers [of 200 _ "''frame''"] _ md_stream_never_fails Handle_grpc_backend,
      of "\<lparr>FunctionName = ''f'', Qualifier = ''1'', EnableHealthCheck = False\<rparr>" "''/s/m''"]
  by auto

end
