(* ===== verification/Lambda_Http.thy ===== *)
theory Lambda_Http
  imports Lambda_Invoke Http_Header
begin

section \<open>The HTTP backend of a Lambda function (\<^verbatim>\<open>http_backend.go\<close>)\<close>

subsection \<open>The response writer (\<^verbatim>\<open>net/http\<close>)\<close>

text \<open>
  The first \<open>WriteHeader\<close> with a final status sends the headers as they are then; a later one is
  ignored, and a code that is not a three-digit number panics. \<open>Write\<close> sends the status 200 when none
  was sent, and no body for a status that allows none. \<open>write_error\<close> is the failure of the connection.
\<close>

record response_writer =
  header_map :: MD
  wrote_header :: "(int \<times> MD) option"
  written :: string

definition new_writer :: response_writer where
  "new_writer = \<lparr>header_map = fmempty, wrote_header = None, written = []\<rparr>"

definition WriteHeader :: "int \<Rightarrow> response_writer \<Rightarrow> unit outcome \<times> response_writer" where
  "WriteHeader code w =
     (if wrote_header w \<noteq> None then (Ok (), w)
      else if code < 100 \<or> 999 < code then (Panic InvalidWriteHeaderCode, w)
      else if code \<le> 199 \<and> code \<noteq> 101 then (Ok (), w)
      else (Ok (), w\<lparr>wrote_header := Some (code, header_map w)\<rparr>))"

definition body_allowed :: "int \<Rightarrow> bool" where
  "body_allowed code \<longleftrightarrow> \<not> (100 \<le> code \<and> code \<le> 199) \<and> code \<noteq> 204 \<and> code \<noteq> 304"

definition Write :: "go_error option \<Rightarrow> string \<Rightarrow> response_writer \<Rightarrow> response_writer" where
  "Write write_error bs w =
     (let w1 = (if wrote_header w = None then w\<lparr>wrote_header := Some (200, header_map w)\<rparr> else w);
          code = fst (the (wrote_header w1))
      in if body_allowed code \<and> write_error = None then w1\<lparr>written := written w1 @ bs\<rparr> else w1)"

definition header_values :: "MD \<Rightarrow> string \<Rightarrow> string list" where
  "header_values h k = (case fmlookup h k of None \<Rightarrow> [] | Some vs \<Rightarrow> vs)"

definition Header_Add :: "string \<Rightarrow> string \<Rightarrow> MD \<Rightarrow> MD" where
  "Header_Add k v h = fmupd (CanonicalHeaderKey k) (header_values h (CanonicalHeaderKey k) @ [v]) h"

subsection \<open>The handler\<close>

record http_request =
  request_Method :: string
  request_Path :: string
  request_Header :: MD
  request_Query :: MD
  request_Body :: "go_error + string"

record httpBackend =
  lambdaBackend :: LambdaBackend

definition NewHttpBackend :: "LambdaBackend \<Rightarrow> httpBackend" where
  "NewHttpBackend backend = \<lparr>lambdaBackend = backend\<rparr>"

lemma lambdaBackend_New [simp]: "lambdaBackend (NewHttpBackend backend) = backend"
  by (simp add: NewHttpBackend_def)

definition wrapHttpError :: "go_error option \<Rightarrow> string \<Rightarrow> response_writer \<Rightarrow> unit outcome \<times> response_writer" where
  "wrapHttpError write_error errorId w =
     and_then (WriteHeader 500 (w\<lparr>header_map := Header_Add ''x-error-id'' errorId (header_map w)\<rparr>))
       (\<lambda>_ w'. (Ok (), Write write_error (''internal server error: '' @ errorId) w'))"

definition http_event :: "http_request \<Rightarrow> string \<Rightarrow> APIGatewayProxyRequest" where
  "http_event r body =
     \<lparr>HTTPMethod = request_Method r, Path = request_Path r, MultiValueHeaders = Some (request_Header r),
      MultiValueQueryStringParameters = Some (request_Query r), Body = body, IsBase64Encoded = False\<rparr>"

definition empty_response :: APIGatewayProxyResponse where
  "empty_response = zero_response\<lparr>Headers := Some fmempty, response_MultiValueHeaders := Some fmempty\<rparr>"

text \<open>The loop over \<open>response.Headers\<close>, in the order \<open>ks\<close> of the map.\<close>

fun add_headers :: "(string, string) gomap \<Rightarrow> string list \<Rightarrow> MD \<Rightarrow> MD" where
  "add_headers m [] h = h"
| "add_headers m (k # ks) h =
     (case fmlookup m k of None \<Rightarrow> add_headers m ks h | Some v \<Rightarrow> add_headers m ks (Header_Add k v h))"

definition response_headers :: "string list \<Rightarrow> string list \<Rightarrow> APIGatewayProxyResponse \<Rightarrow> MD \<Rightarrow> MD" where
  "response_headers mks ks r h =
     (let h1 = (case response_MultiValueHeaders r of None \<Rightarrow> h | Some m \<Rightarrow> copy_entries id m mks h)
      in case Headers r of None \<Rightarrow> h1 | Some m \<Rightarrow> add_headers m ks h1)"

definition write_response ::
  "go_error option \<Rightarrow> string \<Rightarrow> string list \<Rightarrow> string list \<Rightarrow> APIGatewayProxyResponse \<Rightarrow> response_writer \<Rightarrow>
   unit outcome \<times> response_writer"
where
  "write_response write_error errorId mks ks r w =
     and_then (WriteHeader (StatusCode r) (w\<lparr>header_map := response_headers mks ks r (header_map w)\<rparr>))
       (\<lambda>_ w'. case response_bytes r of
            Inl err \<Rightarrow> wrapHttpError write_error errorId w'
          | Inr bs \<Rightarrow> (Ok (), Write write_error bs w'))"

definition http_ServeHTTP ::
  "lambda_env \<Rightarrow> httpBackend \<Rightarrow> go_error option \<Rightarrow> string \<Rightarrow> string list \<Rightarrow> string list \<Rightarrow> http_request \<Rightarrow>
   response_writer \<Rightarrow> unit outcome \<times> response_writer"
where
  "http_ServeHTTP env h write_error errorId mks ks r w =
     (case request_Body r of
        Inl err \<Rightarrow> wrapHttpError write_error errorId w
      | Inr body \<Rightarrow>
          (case json_Marshal env (http_event r body) of
             Inl err \<Rightarrow> wrapHttpError write_error errorId w
           | Inr payload \<Rightarrow>
               (case invoke env (FunctionName (lambdaBackend h)) (Qualifier (lambdaBackend h)) payload of
                  Panic p \<Rightarrow> (Panic p, w)
                | Err err \<Rightarrow> wrapHttpError write_error errorId w
                | Ok out \<Rightarrow>
                    (case json_Unmarshal env out empty_response of
                       (resp, Some err) \<Rightarrow> wrapHttpError write_error errorId w
                     | (resp, None) \<Rightarrow> write_response write_error errorId mks ks resp w))))"

text \<open>\<open>answered env backend r resp\<close>: the function answers the request with \<open>resp\<close>.\<close>

definition answered :: "lambda_env \<Rightarrow> LambdaBackend \<Rightarrow> http_request \<Rightarrow> APIGatewayProxyResponse \<Rightarrow> bool" where
  "answered env backend r resp \<longleftrightarrow>
     (\<exists>body payload out. request_Body r = Inr body \<and> json_Marshal env (http_event r body) = Inr payload
        \<and> invoke env (FunctionName backend) (Qualifier backend) payload = Ok out
        \<and> json_Unmarshal env out empty_response = (resp, None))"

lemma answered_ServeHTTP:
  "answered env backend r resp \<Longrightarrow>
     http_ServeHTTP env (NewHttpBackend backend) write_error errorId mks ks r w = write_response write_error errorId mks ks resp w"
  by (auto simp: answered_def http_ServeHTTP_def)

lemma header_values_Add:
  "header_values (Header_Add k v h) k' = header_values h k' @ (if CanonicalHeaderKey k = k' then [v] else [])"
  by (simp add: Header_Add_def header_values_def)

lemma header_values_add_headers:
  "header_values (add_headers m ks h) k' =
     header_values h k' @ map (\<lambda>k. the (fmlookup m k)) (filter (\<lambda>k. k \<in> fmdom' m \<and> CanonicalHeaderKey k = k') ks)"
  by (induction m ks h rule: add_headers.induct)
    (auto simp: header_values_Add fmlookup_dom'_iff split: option.splits)

lemma header_values_copy:
  "enumerates mks m \<Longrightarrow> header_values (copy_entries id m mks h) k =
     (case fmlookup m k of Some vs \<Rightarrow> vs | None \<Rightarrow> header_values h k)"
  by (auto simp: header_values_def lookup_copy_entries enumerates_def fmlookup_dom'_iff split: option.split)

lemma content_type_key: "CanonicalHeaderKey ''content-type'' = ''Content-Type''"
  by code_simp


lemma filter_enumerated:
  "enumerates ks m \<Longrightarrow> filter (\<lambda>k. k \<in> fmdom' m \<and> P k) ks = filter P ks"
  by (auto simp: enumerates_def intro: filter_cong)

subsection \<open>Properties\<close>

lemma WriteHeader_final:
  "200 \<le> code \<Longrightarrow> code \<le> 999 \<Longrightarrow> wrote_header w = None \<Longrightarrow>
     WriteHeader code w = (Ok (), w\<lparr>wrote_header := Some (code, header_map w)\<rparr>)"
  by (simp add: WriteHeader_def)

lemma response_headers_values:
  assumes "response_MultiValueHeaders r = Some mm" and "Headers r = Some m" and "enumerates mks mm" and "enumerates ks m"
  shows "header_values (response_headers mks ks r h) k =
     (case fmlookup mm k of Some vs \<Rightarrow> vs | None \<Rightarrow> header_values h k)
     @ map (\<lambda>k'. the (fmlookup m k')) (filter (\<lambda>k'. CanonicalHeaderKey k' = k) ks)"
  by (simp add: response_headers_def assms(1,2) header_values_add_headers header_values_copy [OF assms(3)]
      filter_enumerated [OF assms(4)])

text \<open>What the client gets for a response of the function.\<close>

lemma http_answer:
  assumes "answered env backend r resp" and "200 \<le> StatusCode resp" and "StatusCode resp \<le> 999"
    and "response_bytes resp = Inr bs" and "response_MultiValueHeaders resp = Some mm" and "Headers resp = Some m"
    and "enumerates mks mm" and "enumerates ks m"
    and "http_ServeHTTP env (NewHttpBackend backend) None errorId mks ks r new_writer = (res, w)"
  shows "res = Ok () \<and> written w = (if body_allowed (StatusCode resp) then bs else [])
    \<and> (\<exists>h. wrote_header w = Some (StatusCode resp, h)
        \<and> (\<forall>k. header_values h k = (case fmlookup mm k of Some vs \<Rightarrow> vs | None \<Rightarrow> [])
              @ map (\<lambda>k'. the (fmlookup m k')) (filter (\<lambda>k'. CanonicalHeaderKey k' = k) ks)))"
proof -
  let ?h = "response_headers mks ks resp fmempty"
  have "write_response None errorId mks ks resp new_writer =
      (Ok (), Write None bs (new_writer\<lparr>header_map := ?h, wrote_header := Some (StatusCode resp, ?h)\<rparr>))"
    using assms(2-4) by (simp add: write_response_def WriteHeader_final new_writer_def)
  with assms(9) have "res = Ok ()" "w = Write None bs (new_writer\<lparr>header_map := ?h, wrote_header := Some (StatusCode resp, ?h)\<rparr>)"
    by (simp_all add: answered_ServeHTTP [OF assms(1)])
  moreover have "header_values ?h k = (case fmlookup mm k of Some vs \<Rightarrow> vs | None \<Rightarrow> [])
      @ map (\<lambda>k'. the (fmlookup m k')) (filter (\<lambda>k'. CanonicalHeaderKey k' = k) ks)" for k
    by (simp add: response_headers_values [OF assms(5,6,7,8)] split: option.split) (simp add: header_values_def)
  ultimately show ?thesis by (simp add: Write_def new_writer_def Let_def)
qed

text \<open>
  What a client gets for a response of the function with a final status: that status, the multi-value
  headers under the names the function gave them, followed by the single-value headers under their
  canonical names in the order of the map, and the body, decoded when it is base64. This holds for
  every order of both loops.
\<close>

theorem http_response:
  assumes "answered env backend r resp" and "200 \<le> StatusCode resp" and "StatusCode resp \<le> 999"
    and "response_bytes resp = Inr bs" and "response_MultiValueHeaders resp = Some mm" and "Headers resp = Some m"
    and "enumerates mks mm" and "enumerates ks m"
    and "http_ServeHTTP env (NewHttpBackend backend) None errorId mks ks r new_writer = (res, w)"
  shows "res = Ok () \<and> written w = (if body_allowed (StatusCode resp) then bs else [])
    \<and> (\<exists>h. wrote_header w = Some (StatusCode resp, h)
        \<and> (\<forall>k. header_values h k = (case fmlookup mm k of Some vs \<Rightarrow> vs | None \<Rightarrow> [])
              @ map (\<lambda>k'. the (fmlookup m k')) (filter (\<lambda>k'. CanonicalHeaderKey k' = k) ks)))"
  by (rule http_answer [OF assms])

text \<open>An environment that answers every request with a given response, for the witnesses.\<close>

definition fixed_env :: "APIGatewayProxyResponse \<Rightarrow> lambda_env" where
  "fixed_env resp = echo_env\<lparr>json_Unmarshal := (\<lambda>p r. (resp, None))\<rparr>"

definition get_request :: http_request where
  "get_request = \<lparr>request_Method = ''GET'', request_Path = ''/'', request_Header = fmempty, request_Query = fmempty,
     request_Body = Inr []\<rparr>"

definition sample_function :: LambdaBackend where
  "sample_function = \<lparr>FunctionName = ''f'', Qualifier = ''1'', EnableHealthCheck = False\<rparr>"

lemma fixed_answered: "answered (fixed_env resp) sample_function get_request resp"
  by (simp add: answered_def get_request_def fixed_env_def) (simp add: invoke_def echo_env_def)

definition json_response :: APIGatewayProxyResponse where
  "json_response = \<lparr>StatusCode = 201, Headers = Some (fmupd ''content-type'' ''text/plain'' fmempty),
     response_MultiValueHeaders = Some fmempty, response_Body = ''YWJj'', response_IsBase64Encoded = True\<rparr>"

lemma json_response_bytes: "response_bytes json_response = Inr ''abc''"
  by code_simp

theorem http_response_witness:
  "\<exists>w h. http_ServeHTTP (fixed_env json_response) (NewHttpBackend sample_function) None ''id'' [] [''content-type''] get_request new_writer = (Ok (), w)
    \<and> written w = ''abc'' \<and> wrote_header w = Some (201, h) \<and> header_values h ''Content-Type'' = [''text/plain'']"
proof -
  obtain res w where run: "http_ServeHTTP (fixed_env json_response) (NewHttpBackend sample_function) None ''id'' [] [''content-type'']
      get_request new_writer = (res, w)" by fastforce
  have "enumerates [''content-type''] (fmupd ''content-type'' ''text/plain'' fmempty)" by (auto simp: enumerates_def)
  from http_response [OF fixed_answered _ _ json_response_bytes _ _ _ this run, of fmempty] run content_type_key
  show ?thesis by (auto simp: json_response_def body_allowed_def)
qed








text \<open>
  C23. The status of the function is passed to \<open>WriteHeader\<close> unchecked: a response whose status is not
  between 100 and 999, such as the zero of a function that does not answer in the format of API
  Gateway, makes the handler panic before anything is sent.
\<close>

theorem http_status_out_of_range:
  assumes "answered env backend r resp"
  shows "(fst (http_ServeHTTP env (NewHttpBackend backend) write_error errorId mks ks r new_writer) = Panic InvalidWriteHeaderCode
      \<longleftrightarrow> StatusCode resp < 100 \<or> 999 < StatusCode resp)
    \<and> (fst (http_ServeHTTP env (NewHttpBackend backend) write_error errorId mks ks r new_writer) = Panic InvalidWriteHeaderCode
      \<longrightarrow> wrote_header (snd (http_ServeHTTP env (NewHttpBackend backend) write_error errorId mks ks r new_writer)) = None)"
  unfolding answered_ServeHTTP [OF assms] write_response_def
  by (cases "response_bytes resp")
    (auto simp: WriteHeader_def new_writer_def wrapHttpError_def)

theorem http_status_out_of_range_witness:
  "fst (http_ServeHTTP (fixed_env zero_response) (NewHttpBackend sample_function) None ''id'' [] [] get_request new_writer)
   = Panic InvalidWriteHeaderCode"
  using http_status_out_of_range [OF fixed_answered, of zero_response] by (simp add: zero_response_def)

end
