(* ===== verification/Aws_Provider.thy ===== *)
theory Aws_Provider
  imports Http_Router Lambda_Grpc Lambda_Http "HOL-Library.Multiset"
begin

section \<open>The AWS provider (\<^verbatim>\<open>pkg/providers/aws/provider.go\<close>)\<close>

text \<open>
  The provider makes the Lambda backends of the router's handlers and health checks them. The AWS
  clients it makes at its start are not modelled. \<open>lambda_backend\<close> is an \<open>http.Handler\<close> that the
  constructors of \<^verbatim>\<open>pkg/providers/aws/lambda\<close> make.
\<close>

subsection \<open>Backends\<close>

datatype lambda_backend = GrpcBackend grpcBackend | HttpBackend httpBackend

definition aws_ToGrpcBackend :: "Router_Handler \<Rightarrow> lambda_backend outcome" where
  "aws_ToGrpcBackend h =
     (case Backend h of
        Some (Router_Handler_AwsLambda b) \<Rightarrow> Ok (GrpcBackend (NewGrpcBackend b))
      | None \<Rightarrow> Panic (LogPanic ''no backend found''))"

definition aws_ToHttpBackend :: "Router_Handler \<Rightarrow> lambda_backend outcome" where
  "aws_ToHttpBackend h =
     (case Backend h of
        Some (Router_Handler_AwsLambda b) \<Rightarrow> Ok (HttpBackend (NewHttpBackend b))
      | None \<Rightarrow> Panic (LogPanic ''no backend found''))"

definition aws_BackendProviderKey :: BackendProviderKey where
  "aws_BackendProviderKey = AWSBackendProvider"

definition aws_provider :: "lambda_backend backend_provider" where
  "aws_provider = \<lparr>ToGrpcBackend = aws_ToGrpcBackend, ToHttpBackend = aws_ToHttpBackend\<rparr>"

interpretation aws_backends: backend_contract aws_ToGrpcBackend aws_ToHttpBackend
  by unfold_locales
     (auto simp: aws_ToGrpcBackend_def aws_ToHttpBackend_def split: Router_Handler_Backend.split option.split)

subsection \<open>Health checks\<close>

text \<open>
  \<open>HealthCheckHandlers\<close> starts a goroutine that feeds the handlers to the buffered channel
  \<open>healthCheckCh\<close> and starts one \<open>doHealthCheck\<close> for each; then it waits for them and selects on the
  stop channel, the context and the interval. A call that finds the stop channel made sends on it
  first, which blocks until the goroutine selects. A new goroutine is started only when there never
  was one or the running one took that message and returned, so there is at most one: \<open>feeder\<close>.
  \<open>submitted\<close> and \<open>checked\<close> record the handlers given to goroutines and those a check has received.
\<close>

datatype feeder =
    NoFeeder
  | Feeding "Router_Handler list"
  | Starting "Router_Handler list"
  | WaitingChecks
  | SelectingStop

datatype check = ReceivingHandler | Checking Router_Handler | Checked

datatype caller = NotCalling | SendingStop "Router_Handler list"

record health =
  healthCheckInterval :: int
  healthCheckParallelism :: nat
  healthCheckCh :: "Router_Handler list"
  stopCh_made :: bool
  healthCheckWg :: nat
  feeder :: feeder
  checks :: "check list"
  caller :: caller
  submitted :: "Router_Handler list"
  checked :: "Router_Handler list"
  check_panic :: "go_panic option"

definition NewHealth :: "int \<Rightarrow> nat \<Rightarrow> health" where
  "NewHealth interval parallelism =
     \<lparr>healthCheckInterval = interval, healthCheckParallelism = parallelism, healthCheckCh = [],
      stopCh_made = False, healthCheckWg = 0, feeder = NoFeeder, checks = [], caller = NotCalling,
      submitted = [], checked = [], check_panic = None\<rparr>"

text \<open>
  \<open>NewProvider\<close> with its options applied over the defaults. It panics when the AWS configuration cannot
  be loaded (\<open>config\<close> is the text of that error), and \<open>make\<close> panics on a negative capacity. The clients
  it makes are not modelled.
\<close>

datatype provider_option = WithHealthCheckInterval int | WithHealthCheckParallelism int | WithDynamoDBEndpoint string

record provider_options =
  provider_interval :: int
  option_parallelism :: int
  dynamodbEndpoint :: string

fun apply_provider_option :: "provider_option \<Rightarrow> provider_options \<Rightarrow> provider_options" where
  "apply_provider_option (WithHealthCheckInterval i) p = p\<lparr>provider_interval := i\<rparr>"
| "apply_provider_option (WithHealthCheckParallelism n) p = p\<lparr>option_parallelism := n\<rparr>"
| "apply_provider_option (WithDynamoDBEndpoint e) p = p\<lparr>dynamodbEndpoint := e\<rparr>"

definition NewProvider :: "string option \<Rightarrow> provider_option list \<Rightarrow> health outcome" where
  "NewProvider config opts =
     (let p = fold apply_provider_option opts \<lparr>provider_interval = 0, option_parallelism = 4, dynamodbEndpoint = []\<rparr> in
      case config of
        Some err \<Rightarrow> Panic (LogPanic err)
      | None \<Rightarrow>
          (if option_parallelism p < 0 then Panic MakeChanSize
           else Ok (NewHealth (provider_interval p) (nat (option_parallelism p)))))"

text \<open>The resolver: the URL and the signing region of DynamoDB, by the name of the service.\<close>

definition customResolver :: "string \<Rightarrow> string \<Rightarrow> string \<Rightarrow> (string \<times> string) option" where
  "customResolver serviceID endpoint svc =
     (if length endpoint > 0 \<and> svc = serviceID then Some (endpoint, ''us-east-1'') else None)"

text \<open>
  The client factory of an assumed role: the errors of both calls panic, and so does a result without
  credentials. \<open>assume\<close> and \<open>load_config\<close> are what the calls return.
\<close>

definition GetS3ClientWithRole ::
  "(go_error + (string \<times> string \<times> string) option) \<Rightarrow> (string \<Rightarrow> string \<Rightarrow> string \<Rightarrow> go_error + 'client) \<Rightarrow> 'client outcome"
where
  "GetS3ClientWithRole assume load_config =
     (case assume of
        Inl err \<Rightarrow> Panic (LogPanic ''error assuming role'')
      | Inr None \<Rightarrow> Panic NilDereference
      | Inr (Some (key, secret, token)) \<Rightarrow>
          (case load_config key secret token of
             Inl err \<Rightarrow> Panic (LogPanic ''error loading config'')
           | Inr client \<Rightarrow> Ok client))"

definition start_feeder :: "Router_Handler list \<Rightarrow> health \<Rightarrow> health" where
  "start_feeder hs s = s\<lparr>feeder := Feeding hs, submitted := submitted s @ hs\<rparr>"

text \<open>A call, up to where it returns or blocks on the stop channel.\<close>

definition HealthCheckHandlers :: "Router_Handler list \<Rightarrow> health \<Rightarrow> health" where
  "HealthCheckHandlers hs s =
     (if length hs = 0 \<or> healthCheckInterval s = 0 then s
      else if stopCh_made s then s\<lparr>caller := SendingStop hs\<rparr>
      else start_feeder hs (s\<lparr>stopCh_made := True\<rparr>))"

text \<open>
  What the goroutine of a check does with its handler. A panic in it, such as that of
  \<open>lambda.DoHealthcheck\<close> on a failed call, ends the whole process (\<open>check_panic\<close>).
\<close>

definition doHealthCheck :: "lambda_env \<Rightarrow> (string \<Rightarrow> string) \<Rightarrow> Router_Handler \<Rightarrow> unit outcome" where
  "doHealthCheck env proto_Marshal h =
     (case Backend h of
        Some (Router_Handler_AwsLambda b) \<Rightarrow> snd (lambda_DoHealthcheck env proto_Marshal b)
      | None \<Rightarrow> Ok ())"

inductive health_step :: "health \<Rightarrow> health \<Rightarrow> bool" where
  feed_send: "feeder s = Feeding (h # hs) \<Longrightarrow> length (healthCheckCh s) < healthCheckParallelism s \<Longrightarrow> check_panic s = None \<Longrightarrow>
     health_step s (s\<lparr>feeder := Starting hs, healthCheckCh := healthCheckCh s @ [h]\<rparr>)"
| feed_start: "feeder s = Starting hs \<Longrightarrow> check_panic s = None \<Longrightarrow>
     health_step s (s\<lparr>feeder := Feeding hs, healthCheckWg := Suc (healthCheckWg s),
                      checks := checks s @ [ReceivingHandler]\<rparr>)"
| check_receive: "j < length (checks s) \<Longrightarrow> checks s ! j = ReceivingHandler \<Longrightarrow> healthCheckCh s = h # q \<Longrightarrow> check_panic s = None \<Longrightarrow>
     health_step s (s\<lparr>checks := (checks s)[j := Checking h], healthCheckCh := q, checked := checked s @ [h]\<rparr>)"
| check_done: "j < length (checks s) \<Longrightarrow> checks s ! j = Checking h \<Longrightarrow> doHealthCheck env proto_Marshal h = Ok () \<Longrightarrow> check_panic s = None \<Longrightarrow>
     health_step s (s\<lparr>checks := (checks s)[j := Checked], healthCheckWg := healthCheckWg s - 1\<rparr>)"
| check_panics: "j < length (checks s) \<Longrightarrow> checks s ! j = Checking h \<Longrightarrow> doHealthCheck env proto_Marshal h = Panic p \<Longrightarrow> check_panic s = None \<Longrightarrow>
     health_step s (s\<lparr>check_panic := Some p\<rparr>)"
| feed_end: "feeder s = Feeding [] \<Longrightarrow> check_panic s = None \<Longrightarrow> health_step s (s\<lparr>feeder := WaitingChecks\<rparr>)"
| feed_waited: "feeder s = WaitingChecks \<Longrightarrow> healthCheckWg s = 0 \<Longrightarrow> check_panic s = None \<Longrightarrow>
     health_step s (s\<lparr>feeder := SelectingStop\<rparr>)"
| stop_taken: "feeder s = SelectingStop \<Longrightarrow> caller s = SendingStop hs \<Longrightarrow> check_panic s = None \<Longrightarrow>
     health_step s (start_feeder hs (s\<lparr>caller := NotCalling\<rparr>))"
| interval_over: "feeder s = SelectingStop \<Longrightarrow> check_panic s = None \<Longrightarrow> health_step s (s\<lparr>feeder := NoFeeder\<rparr>)"

text \<open>Runs: steps of the goroutines, and calls while no call is blocked.\<close>

inductive health_run :: "health \<Rightarrow> health \<Rightarrow> bool" where
  health_refl: "health_run s s"
| health_next: "health_run s t \<Longrightarrow> health_step t u \<Longrightarrow> health_run s u"
| health_call: "health_run s t \<Longrightarrow> caller t = NotCalling \<Longrightarrow> check_panic t = None \<Longrightarrow>
     health_run s (HealthCheckHandlers hs t)"

subsection \<open>The invariant\<close>

fun unfed :: "feeder \<Rightarrow> Router_Handler list" where
  "unfed (Feeding hs) = hs"
| "unfed (Starting hs) = hs"
| "unfed _ = []"

fun unstarted :: "feeder \<Rightarrow> nat" where
  "unstarted (Starting hs) = 1"
| "unstarted _ = 0"

fun idle_feeder :: "feeder \<Rightarrow> bool" where
  "idle_feeder NoFeeder = True"
| "idle_feeder SelectingStop = True"
| "idle_feeder _ = False"

definition open_checks :: "check list \<Rightarrow> nat" where
  "open_checks cs = length (filter (\<lambda>c. c \<noteq> Checked) cs)"

definition receiving_checks :: "check list \<Rightarrow> nat" where
  "receiving_checks cs = length (filter (\<lambda>c. c = ReceivingHandler) cs)"

lemma count_update:
  "j < length cs \<Longrightarrow> length (filter P (cs[j := c])) + (if P (cs ! j) then 1 else 0) =
     length (filter P cs) + (if P c then 1 else 0)"
proof (induction cs arbitrary: j)
  case (Cons x cs)
  then show ?case by (cases j) auto
qed simp

lemma receiving_le_open: "receiving_checks cs \<le> open_checks cs"
  unfolding receiving_checks_def open_checks_def by (induction cs) auto

definition health_inv :: "health \<Rightarrow> bool" where
  "health_inv s \<longleftrightarrow>
     mset (submitted s) = mset (checked s) + mset (healthCheckCh s) + mset (unfed (feeder s))
     \<and> healthCheckWg s = open_checks (checks s)
     \<and> length (healthCheckCh s) = receiving_checks (checks s) + unstarted (feeder s)
     \<and> (idle_feeder (feeder s) \<longrightarrow> open_checks (checks s) = 0)
     \<and> (feeder s = NoFeeder \<longrightarrow> stopCh_made s \<or> submitted s = [])
     \<and> (stopCh_made s \<or> feeder s = NoFeeder)"

lemma health_inv_new: "health_inv (NewHealth interval parallelism)"
  by (simp add: health_inv_def NewHealth_def open_checks_def receiving_checks_def)

lemma idle_no_receiving: "open_checks cs = 0 \<Longrightarrow> receiving_checks cs = 0"
  using receiving_le_open [of cs] by simp

lemma health_inv_step: "health_step s t \<Longrightarrow> health_inv s \<Longrightarrow> health_inv t"
proof (induction rule: health_step.induct)
  case (feed_start s hs)
  then show ?case by (simp add: health_inv_def open_checks_def receiving_checks_def)
next
  case (check_receive j s h q)
  have "open_checks ((checks s)[j := Checking h]) = open_checks (checks s)"
    and "Suc (receiving_checks ((checks s)[j := Checking h])) = receiving_checks (checks s)"
    using count_update [OF check_receive(1), of "\<lambda>c. c \<noteq> Checked" "Checking h"]
      count_update [OF check_receive(1), of "\<lambda>c. c = ReceivingHandler" "Checking h"] check_receive(2)
    by (simp_all add: open_checks_def receiving_checks_def)
  with check_receive show ?case by (simp add: health_inv_def)
next
  case (check_done j s h)
  have "Suc (open_checks ((checks s)[j := Checked])) = open_checks (checks s)"
    and "receiving_checks ((checks s)[j := Checked]) = receiving_checks (checks s)"
    using count_update [OF check_done(1), of "\<lambda>c. c \<noteq> Checked" Checked]
      count_update [OF check_done(1), of "\<lambda>c. c = ReceivingHandler" Checked] check_done(2)
    by (simp_all add: open_checks_def receiving_checks_def)
  with check_done show ?case by (auto simp: health_inv_def)
next
  case (stop_taken s hs)
  then show ?case by (auto simp: health_inv_def start_feeder_def dest: idle_no_receiving)
qed (simp_all add: health_inv_def)

lemma health_inv_call: "health_inv s \<Longrightarrow> health_inv (HealthCheckHandlers hs s)"
  by (auto simp: health_inv_def HealthCheckHandlers_def start_feeder_def)

lemma health_run_inv: "health_run s t \<Longrightarrow> health_inv s \<Longrightarrow> health_inv t"
  by (induction rule: health_run.induct) (auto intro: health_inv_step health_inv_call)

lemma blocked_step:
  "health_step s t \<Longrightarrow> health_inv s \<Longrightarrow> feeder s = NoFeeder \<Longrightarrow> caller s = SendingStop hs \<Longrightarrow>
     feeder t = NoFeeder \<and> caller t = SendingStop hs \<and> submitted t = submitted s"
  by (induction rule: health_step.induct) auto

text \<open>Without parallelism the channel has no buffer, and the feeder blocks on its first send for ever.\<close>

definition starved :: "health \<Rightarrow> bool" where
  "starved s \<longleftrightarrow> healthCheckParallelism s = 0 \<and> (feeder s = NoFeeder \<or> (\<exists>hs. feeder s = Feeding hs \<and> hs \<noteq> []))
     \<and> checks s = [] \<and> checked s = []"

lemma starved_step: "health_step s t \<Longrightarrow> starved s \<Longrightarrow> starved t"
  by (induction rule: health_step.induct) (auto simp: starved_def)

lemma no_parallelism_no_checks: "health_run (NewHealth interval 0) s \<Longrightarrow> starved s"
proof (induction "NewHealth interval 0" s rule: health_run.induct)
  case health_refl
  show ?case by (simp add: starved_def NewHealth_def)
next
  case (health_next t u)
  then show ?case using starved_step by blast
next
  case (health_call t hs)
  then show ?case by (auto simp: starved_def HealthCheckHandlers_def start_feeder_def)
qed

subsection \<open>Properties\<close>

text \<open>
  With the AWS provider, \<open>NewRouter\<close> loads every configuration that lists each route after a
  route with its parent's name and in which every handler names a backend.
\<close>

theorem NewRouter_with_aws:
  assumes "get_finds_named mux_Get" and "parents_first (Routes config)"
    and "\<forall>route \<in> set (Routes config). \<forall>h. Handler route = Some h \<longrightarrow> Backend h \<noteq> None"
  shows "\<exists>r. NewRouter mux_Get order (routerOpts [(aws_BackendProviderKey, aws_provider)] config) = Ok r"
proof -
  let ?r0 = "\<lparr>rtr = [], provs = fmupd aws_BackendProviderKey aws_provider fmempty, handlers = []\<rparr>"
  have "\<forall>route \<in> set (Routes config). \<exists>b. route_backend (provs ?r0) route = Ok b"
    using assms(3) by (auto simp: aws_BackendProviderKey_def aws_provider_def intro!: aws_backends.backend_made)
  moreover have "\<forall>i < length (Routes config). ParentName (Routes config ! i) = ''''
      \<or> ParentName (Routes config ! i) \<in> mux_name ` set (rtr ?r0) \<union> Name ` set (take i (Routes config))"
    using assms(2) by (simp add: parents_first_def)
  ultimately have "fst (for_each (parseProtoRoute mux_Get order) (Routes config) ?r0) = Ok ()"
    by (intro parse_prefix [OF assms(1)])
  then obtain r where "for_each (parseProtoRoute mux_Get order) (Routes config) ?r0 = (Ok (), r)"
    by (metis prod.collapse)
  then show ?thesis by (simp add: NewRouter_options parseProtoRouterConfig_def)
qed

theorem NewRouter_with_aws_witness:
  "\<exists>r. NewRouter named_route (\<lambda>_. []) (routerOpts [(aws_BackendProviderKey, aws_provider)] \<lparr>Routes = [root_route, leaf_route]\<rparr>) = Ok r"
  by (rule NewRouter_with_aws [OF named_route_law])
     (simp_all add: parents_first_def root_route_def leaf_route_def sample_handler_def less_Suc_eq)

text \<open>
  A handler that names no backend is taken for an AWS one, the zero value of the provider key, and
  the provider panics: the first such route, when those before it can be loaded, ends \<open>NewRouter\<close>
  with the panic of the log and not with \<open>ErrNoBackendProvider\<close>.
\<close>

theorem NewRouter_empty_handler_panics:
  assumes "get_finds_named mux_Get" and "Routes config = before @ route # behind"
    and "\<forall>r \<in> set before. \<forall>h. Handler r = Some h \<longrightarrow> Backend h \<noteq> None"
    and "Handler route = Some h" and "Backend h = None" and "parents_first (before @ [route])"
  shows "NewRouter mux_Get order (routerOpts [(aws_BackendProviderKey, aws_provider)] config)
    = Panic (LogPanic ''no backend found'')"
proof -
  let ?ps = "fold (\<lambda>(k, p). fmupd k p) [(aws_BackendProviderKey, aws_provider)] fmempty"
  have "route_backend ?ps route = Panic (LogPanic ''no backend found'')"
    using assms(4,5) by (simp add: route_backend_def backend_key_def aws_BackendProviderKey_def
        AWSBackendProvider_def aws_provider_def aws_ToGrpcBackend_def aws_ToHttpBackend_def)
  moreover have "\<forall>r \<in> set before. \<exists>b. route_backend ?ps r = Ok b"
    using assms(3) by (auto simp: aws_BackendProviderKey_def aws_provider_def intro!: aws_backends.backend_made)
  ultimately show ?thesis using NewRouter_backend_fails [OF assms(1,2) _ assms(6)] by simp
qed

definition empty_handler_route :: Router_Route where
  "empty_handler_route = \<lparr>Name = ''r'', ParentName = [], Matchers = [], Handler = Some \<lparr>Backend = None\<rparr>\<rparr>"

theorem NewRouter_empty_handler_panics_witness:
  "NewRouter named_route (\<lambda>_. []) (routerOpts [(aws_BackendProviderKey, aws_provider)] \<lparr>Routes = [empty_handler_route]\<rparr>)
   = Panic (LogPanic ''no backend found'')"
proof (rule NewRouter_empty_handler_panics [OF named_route_law])
  show "Routes \<lparr>Routes = [empty_handler_route]\<rparr> = [] @ empty_handler_route # []" by simp
  show "Handler empty_handler_route = Some \<lparr>Backend = None\<rparr>" by (simp add: empty_handler_route_def)
  show "parents_first ([] @ [empty_handler_route])" by (simp add: parents_first_def empty_handler_route_def)
qed simp_all

text \<open>
  C33. A health check is made once per handler and call: whenever no goroutine is feeding or waiting,
  every handler that was ever submitted has been checked exactly as often as it was submitted, no
  check is open, and the checks are not repeated when the interval is over.
\<close>

theorem health_checks_once:
  assumes "health_run (NewHealth interval parallelism) s" and "idle_feeder (feeder s)"
  shows "mset (checked s) = mset (submitted s) \<and> healthCheckWg s = 0 \<and> (\<forall>c \<in> set (checks s). c = Checked)
    \<and> (\<forall>t. health_step s t \<longrightarrow> (\<forall>hs. caller s \<noteq> SendingStop hs) \<longrightarrow> submitted t = submitted s \<and> checked t = checked s)"
proof -
  have inv: "health_inv s" by (rule health_run_inv [OF assms(1) health_inv_new])
  with assms(2) have none_open: "open_checks (checks s) = 0" by (simp add: health_inv_def)
  then have closed: "\<forall>c \<in> set (checks s). c = Checked"
    by (auto simp: open_checks_def filter_empty_conv)
  from inv none_open assms(2) have "healthCheckCh s = []"
    using idle_no_receiving [OF none_open] by (cases "feeder s") (auto simp: health_inv_def)
  moreover have "unfed (feeder s) = []" using assms(2) by (cases "feeder s") auto
  moreover have "submitted t = submitted s \<and> checked t = checked s"
    if "health_step s t" "\<forall>hs. caller s \<noteq> SendingStop hs" for t
    using that assms(2) \<open>healthCheckCh s = []\<close> by (induction rule: health_step.induct) auto
  ultimately show ?thesis using inv none_open closed by (auto simp: health_inv_def)
qed

text \<open>
  A call of the function that fails without a result panics in the goroutine of the check: the process
  ends, although the code means to ignore every error of a health check.
\<close>

lemma failed_check_panics:
  assumes "Backend h = Some (Router_Handler_AwsLambda b)" and "\<And>inp. fst (Invoke env inp) = None"
  shows "doHealthCheck env proto_Marshal h = Panic NilDereference"
proof -
  obtain e where "Invoke env (fst (lambda_DoHealthcheck env proto_Marshal b)) = (None, e)"
    using assms(2) by (metis prod.collapse)
  then show ?thesis by (simp add: doHealthCheck_def lambda_DoHealthcheck_def assms(1) Let_def)
qed

lemma panicked_stuck: "check_panic s = Some p \<Longrightarrow> \<not> health_step s t"
  by (auto elim: health_step.cases)

lemma failed_check_crashes:
  assumes "check_panic s = None" and "j < length (checks s)" and "checks s ! j = Checking h"
    and "Backend h = Some (Router_Handler_AwsLambda b)"
  shows "\<exists>t. health_step s t \<and> check_panic t = Some NilDereference \<and> (\<forall>u. \<not> health_step t u)"
proof -
  have "doHealthCheck (echo_env\<lparr>Invoke := \<lambda>_. (None, Some (Foreign ''timeout''))\<rparr>) (\<lambda>_. []) h = Panic NilDereference"
    by (rule failed_check_panics [OF assms(4)]) simp
  from check_panics [OF assms(2,3) this assms(1)]
  have "health_step s (s\<lparr>check_panic := Some NilDereference\<rparr>)" .
  moreover have "\<not> health_step (s\<lparr>check_panic := Some NilDereference\<rparr>) u" for u by (rule panicked_stuck) simp
  ultimately show ?thesis by (intro exI [of _ "s\<lparr>check_panic := Some NilDereference\<rparr>"]) simp
qed

lemma echo_check: "doHealthCheck echo_env (\<lambda>_. []) sample_handler = Ok ()"
  by (simp add: doHealthCheck_def lambda_DoHealthcheck_def sample_handler_def echo_env_def Let_def)

text \<open>A run with one handler, up to the end of the interval.\<close>

definition checked_once :: health where
  "checked_once = (NewHealth 30 4)\<lparr>stopCh_made := True, checks := [Checked], submitted := [sample_handler],
     checked := [sample_handler]\<rparr>"

lemma checked_once_run: "health_run (NewHealth 30 4) checked_once"
proof -
  let ?s = "\<lambda>fd q n cs c. (NewHealth 30 4)\<lparr>stopCh_made := True, feeder := fd, healthCheckCh := q, healthCheckWg := n,
     checks := cs, submitted := [sample_handler], checked := c\<rparr>"
  let ?h = sample_handler
  have "health_run (NewHealth 30 4) (?s (Feeding [?h]) [] 0 [] [])"
    using health_call [OF health_refl, of "NewHealth 30 4" "[?h]"]
    by (simp add: NewHealth_def HealthCheckHandlers_def start_feeder_def)
  from health_next [OF this feed_send [of _ ?h "[]"]]
  have "health_run (NewHealth 30 4) (?s (Starting []) [?h] 0 [] [])" by (simp add: NewHealth_def)
  from health_next [OF this feed_start [of _ "[]"]]
  have "health_run (NewHealth 30 4) (?s (Feeding []) [?h] 1 [ReceivingHandler] [])" by (simp add: NewHealth_def)
  from health_next [OF this feed_end]
  have "health_run (NewHealth 30 4) (?s WaitingChecks [?h] 1 [ReceivingHandler] [])" by (simp add: NewHealth_def)
  from health_next [OF this check_receive [of 0 _ ?h "[]"]]
  have "health_run (NewHealth 30 4) (?s WaitingChecks [] 1 [Checking ?h] [?h])" by (simp add: NewHealth_def)
  from health_next [OF this check_done [of 0 _ ?h, OF _ _ echo_check]]
  have "health_run (NewHealth 30 4) (?s WaitingChecks [] 0 [Checked] [?h])" by (simp add: NewHealth_def)
  from health_next [OF this feed_waited]
  have "health_run (NewHealth 30 4) (?s SelectingStop [] 0 [Checked] [?h])" by (simp add: NewHealth_def)
  from health_next [OF this interval_over]
  show ?thesis by (simp add: NewHealth_def checked_once_def)
qed

theorem health_checks_once_witness:
  "mset (checked checked_once) = mset (submitted checked_once) \<and> submitted checked_once = [sample_handler]"
  using health_checks_once [OF checked_once_run] by (simp add: checked_once_def NewHealth_def)

text \<open>
  C32. After the interval of the first health check is over, the next call of \<open>HealthCheckHandlers\<close>
  with a handler never returns: it sends on the stop channel, and the goroutine that would receive
  has ended. Nothing it was given is ever checked.
\<close>

theorem second_health_check_blocks:
  assumes "health_run (NewHealth interval parallelism) s" and "feeder s = NoFeeder" and "submitted s \<noteq> []"
    and "caller s = NotCalling" and "hs \<noteq> []" and "healthCheckInterval s \<noteq> 0"
    and "health_step\<^sup>*\<^sup>* (HealthCheckHandlers hs s) t"
  shows "caller t = SendingStop hs \<and> submitted t = submitted s"
proof -
  have "health_inv s" by (rule health_run_inv [OF assms(1) health_inv_new])
  then have "stopCh_made s" using assms(2,3) by (simp add: health_inv_def)
  with assms(5,6) have call: "HealthCheckHandlers hs s = s\<lparr>caller := SendingStop hs\<rparr>"
    by (simp add: HealthCheckHandlers_def)
  from assms(7) have "health_inv t \<and> feeder t = NoFeeder \<and> caller t = SendingStop hs \<and> submitted t = submitted s"
  proof (induction rule: rtranclp_induct)
    case base
    with health_inv_call [OF \<open>health_inv s\<close>, of hs] call assms(2) show ?case by simp
  next
    case (step t u)
    with blocked_step [OF step(2)] health_inv_step [OF step(2)] show ?case by auto
  qed
  then show ?thesis by simp
qed

theorem second_health_check_blocks_witness:
  "caller (HealthCheckHandlers [sample_handler] checked_once) = SendingStop [sample_handler]"
  using second_health_check_blocks [OF checked_once_run, of "[sample_handler]"]
  by (auto simp: checked_once_def NewHealth_def)

end
