(* ===== verification/Tls_Context.thy ===== *)
theory Tls_Context
  imports Go_Prelude
begin

section \<open>TLS configurations (\<^verbatim>\<open>pkg/tls\<close>)\<close>

text \<open>
  \<open>FromFile\<close> loads the given key pairs, \<open>FromMemory\<close> signs a certificate of its own. What
  \<^verbatim>\<open>tls.LoadX509KeyPair\<close> and the functions of \<^verbatim>\<open>crypto/rsa\<close> and \<^verbatim>\<open>crypto/x509\<close> return is an argument;
  \<open>'cert\<close> is a certificate. A \<open>TlsContext\<close> is the constant function of its configuration.
\<close>

record 'cert tls_config =
  Certificates :: "'cert list"
  InsecureSkipVerify :: bool
  NextProtos :: "string list"

record fromFile =
  certFiles :: "string list"
  keyFiles :: "string list"
  insecureSkipVerify :: bool

datatype file_option = WithCertificate string string | WithInsecureSkipVerify bool

fun apply_file_option :: "file_option \<Rightarrow> fromFile \<Rightarrow> fromFile" where
  "apply_file_option (WithCertificate certFile keyFile) f =
     f\<lparr>certFiles := certFiles f @ [certFile], keyFiles := keyFiles f @ [keyFile]\<rparr>"
| "apply_file_option (WithInsecureSkipVerify b) f = f\<lparr>insecureSkipVerify := b\<rparr>"

text \<open>The loop over the indices; an index out of range of \<open>keyFiles\<close> would panic.\<close>

function load_pairs ::
  "(string \<Rightarrow> string \<Rightarrow> go_error + 'cert) \<Rightarrow> fromFile \<Rightarrow> nat \<Rightarrow> 'cert list \<Rightarrow> 'cert list outcome"
where
  "load_pairs load o1 i certs =
     (if i < length (certFiles o1) then
        (if i < length (keyFiles o1) then
           (case load (certFiles o1 ! i) (keyFiles o1 ! i) of
              Inl err \<Rightarrow> Err err
            | Inr cert \<Rightarrow> load_pairs load o1 (Suc i) (certs @ [cert]))
         else Panic (LogPanic ''index out of range''))
      else Ok certs)"
  by pat_completeness auto
termination by (relation "measure (\<lambda>(load, o1, i, certs). length (certFiles o1) - i)") auto

declare load_pairs.simps [simp del]

definition FromFile ::
  "(string \<Rightarrow> string \<Rightarrow> go_error + 'cert) \<Rightarrow> file_option list \<Rightarrow> 'cert tls_config outcome"
where
  "FromFile load opts =
     (let o1 = fold apply_file_option opts \<lparr>certFiles = [], keyFiles = [], insecureSkipVerify = False\<rparr> in
      case load_pairs load o1 0 [] of
        Ok certs \<Rightarrow> Ok \<lparr>Certificates = certs, InsecureSkipVerify = insecureSkipVerify o1, NextProtos = [''h2'']\<rparr>
      | Err e \<Rightarrow> Err e
      | Panic p \<Rightarrow> Panic p)"

text \<open>
  The certificate \<open>FromMemory\<close> signs: the times are in seconds, the duration is that of the code, ten
  times 360 days. The usage flags of the template are left out.
\<close>

record fromMemory =
  organization :: string
  organizationUnit :: string

datatype memory_option = WithOrganization string | WithOrganizationUnit string

fun apply_memory_option :: "memory_option \<Rightarrow> fromMemory \<Rightarrow> fromMemory" where
  "apply_memory_option (WithOrganization v) o1 = o1\<lparr>organization := v\<rparr>"
| "apply_memory_option (WithOrganizationUnit v) o1 = o1\<lparr>organizationUnit := v\<rparr>"

record certificate_template =
  SerialNumber :: int
  Organization :: "string list"
  OrganizationalUnit :: "string list"
  NotBefore :: int
  NotAfter :: int
  IsCA :: bool

definition caCert :: "int \<Rightarrow> fromMemory \<Rightarrow> certificate_template" where
  "caCert now o1 =
     \<lparr>SerialNumber = now, Organization = [organization o1], OrganizationalUnit = [organizationUnit o1],
      NotBefore = now, NotAfter = now + 10 * 360 * 24 * 3600, IsCA = True\<rparr>"

text \<open>\<open>key\<close>, \<open>sign\<close> and \<open>parse\<close> are the results of the three calls that make the certificate.\<close>

definition FromMemory ::
  "int \<Rightarrow> (go_error + 'key) \<Rightarrow> (certificate_template \<Rightarrow> 'key \<Rightarrow> go_error + 'raw) \<Rightarrow> ('raw \<Rightarrow> go_error + 'leaf) \<Rightarrow>
   memory_option list \<Rightarrow> ('leaf \<times> 'key) tls_config outcome"
where
  "FromMemory now key sign parse opts =
     (let o1 = fold apply_memory_option opts \<lparr>organization = ''Acme Inc.'', organizationUnit = ''Acme Inc. TLS''\<rparr> in
      case key of
        Inl err \<Rightarrow> Err err
      | Inr priv \<Rightarrow>
          (case sign (caCert now o1) priv of
             Inl err \<Rightarrow> Panic (LogPanic ''Error self signing certificate'')
           | Inr certBytes \<Rightarrow>
               (case parse certBytes of
                  Inl err \<Rightarrow> Panic (LogPanic ''Error parsing self signed certificate'')
                | Inr leaf \<Rightarrow>
                    Ok \<lparr>Certificates = [(leaf, priv)], InsecureSkipVerify = True, NextProtos = [''h2'']\<rparr>)))"

subsection \<open>Lemmas\<close>

definition option_pairs :: "file_option list \<Rightarrow> (string \<times> string) list" where
  "option_pairs opts = List.map_filter
     (\<lambda>opt. case opt of WithCertificate c k \<Rightarrow> Some (c, k) | WithInsecureSkipVerify b \<Rightarrow> None) opts"

lemma fold_options_pairs:
  "certFiles (fold apply_file_option opts f) = certFiles f @ map fst (option_pairs opts)"
  "keyFiles (fold apply_file_option opts f) = keyFiles f @ map snd (option_pairs opts)"
  by (induction opts arbitrary: f)
     (simp_all add: option_pairs_def map_filter_simps split: file_option.split)

text \<open>Loading pair by pair, as a function of the list of pairs.\<close>

fun load_each :: "(string \<Rightarrow> string \<Rightarrow> go_error + 'cert) \<Rightarrow> (string \<times> string) list \<Rightarrow> go_error + 'cert list" where
  "load_each load [] = Inr []"
| "load_each load ((c, k) # ps) =
     (case load c k of
        Inl e \<Rightarrow> Inl e
      | Inr cert \<Rightarrow> (case load_each load ps of Inl e \<Rightarrow> Inl e | Inr certs \<Rightarrow> Inr (cert # certs)))"

lemma load_pairs_each:
  assumes "certFiles o1 = map fst ps" and "keyFiles o1 = map snd ps"
  shows "i \<le> length ps \<Longrightarrow> load_pairs load o1 i certs =
    (case load_each load (drop i ps) of Inl e \<Rightarrow> Err e | Inr cs \<Rightarrow> Ok (certs @ cs))"
proof (induction "length ps - i" arbitrary: i certs)
  case 0
  then show ?case using assms by (simp add: load_pairs.simps [of load o1 i])
next
  case (Suc n)
  then have i: "i < length ps" by simp
  obtain c k where p: "ps ! i = (c, k)" by fastforce
  from Suc i have "load_pairs load o1 (Suc i) certs' =
      (case load_each load (drop (Suc i) ps) of Inl e \<Rightarrow> Err e | Inr cs \<Rightarrow> Ok (certs' @ cs))" for certs'
    by (intro Suc.hyps(1)) simp_all
  with i p assms Cons_nth_drop_Suc [OF i, symmetric] show ?case
    by (simp add: load_pairs.simps [of load o1 i] split: sum.split)
qed

subsection \<open>Properties\<close>

text \<open>
  \<open>FromFile\<close> never indexes out of range: it loads the key pairs of its options in order and
  returns the configuration with exactly those certificates, offering HTTP/2 only, or the error of the
  first pair that does not load.
\<close>

theorem FromFile_loads_all:
  "FromFile load opts =
     (case load_each load (option_pairs opts) of
        Inl e \<Rightarrow> Err e
      | Inr certs \<Rightarrow> Ok \<lparr>Certificates = certs,
          InsecureSkipVerify = insecureSkipVerify (fold apply_file_option opts \<lparr>certFiles = [], keyFiles = [], insecureSkipVerify = False\<rparr>),
          NextProtos = [''h2'']\<rparr>)"
  using load_pairs_each [of "fold apply_file_option opts \<lparr>certFiles = [], keyFiles = [], insecureSkipVerify = False\<rparr>"
      "option_pairs opts" 0 load "[]"]
  by (simp add: FromFile_def Let_def fold_options_pairs split: sum.split)

end
