(* ===== verification/Cmd.thy ===== *)
theory Cmd
  imports Tls_Context Server Aws_Provider S3_Source State_Manager
begin

section \<open>The command line (\<^verbatim>\<open>cmd\<close>)\<close>

text \<open>
  \<open>PersistentPreRunE\<close> of the root command turns the flags into the package variables the commands
  use: the TLS function, the listener protocol, the AWS provider and the source of Terraform states. The
  commands \<^verbatim>\<open>router\<close> and \<^verbatim>\<open>xds\<close> then build their server and their state manager from them in the same
  way. \<open>start_env\<close> holds the two constructors of a TLS context, whose models are in \<open>Tls_Context\<close>, and the
  error of loading the AWS configuration, if any. A nil \<open>tlsContext\<close>, \<open>awsProvider\<close> and \<open>tfstateSource\<close>
  are \<open>None\<close>. Durations are in nanoseconds.
\<close>

record flags =
  enableTls :: bool
  certFile :: string
  keyFile :: string
  tlsInsecureSkipVerify :: bool
  flag_listenerAddress :: string
  flag_shutdownTimeout :: int
  periodSyncInterval :: int
  tfstateSourceSelector :: string
  awsTfstateBucket :: string
  awsS3AssumeRole :: string
  flag_dynamodbEndpoint :: string
  flag_healthCheckInterval :: int
  flag_healthCheckParallelism :: int

record 'cfg start_env =
  tls_FromFile :: "file_option list \<Rightarrow> 'cfg outcome"
  tls_FromMemory :: "memory_option list \<Rightarrow> 'cfg outcome"
  aws_config_error :: "string option"

record 'cfg globals =
  tlsContext :: "'cfg option"
  global_protocol :: ListenerProtocol
  awsProvider :: "health option"
  backendProviders :: "health list"
  global_source :: "s3_source option"

text \<open>The values of the package variables before the command runs.\<close>

definition initial_globals :: "'cfg globals" where
  "initial_globals = \<lparr>tlsContext = None, global_protocol = H2C, awsProvider = None, backendProviders = [], global_source = None\<rparr>"

definition pre_run_tls :: "'cfg start_env \<Rightarrow> flags \<Rightarrow> 'cfg globals \<Rightarrow> unit outcome \<times> 'cfg globals" where
  "pre_run_tls start f g =
     (if \<not> enableTls f then (Ok (), g)
      else
        (let g1 = g\<lparr>global_protocol := HTTP2\<rparr>;
             ctx = (if length (certFile f) \<noteq> 0 \<and> length (keyFile f) \<noteq> 0
                    then tls_FromFile start [WithCertificate (certFile f) (keyFile f),
                                             WithInsecureSkipVerify (tlsInsecureSkipVerify f)]
                    else tls_FromMemory start [])
         in case ctx of
              Ok cfg \<Rightarrow> (Ok (), g1\<lparr>tlsContext := Some cfg\<rparr>)
            | Err e \<Rightarrow> (Err e, g1)
            | Panic p \<Rightarrow> (Panic p, g1)))"

definition pre_run_provider :: "'cfg start_env \<Rightarrow> flags \<Rightarrow> 'cfg globals \<Rightarrow> unit outcome \<times> 'cfg globals" where
  "pre_run_provider start f g =
     (case NewProvider (aws_config_error start)
             [WithDynamoDBEndpoint (flag_dynamodbEndpoint f), WithHealthCheckInterval (flag_healthCheckInterval f),
              WithHealthCheckParallelism (flag_healthCheckParallelism f)] of
        Ok p \<Rightarrow> (Ok (), g\<lparr>awsProvider := Some p, backendProviders := backendProviders g @ [p]\<rparr>)
      | Err e \<Rightarrow> (Err e, g)
      | Panic p \<Rightarrow> (Panic p, g))"

definition source_factory :: "flags \<Rightarrow> s3ClientFactory" where
  "source_factory f =
     (if length (awsS3AssumeRole f) > 0 then S3ClientWithRole (awsS3AssumeRole f) else GetS3Client)"

definition pre_run_source :: "flags \<Rightarrow> 'cfg globals \<Rightarrow> unit outcome \<times> 'cfg globals" where
  "pre_run_source f g =
     (if tfstateSourceSelector f = ''aws-s3'' then
        (if length (awsTfstateBucket f) = 0 then (Err ErrEmptyAwsTfstateBucket, g)
         else
           (Ok (), g\<lparr>global_source := Some (tfstate_source
              [WithS3ClientFactory (source_factory f), WithTfstateBucket (awsTfstateBucket f)])\<rparr>))
      else if tfstateSourceSelector f = '''' then (Ok (), g)
      else (Err ErrInvalidTfstateSourceSelector, g))"

definition PersistentPreRunE :: "'cfg start_env \<Rightarrow> flags \<Rightarrow> unit outcome \<times> 'cfg globals" where
  "PersistentPreRunE start f =
     and_then (pre_run_tls start f initial_globals) (\<lambda>_ g.
     and_then (pre_run_provider start f g) (\<lambda>_ g. pre_run_source f g))"

lemmas pre_run_defs = PersistentPreRunE_def pre_run_tls_def pre_run_provider_def pre_run_source_def

lemma NewProvider_Ok_iff:
  "NewProvider config opts = Ok p \<longleftrightarrow>
     config = None \<and> (let o1 = fold apply_provider_option opts
                          \<lparr>provider_interval = 0, option_parallelism = 4, dynamodbEndpoint = []\<rparr>
       in option_parallelism o1 \<ge> 0 \<and> p = NewHealth (provider_interval o1) (nat (option_parallelism o1)))"
  by (auto simp: NewProvider_def Let_def split: option.split)

text \<open>
  What a call of a client factory does, by what STS and the AWS configuration answer: the client of the
  provider is there since its start, and the one of an assumed role is made at each call.
\<close>

record sts_env =
  AssumeRole :: "string \<Rightarrow> go_error + (string \<times> string \<times> string) option"
  LoadDefaultConfig :: "string \<Rightarrow> string \<Rightarrow> string \<Rightarrow> go_error + unit"

fun factory_client :: "sts_env \<Rightarrow> s3ClientFactory \<Rightarrow> go_panic option" where
  "factory_client sts GetS3Client = None"
| "factory_client sts (S3ClientWithRole role) =
     (case GetS3ClientWithRole (AssumeRole sts role) (LoadDefaultConfig sts) of Panic p \<Rightarrow> Some p | _ \<Rightarrow> None)"

text \<open>The server and the state manager of a command, from the variables.\<close>

definition command_server :: "flags \<Rightarrow> 'cfg globals \<Rightarrow> 'h \<Rightarrow> ('l, 'cfg, 'h) server" where
  "command_server f g h =
     NewServer [WithListenerAddress (flag_listenerAddress f), WithShutdownTimeout (flag_shutdownTimeout f),
       WithListenerProtocol (global_protocol g), WithHTTPHandler (Some h),
       WithTLSConfig (map_option Some (tlsContext g))]"

definition command_manager :: "flags \<Rightarrow> 'cfg globals \<Rightarrow> 's \<Rightarrow> (s3_source, 's) sync_state" where
  "command_manager f g m =
     state_manager [WithTfstateSource (global_source g), WithPeriodicSyncInterval (periodSyncInterval f), WithManagers [m]]"

lemma command_manager_eq: "command_manager f g m = NewStateManager (global_source g) [m]"
  by (simp add: command_manager_def state_manager_def)

text \<open>What the variables are when the start-up succeeds.\<close>

lemma PersistentPreRunE_Ok:
  assumes "PersistentPreRunE start f = (Ok (), g)"
  shows "(enableTls f \<longleftrightarrow> global_protocol g = HTTP2) \<and> (\<not> enableTls f \<longleftrightarrow> global_protocol g = H2C)
    \<and> (enableTls f \<longleftrightarrow> tlsContext g \<noteq> None) \<and> awsProvider g \<noteq> None
    \<and> global_source g = (if tfstateSourceSelector f = ''aws-s3'' then Some (NewTfstateSource (source_factory f) (awsTfstateBucket f)) else None)
    \<and> (tfstateSourceSelector f = ''aws-s3'' \<or> tfstateSourceSelector f = [])
    \<and> (tfstateSourceSelector f = ''aws-s3'' \<longrightarrow> awsTfstateBucket f \<noteq> [])"
proof -
  obtain g1 g2 where tls: "pre_run_tls start f initial_globals = (Ok (), g1)"
    and provider: "pre_run_provider start f g1 = (Ok (), g2)" and source: "pre_run_source f g2 = (Ok (), g)"
    using assms by (auto simp: PersistentPreRunE_def and_then_Ok_iff)
  have "(enableTls f \<longleftrightarrow> global_protocol g1 = HTTP2) \<and> (\<not> enableTls f \<longleftrightarrow> global_protocol g1 = H2C)
    \<and> (enableTls f \<longleftrightarrow> tlsContext g1 \<noteq> None) \<and> global_source g1 = None"
    using tls by (auto simp: pre_run_tls_def initial_globals_def H2C_def HTTP2_def Let_def split: outcome.splits if_splits)
  moreover obtain p where "g2 = g1\<lparr>awsProvider := Some p, backendProviders := backendProviders g1 @ [p]\<rparr>"
    using provider by (auto simp: pre_run_provider_def split: outcome.splits)
  ultimately show ?thesis
    using source by (auto simp: pre_run_source_def split: if_splits)
qed

lemma PersistentPreRunE_providers:
  assumes "PersistentPreRunE start f = (Ok (), g)"
  shows "backendProviders g = [NewHealth (flag_healthCheckInterval f) (nat (flag_healthCheckParallelism f))]"
proof -
  obtain g1 g2 where tls: "pre_run_tls start f initial_globals = (Ok (), g1)"
    and provider: "pre_run_provider start f g1 = (Ok (), g2)" and source: "pre_run_source f g2 = (Ok (), g)"
    using assms by (auto simp: PersistentPreRunE_def and_then_Ok_iff)
  have "backendProviders g1 = []"
    using tls by (auto simp: pre_run_tls_def initial_globals_def Let_def split: outcome.splits if_splits)
  with provider have "backendProviders g2 = [NewHealth (flag_healthCheckInterval f) (nat (flag_healthCheckParallelism f))]"
    by (auto simp: pre_run_provider_def NewProvider_Ok_iff split: outcome.splits)
  with source show ?thesis by (auto simp: pre_run_source_def split: if_splits)
qed

subsection \<open>Properties\<close>

text \<open>An environment and flags for the witnesses: no TLS, and no source or a bucket.\<close>

definition sample_start :: "nat start_env" where
  "sample_start = \<lparr>tls_FromFile = (\<lambda>opts. Err EOF), tls_FromMemory = (\<lambda>opts. Ok 5), aws_config_error = None\<rparr>"

definition sample_sts :: sts_env where
  "sample_sts = \<lparr>AssumeRole = (\<lambda>role. Inl (Foreign ''AccessDenied'')), LoadDefaultConfig = (\<lambda>_ _ _. Inr ())\<rparr>"

definition plain_flags :: "string \<Rightarrow> flags" where
  "plain_flags b = \<lparr>enableTls = False, certFile = [], keyFile = [], tlsInsecureSkipVerify = False,
     flag_listenerAddress = ''0.0.0.0:4880'', flag_shutdownTimeout = 20 * 10 ^ 9, periodSyncInterval = 5 * 10 ^ 9,
     tfstateSourceSelector = (if b = [] then [] else ''aws-s3''), awsTfstateBucket = b, awsS3AssumeRole = [],
     flag_dynamodbEndpoint = [], flag_healthCheckInterval = 0, flag_healthCheckParallelism = 4\<rparr>"

definition plain_globals :: "nat globals" where
  "plain_globals = initial_globals\<lparr>awsProvider := Some (NewHealth 0 4), backendProviders := [NewHealth 0 4]\<rparr>"

lemma plain_PreRun: "PersistentPreRunE sample_start (plain_flags []) = (Ok (), plain_globals)"
  by (simp add: pre_run_defs plain_flags_def sample_start_def NewProvider_def plain_globals_def initial_globals_def)

text \<open>
  The start-up succeeds exactly when TLS is off or its context can be made, the AWS configuration
  loads, the parallelism of the health checks is not negative, and the source is either not selected or
  is \<open>aws-s3\<close> with a bucket; the server it configures then speaks HTTP/2 with that context exactly when
  TLS is on, and the state manager has a source exactly when one was selected.
\<close>

theorem PersistentPreRunE_outcome:
  "((fst (PersistentPreRunE start f) = Ok ()) \<longleftrightarrow>
      (enableTls f \<longrightarrow> (\<exists>cfg. (if certFile f \<noteq> [] \<and> keyFile f \<noteq> []
          then tls_FromFile start [WithCertificate (certFile f) (keyFile f), WithInsecureSkipVerify (tlsInsecureSkipVerify f)]
          else tls_FromMemory start []) = Ok cfg))
      \<and> aws_config_error start = None \<and> flag_healthCheckParallelism f \<ge> 0
      \<and> (tfstateSourceSelector f = [] \<or> (tfstateSourceSelector f = ''aws-s3'' \<and> awsTfstateBucket f \<noteq> [])))
   \<and> (fst (PersistentPreRunE start f) = Ok () \<longrightarrow>
      (let g = snd (PersistentPreRunE start f) in
       (enableTls f \<longleftrightarrow> global_protocol g = HTTP2) \<and> (enableTls f \<longleftrightarrow> tlsContext g \<noteq> None)
       \<and> (global_source g = (if tfstateSourceSelector f = [] then None
                             else Some (NewTfstateSource (source_factory f) (awsTfstateBucket f))))))"
proof -
  have "fst (PersistentPreRunE start f) = Ok () \<longrightarrow>
      (let g = snd (PersistentPreRunE start f) in
       (enableTls f \<longleftrightarrow> global_protocol g = HTTP2) \<and> (enableTls f \<longleftrightarrow> tlsContext g \<noteq> None)
       \<and> (global_source g = (if tfstateSourceSelector f = [] then None
                             else Some (NewTfstateSource (source_factory f) (awsTfstateBucket f)))))"
    using PersistentPreRunE_Ok [of start f "snd (PersistentPreRunE start f)"]
    by (cases "PersistentPreRunE start f") (auto simp: Let_def)
  moreover have "fst (PersistentPreRunE start f) = Ok () \<longleftrightarrow>
      (enableTls f \<longrightarrow> (\<exists>cfg. (if certFile f \<noteq> [] \<and> keyFile f \<noteq> []
          then tls_FromFile start [WithCertificate (certFile f) (keyFile f), WithInsecureSkipVerify (tlsInsecureSkipVerify f)]
          else tls_FromMemory start []) = Ok cfg))
      \<and> aws_config_error start = None \<and> flag_healthCheckParallelism f \<ge> 0
      \<and> (tfstateSourceSelector f = [] \<or> (tfstateSourceSelector f = ''aws-s3'' \<and> awsTfstateBucket f \<noteq> []))"
    by (auto simp: pre_run_defs NewProvider_def Let_def split: outcome.splits if_splits option.splits)
  ultimately show ?thesis by blast
qed

theorem PersistentPreRunE_outcome_witness:
  "global_source (snd (PersistentPreRunE sample_start (plain_flags ''states''))) = Some (NewTfstateSource GetS3Client ''states'')"
proof -
  have "fst (PersistentPreRunE sample_start (plain_flags ''states'')) = Ok ()"
    by (simp add: pre_run_defs plain_flags_def sample_start_def NewProvider_def)
  with PersistentPreRunE_outcome [of sample_start "plain_flags ''states''"]
  show ?thesis by (simp add: plain_flags_def source_factory_def Let_def)
qed

text \<open>
  With TLS turned off a command never serves: the start-up succeeds, the configured protocol is
  h2c with a nil TLS function, and \<open>Open\<close> panics when it calls that function.
\<close>

theorem tls_off_cannot_open:
  assumes "PersistentPreRunE start f = (Ok (), g)" and "\<not> enableTls f"
    and "flag_listenerAddress f \<noteq> []"
  shows "Open env (command_server f g h) = (Panic NilDereference, command_server f g h)"
proof -
  have "tlsContext g = None" "global_protocol g = H2C"
    using PersistentPreRunE_Ok [OF assms(1)] assms(2) by simp_all
  with assms(3) show ?thesis
    by (simp add: command_server_def NewServer_def Open_def listen_def assertListen_def H2C_def HTTP2_def)
qed

theorem tls_off_cannot_open_witness:
  "fst (Open sample_server_env (command_server (plain_flags []) plain_globals (7::nat))) = Panic NilDereference"
  using tls_off_cannot_open [OF plain_PreRun, of sample_server_env "7 :: nat"]
  by (simp add: plain_flags_def)

text \<open>
  Without a selected source, which the start-up announces as a disabled source, the command
  crashes: the state manager can only take the step that dereferences the nil source, so every run
  stays at its start or has crashed.
\<close>

theorem no_source_crashes:
  assumes "PersistentPreRunE start f = (Ok (), g)" and "tfstateSourceSelector f = []"
    and "sync_steps get read order_ok build (command_manager f g m) s"
  shows "(s = command_manager f g m \<or> phase s = Crashed NilDereference)
    \<and> sync_step get read order_ok build (command_manager f g m) ((command_manager f g m)\<lparr>phase := Crashed NilDereference\<rparr>)"
proof -
  let ?s0 = "command_manager f g m"
  have "global_source g = None" using PersistentPreRunE_Ok [OF assms(1)] assms(2) by simp
  then have s0: "phase ?s0 = Fetching" "tfstateSource ?s0 = None" "managers ?s0 = [\<lparr>status = Idle, mgr = m\<rparr>]"
    by (simp_all add: command_manager_eq NewStateManager_def)
  have crash: "phase t = Crashed NilDereference" if "sync_step get read order_ok build ?s0 t" for t
    using that by (cases rule: sync_step.cases) (use s0 in \<open>auto simp: nth_Cons split: nat.splits\<close>)
  have stay: "phase u = Crashed p" if "sync_step get read order_ok build t u" "phase t = Crashed p" for t u p
    using that by (cases rule: sync_step.cases) auto
  from assms(3) have "s = ?s0 \<or> phase s = Crashed NilDereference"
  proof (induction rule: rtranclp_induct)
    case (step t u)
    with crash stay show ?case by blast
  qed simp
  with sync_step.fetch_nil [OF s0(1,2)] show ?thesis by blast
qed

theorem no_source_crashes_witness:
  "\<exists>s. sync_steps (\<lambda>src. (Ok [], src)) (\<lambda>_ m. (Ok (), m)) (\<lambda>_ _. True) (\<lambda>(_::unit) m. (Ok (), m))
     (command_manager (plain_flags []) plain_globals ()) s \<and> phase s = Crashed NilDereference"
proof -
  let ?m = "command_manager (plain_flags []) plain_globals ()"
  have "sync_step (\<lambda>src. (Ok [], src)) (\<lambda>_ m. (Ok (), m)) (\<lambda>_ _. True) (\<lambda>(_::unit) m. (Ok (), m)) ?m
      (?m\<lparr>phase := Crashed NilDereference\<rparr>)"
    using no_source_crashes [OF plain_PreRun _ rtranclp.rtrancl_refl]
    by (auto simp: plain_flags_def)
  then show ?thesis by (intro exI [of _ "?m\<lparr>phase := Crashed NilDereference\<rparr>"]) auto
qed

end
