(* ===== verification/Cmd_Main.thy ===== *)
theory Cmd_Main
  imports Cmd Routes_State Service_Discovery
begin

section \<open>The life of a command (\<^verbatim>\<open>cmd/root.go\<close>, \<^verbatim>\<open>cmd/router.go\<close>, \<^verbatim>\<open>cmd/xds.go\<close>)\<close>

subsection \<open>Flags from the configuration\<close>

text \<open>
  A flag of \<^verbatim>\<open>pflag\<close> has a typed value and remembers whether it was set. It is known by its name: several
  commands share the same flag. A key of \<^verbatim>\<open>viper\<close> can be bound to a flag (\<open>bindings\<close>: key to name). What
  \<open>viper\<close> answers for a key depends on its bindings, on the flags as they are when it is asked, and on the
  environment and the file; \<open>set_flag\<close>, the \<open>Set\<close> of a flag with a text, is a parameter too: what the code
  relies on of both is stated in \<open>Cmd_Init\<close>.
\<close>

type_synonym int64 = "64 word"

datatype flag_value =
    StringValue string
  | BoolValue bool
  | DurationValue int64
  | IntValue int64
  | StringSliceValue "string list"

record flag =
  flag_Value :: flag_value
  Changed :: bool

type_synonym flag_values = "(string, flag) gomap"

type_synonym bindings = "(string, string) gomap"

type_synonym set_flag = "flag \<Rightarrow> string \<Rightarrow> flag"

record viper =
  IsSet :: "bindings \<Rightarrow> flag_values \<Rightarrow> string \<Rightarrow> bool"
  GetString :: "bindings \<Rightarrow> flag_values \<Rightarrow> string \<Rightarrow> string"

datatype command = Command "string list" "command list"

text \<open>
  \<open>initConfig\<close> walks over all commands. At each it first binds every flag of the command under its own
  name, and then sets the flags that \<open>viper\<close> has a non-empty text for, under the name with underscores. An
  error of \<open>Set\<close> is ignored. The flags are visited in the order of \<open>names\<close>; each visit reads and changes
  its own flag only, so this order has no influence.
\<close>

definition config_key :: "string \<Rightarrow> string" where
  "config_key name = map (\<lambda>c. if c = CHR ''-'' then CHR ''_'' else c) name"

definition BindPFlags :: "string list \<Rightarrow> bindings \<Rightarrow> bindings" where
  "BindPFlags names bound = fold (\<lambda>name. fmupd name name) names bound"

definition preset_flag :: "set_flag \<Rightarrow> viper \<Rightarrow> bindings \<Rightarrow> string \<Rightarrow> flag_values \<Rightarrow> flag_values" where
  "preset_flag set_flag v bound f_name fs =
     (let name = config_key f_name in
      if IsSet v bound fs name then
        (let cv = GetString v bound fs name in
         if cv \<noteq> '''' then
           (case fmlookup fs f_name of None \<Rightarrow> fs | Some f \<Rightarrow> fmupd f_name (set_flag f cv) fs)
         else fs)
      else fs)"

definition presetRequiredFlags ::
  "set_flag \<Rightarrow> viper \<Rightarrow> string list \<Rightarrow> bindings \<times> flag_values \<Rightarrow> bindings \<times> flag_values"
where
  "presetRequiredFlags set_flag v names st =
     (let bound = BindPFlags names (fst st) in (bound, fold (preset_flag set_flag v bound) names (snd st)))"

fun postInitCommands ::
  "set_flag \<Rightarrow> viper \<Rightarrow> command list \<Rightarrow> bindings \<times> flag_values \<Rightarrow> bindings \<times> flag_values"
where
  "postInitCommands set_flag v [] st = st"
| "postInitCommands set_flag v (Command names subs # cs) st =
     (let st1 = presetRequiredFlags set_flag v names st;
          st2 = (if subs \<noteq> [] then postInitCommands set_flag v subs st1 else st1)
      in postInitCommands set_flag v cs st2)"

text \<open>The flag sets of all commands of a forest, in the order of the walk.\<close>

fun flag_sets :: "command list \<Rightarrow> string list list" where
  "flag_sets [] = []"
| "flag_sets (Command names subs # cs) = names # flag_sets subs @ flag_sets cs"

lemma postInitCommands_walk:
  "postInitCommands set_flag v cs st = fold (presetRequiredFlags set_flag v) (flag_sets cs) st"
  by (induction set_flag v cs st rule: postInitCommands.induct) (simp_all add: Let_def)

subsection \<open>\<open>Execute\<close> and the wait for a signal\<close>

text \<open>
  \<open>Execute\<close> starts the watcher goroutine and runs the command; the watcher adds itself to the wait
  group, waits for a signal (of the system, or the \<open>os.Kill\<close> of a loop) and then cancels the context.
  \<open>RunE\<close> opens the server and waits for the group; \<open>PostRunE\<close> runs when \<open>RunE\<close> returned nil.
\<close>

datatype watcher_pc = WatcherStarting | WatcherSelecting | WatcherGone

datatype main_pc = RunningE | AtWait | RunningPost | MainReturned

record command_life =
  wait_group :: nat
  watcher :: watcher_pc
  ctx_cancelled :: bool
  main :: main_pc

definition Execute :: command_life where
  "Execute = \<lparr>wait_group = 0, watcher = WatcherStarting, ctx_cancelled = False, main = RunningE\<rparr>"

inductive life_step :: "command_life \<Rightarrow> command_life \<Rightarrow> bool" where
  watcher_adds: "watcher s = WatcherStarting \<Longrightarrow>
     life_step s (s\<lparr>wait_group := Suc (wait_group s), watcher := WatcherSelecting\<rparr>)"
| watcher_signal: "watcher s = WatcherSelecting \<Longrightarrow>
     life_step s (s\<lparr>ctx_cancelled := True, wait_group := wait_group s - 1, watcher := WatcherGone\<rparr>)"
| watcher_context: "watcher s = WatcherSelecting \<Longrightarrow> ctx_cancelled s \<Longrightarrow>
     life_step s (s\<lparr>wait_group := wait_group s - 1, watcher := WatcherGone\<rparr>)"
| open_fails: "main s = RunningE \<Longrightarrow> life_step s (s\<lparr>main := MainReturned\<rparr>)"
| open_returns: "main s = RunningE \<Longrightarrow> life_step s (s\<lparr>main := AtWait\<rparr>)"
| wait_over: "main s = AtWait \<Longrightarrow> wait_group s = 0 \<Longrightarrow> life_step s (s\<lparr>main := RunningPost\<rparr>)"
| post_over: "main s = RunningPost \<Longrightarrow> life_step s (s\<lparr>main := MainReturned\<rparr>)"

definition life_inv :: "command_life \<Rightarrow> bool" where
  "life_inv s \<longleftrightarrow>
     wait_group s = (if watcher s = WatcherSelecting then 1 else 0)
     \<and> (watcher s = WatcherGone \<longleftrightarrow> ctx_cancelled s)"

lemma life_inv_step: "life_step s t \<Longrightarrow> life_inv s \<Longrightarrow> life_inv t"
  by (induction rule: life_step.induct) (auto simp: life_inv_def)

lemma life_inv_steps: "life_step\<^sup>*\<^sup>* s t \<Longrightarrow> life_inv s \<Longrightarrow> life_inv t"
  by (induction rule: rtranclp_induct) (auto intro: life_inv_step)

lemma life_inv_Execute: "life_inv Execute"
  by (simp add: life_inv_def Execute_def)

text \<open>The signal sent on \<open>signalCh\<close> by a loop of the command itself, as the watcher takes it.\<close>

definition signalled :: "command_life \<Rightarrow> command_life" where
  "signalled l = l\<lparr>ctx_cancelled := True, wait_group := wait_group l - 1, watcher := WatcherGone\<rparr>"

subsection \<open>The commands\<close>

text \<open>
  \<open>PersistentPreRunE\<close> of the two commands: the root's, then the objects of the command. The state
  manager and, for \<^verbatim>\<open>xds\<close>, service discovery share the state. The loop of \<^verbatim>\<open>router start\<close> uses the global
  \<open>backendProviders\<close>.
\<close>

record ('l, 'cfg, 'h) router_command =
  router_server :: "('l, 'cfg, 'h swapHandler) server"
  router_swap :: "'h swapHandler"
  router_manager :: "(s3_source, routes_state) sync_state"
  router_providers :: "health list"

definition router_PersistentPreRunE ::
  "'cfg start_env \<Rightarrow> flags \<Rightarrow> ('l, 'cfg, 'h) router_command outcome"
where
  "router_PersistentPreRunE start f =
     (case PersistentPreRunE start f of
        (Ok _, g) \<Rightarrow>
          Ok \<lparr>router_server = command_server f g NewSwapHandler, router_swap = NewSwapHandler,
              router_manager = command_manager f g NewRoutesState, router_providers = backendProviders g\<rparr>
      | (Err e, g) \<Rightarrow> Err e
      | (Panic p, g) \<Rightarrow> Panic p)"

record ('l, 'cfg, 'h, 'm, 'c) xds_command =
  xds_server :: "('l, 'cfg, 'h) server"
  xds_manager :: "(s3_source, ('m, LocalityLbEndpoints, unit, 'c) xds_state) sync_state"
  xds_discovery :: "('m, 'c) discovery_state option"

definition xds_PersistentPreRunE ::
  "'cfg start_env \<Rightarrow> flags \<Rightarrow> 'h \<Rightarrow> (xds_kind \<Rightarrow> 'c) \<Rightarrow> string list \<Rightarrow> string \<Rightarrow>
   ('l, 'cfg, 'h, 'm, 'c) xds_command outcome"
where
  "xds_PersistentPreRunE start f grpcServer cache0 namespaces tagKey =
     (case PersistentPreRunE start f of
        (Ok _, g) \<Rightarrow>
          Ok \<lparr>xds_server = command_server f g grpcServer,
              xds_manager = command_manager f g (NewXdsState cache0),
              xds_discovery = (if length namespaces > 0
                then Some (discovery_start namespaces tagKey (periodSyncInterval f) (NewXdsState cache0)) else None)\<rparr>
      | (Err e, g) \<Rightarrow> Err e
      | (Panic p, g) \<Rightarrow> Panic p)"

text \<open>\<open>RunE\<close> up to its wait, and \<open>PostRunE\<close>, of \<^verbatim>\<open>router start\<close>.\<close>

definition router_RunE ::
  "('l, 'cfg) server_env \<Rightarrow> ('l, 'cfg, 'h) router_command \<Rightarrow> unit outcome \<times> ('l, 'cfg, 'h) router_command"
where
  "router_RunE env c = (let (r, s) = Open env (router_server c) in (r, c\<lparr>router_server := s\<rparr>))"

definition router_PostRunE ::
  "('l, 'cfg) server_env \<Rightarrow> ('l, 'cfg, 'h) router_command \<Rightarrow> (unit outcome \<times> ('l, 'cfg, 'h) router_command) option"
where
  "router_PostRunE env c =
     (case swap_Close (router_swap c) of
        (Ok _, sw) \<Rightarrow> map_option (\<lambda>(r, s). (r, c\<lparr>router_swap := sw, router_server := s\<rparr>)) (Close env (router_server c))
      | (r, sw) \<Rightarrow> Some (r, c\<lparr>router_swap := sw\<rparr>))"

subsection \<open>Properties\<close>

text \<open>
  C26. A command need not wait for a signal: the watcher joins the wait group in its own goroutine, so
  when \<open>RunE\<close> reaches its wait first, the wait is over at once and the command shuts down although
  nothing was signalled. When the watcher has joined before \<open>RunE\<close> reaches the wait, \<open>PostRunE\<close> runs only
  after a signal, and after a signal the wait always ends.
\<close>

theorem command_waits_for_signal:
  assumes "life_step\<^sup>*\<^sup>* Execute s" and "main s = AtWait"
  shows "(watcher s = WatcherStarting \<longrightarrow> life_step s (s\<lparr>main := RunningPost\<rparr>) \<and> \<not> ctx_cancelled s)
    \<and> (watcher s \<noteq> WatcherStarting \<longrightarrow>
         (\<forall>t. life_step\<^sup>*\<^sup>* s t \<longrightarrow> main t \<noteq> AtWait \<longrightarrow> ctx_cancelled t)
         \<and> (ctx_cancelled s \<longrightarrow> life_step s (s\<lparr>main := RunningPost\<rparr>)))"
proof -
  have inv: "life_inv s" by (rule life_inv_steps [OF assms(1) life_inv_Execute])
  have "watcher t \<noteq> WatcherStarting \<and> (main t \<noteq> AtWait \<longrightarrow> ctx_cancelled t) \<and> life_inv t"
    if "life_step\<^sup>*\<^sup>* s t" "watcher s \<noteq> WatcherStarting" for t
    using that(1)
  proof (induction rule: rtranclp_induct)
    case (step t u)
    from step(3) life_inv_step [OF step(2)] have "life_inv u" by simp
    with step(3) show ?case
      using step(2) by - (cases "watcher t"; erule life_step.cases; auto simp: life_inv_def)
  qed (use assms(2) that(2) inv in simp)
  moreover have "ctx_cancelled s \<Longrightarrow> wait_group s = 0" "watcher s = WatcherStarting \<Longrightarrow> wait_group s = 0 \<and> \<not> ctx_cancelled s"
    using inv by (auto simp: life_inv_def)
  ultimately show ?thesis using wait_over [OF assms(2)] by blast
qed

theorem command_waits_for_signal_witness:
  "\<exists>s. life_step\<^sup>*\<^sup>* Execute s \<and> main s = RunningPost \<and> \<not> ctx_cancelled s"
proof -
  have run: "life_step\<^sup>*\<^sup>* Execute (Execute\<lparr>main := AtWait\<rparr>)"
    by (rule r_into_rtranclp, rule open_returns) (simp add: Execute_def)
  from command_waits_for_signal [OF this] have "life_step (Execute\<lparr>main := AtWait\<rparr>) (Execute\<lparr>main := RunningPost\<rparr>)"
    by (simp add: Execute_def)
  with run have "life_step\<^sup>*\<^sup>* Execute (Execute\<lparr>main := RunningPost\<rparr>)" by (rule rtranclp.rtrancl_into_rtrancl)
  then show ?thesis by (intro exI [of _ "Execute\<lparr>main := RunningPost\<rparr>"]) (simp add: Execute_def)
qed

lemma Open_serving:
  assumes "Open env s = (Ok (), s')"
  shows "serving s' \<and> httpServer s' \<noteq> None \<and> closeChannel_closed s' = closeChannel_closed s \<and> tlsConfig s \<noteq> None
    \<and> shutdownTimeout s' = shutdownTimeout s"
proof -
  from assms obtain s1 where l: "listen env s = (Ok (), s1)" and v: "serve env s1 = (Ok (), s')"
    by (auto simp: Open_def and_then_Ok_iff)
  have "tlsConfig s \<noteq> None" using l by (auto simp: listen_def split: option.splits)
  moreover have "serving s'" using v by (auto simp: serve_def Let_def and_then_Ok_iff split: option.splits)
  ultimately show ?thesis using listen_cases [OF l] serve_cases [OF v] by auto
qed

text \<open>
  C28. From the flags to the shutdown: when the start-up of \<^verbatim>\<open>router\<close> and its \<open>Open\<close> succeed, TLS is on,
  and when the server is then shut down, which \<open>http.ErrServerClosed\<close> reports, \<open>PostRunE\<close> returns nil,
  the close channel is closed, and every later \<open>Swap\<close> panics.
\<close>

theorem router_start_to_shutdown:
  assumes "router_PersistentPreRunE start f = Ok c"
    and "router_RunE env c = (Ok (), c1)" and "http_Shutdown env (flag_shutdownTimeout f) = None"
    and "http_Serve env = ErrServerClosed"
  shows "enableTls f \<and> (\<exists>c2. router_PostRunE env c1 = Some (Ok (), c2) \<and> closeChannel_closed (router_server c2)
    \<and> (\<forall>h. Swap h (router_swap c2) = Some (Panic SendOnClosedChannel, router_swap c2)))"
proof -
  from assms(1) obtain g where g: "PersistentPreRunE start f = (Ok (), g)"
    and c: "router_server c = command_server f g NewSwapHandler" "router_swap c = NewSwapHandler"
    by (auto simp: router_PersistentPreRunE_def split: prod.splits outcome.splits)
  obtain s where s: "Open env (router_server c) = (Ok (), s)" and c1: "c1 = c\<lparr>router_server := s\<rparr>"
    using assms(2) by (auto simp: router_RunE_def split: prod.splits)
  from Open_serving [OF s] c have open_s: "serving s" "httpServer s \<noteq> None" "\<not> closeChannel_closed s" "tlsContext g \<noteq> None"
    "shutdownTimeout s = flag_shutdownTimeout f"
    by (auto simp: command_server_def NewServer_def)
  have "enableTls f"
    using PersistentPreRunE_Ok [OF g] open_s(4) by blast
  moreover have "Close env s = Some (Ok (), s\<lparr>serving := False, closeChannel_closed := True\<rparr>)"
    using open_s(1-3,5) assms(3,4) by (auto simp: Close_def waitCloseChannel_def)
  ultimately show ?thesis using c
    by (simp add: c1 router_PostRunE_def swap_Close_def NewSwapHandler_def Swap_def)
qed

definition tls_flags :: flags where
  "tls_flags = (plain_flags ''states'')\<lparr>enableTls := True\<rparr>"

theorem router_start_to_shutdown_witness:
  "\<exists>c c1 c2. router_PersistentPreRunE sample_start tls_flags = Ok (c :: (string, nat, nat) router_command)
    \<and> router_RunE sample_server_env c = (Ok (), c1) \<and> router_PostRunE sample_server_env c1 = Some (Ok (), c2)"
proof -
  obtain c :: "(string, nat, nat) router_command"
    where c: "router_PersistentPreRunE sample_start tls_flags = Ok c"
      "listenerAddress (router_server c) \<noteq> []" "tlsConfig (router_server c) = Some (Some 5)" "listener (router_server c) = None"
      "httpServer (router_server c) = None" "httpHandler (router_server c) \<noteq> None" "listenerProtocol (router_server c) = HTTP2"
    by (simp add: router_PersistentPreRunE_def pre_run_defs NewProvider_def sample_start_def
        initial_globals_def tls_flags_def plain_flags_def command_server_def NewServer_def)
  from c(2-) have "\<exists>s. Open sample_server_env (router_server c) = (Ok (), s)"
    by (auto simp: Open_def listen_def assertListen_def serve_def assertServe_def serveHTTP2_def
      sample_server_env_def Let_def)
  then obtain c1 where c1: "router_RunE sample_server_env c = (Ok (), c1)"
    by (auto simp: router_RunE_def)
  from router_start_to_shutdown [OF c(1) c1] c(1) c1 show ?thesis by (auto simp: sample_server_env_def)
qed

end
