(* ===== verification/Cmd_Init.thy ===== *)
theory Cmd_Init
  imports Cmd_Main
begin

section \<open>Flags, configuration and commands (\<^verbatim>\<open>cmd/root.go\<close>, \<^verbatim>\<open>cmd/xds.go\<close>)\<close>

text \<open>
  \<open>init\<close> registers the flags with \<^verbatim>\<open>pflag\<close>, binds them to keys of \<^verbatim>\<open>viper\<close> and builds the tree of the
  commands with \<^verbatim>\<open>cobra\<close>. These packages are outside the repository: the model is the list of the
  calls, in order, and what they mean is read off that list as documented. A flag carries its default
  value; durations are in nanoseconds.
\<close>

datatype cmd_name = RootCmd | RouterCmd | RouterStartCmd | XdsCmd | XdsStartCmd

datatype init_call =
    StringVar cmd_name string string
  | BoolVar cmd_name string bool
  | DurationVar cmd_name string int64
  | IntVar cmd_name string int64
  | StringSliceVar cmd_name string "string list"
  | BindPFlag string cmd_name string
  | AddCommand cmd_name cmd_name

definition initXds :: "init_call list" where
  "initXds =
     [StringVar XdsCmd ''aws-service-port-tag-key'' ''port'',
      StringSliceVar XdsCmd ''aws-service-discovery-namespaces'' [],
      BindPFlag ''aws_service_discovery_namespaces'' RootCmd ''aws-service-discovery-namespaces'',
      BindPFlag ''aws_service_port_tag_key'' RootCmd ''aws-service-port-tag-key'']"

definition init_calls :: "init_call list" where
  "init_calls =
     [StringVar RootCmd ''config'' '''',
      BoolVar RootCmd ''enable-tls'' True,
      StringVar RootCmd ''tls-certificate'' '''',
      StringVar RootCmd ''tls-private-key'' '''',
      BoolVar RootCmd ''tls-insecure-skip-verify'' False,
      StringVar RootCmd ''listener-address'' ''0.0.0.0:4880'',
      DurationVar RootCmd ''shutdown-timeout'' 20000000000,
      DurationVar RootCmd ''period-sync-interval'' 5000000000,
      StringVar RootCmd ''tfstate-source'' '''',
      StringVar RootCmd ''dynamodb-endpoint'' '''',
      StringVar RootCmd ''aws-tfstate-bucket'' '''',
      DurationVar RootCmd ''health-check-interval'' 0,
      IntVar RootCmd ''health-check-parallelism'' 4,
      StringVar RootCmd ''aws-s3-assume-role'' '''',
      BindPFlag ''enable_tls'' RootCmd ''enable-tls'',
      BindPFlag ''tls_certificate'' RootCmd ''tls-certificate'',
      BindPFlag ''tls_private_key'' RootCmd ''tls-private-key'',
      BindPFlag ''tls_insecure_skip_verify'' RootCmd ''tls-insecure-skip-verify'',
      BindPFlag ''listener_address'' RootCmd ''listener-address'',
      BindPFlag ''shutdown_timeout'' RootCmd ''shutdown-timeout'',
      BindPFlag ''period_sync_interval'' RootCmd ''period-sync-interval'',
      BindPFlag ''tfstate_source'' RootCmd ''tfstate-source'',
      BindPFlag ''dynamodb_endpoint'' RootCmd ''dynamodb-endpoint'',
      BindPFlag ''aws_tfstate_bucket'' RootCmd ''aws-tfstate-bucket'',
      BindPFlag ''health_check_interval'' RootCmd ''health-check-interval'',
      BindPFlag ''health_check_parallelism'' RootCmd ''health-check-parallelism'',
      BindPFlag ''aws_s3_assume_role'' RootCmd ''aws-s3-assume-role'']
     @ initXds @
     [AddCommand RouterCmd RouterStartCmd, AddCommand RootCmd RouterCmd,
      AddCommand XdsCmd XdsStartCmd, AddCommand RootCmd XdsCmd]"

text \<open>The persistent flags of a command, with their defaults.\<close>

fun registered :: "init_call \<Rightarrow> (cmd_name \<times> string \<times> flag_value) option" where
  "registered (StringVar c name def) = Some (c, name, StringValue def)"
| "registered (BoolVar c name def) = Some (c, name, BoolValue def)"
| "registered (DurationVar c name def) = Some (c, name, DurationValue def)"
| "registered (IntVar c name def) = Some (c, name, IntValue def)"
| "registered (StringSliceVar c name def) = Some (c, name, StringSliceValue def)"
| "registered _ = None"

definition persistent_flags :: "init_call list \<Rightarrow> cmd_name \<Rightarrow> (string \<times> flag_value) list" where
  "persistent_flags calls c = map snd (filter (\<lambda>(d, _). d = c) (List.map_filter registered calls))"

text \<open>
  The keys bound to flags. \<open>Lookup\<close> is nil for a flag that the set does not have yet, and \<open>BindPFlag\<close>
  with a nil flag is an error, which the code ignores.
\<close>

fun bound_flags :: "init_call list \<Rightarrow> init_call list \<Rightarrow> (string \<times> string) list" where
  "bound_flags before [] = []"
| "bound_flags before (BindPFlag key c name # calls) =
     (if name \<in> fst ` set (persistent_flags before c) then (key, name) # bound_flags (before @ [BindPFlag key c name]) calls
      else bound_flags (before @ [BindPFlag key c name]) calls)"
| "bound_flags before (call # calls) = bound_flags (before @ [call]) calls"

fun sub_commands :: "init_call list \<Rightarrow> cmd_name \<Rightarrow> cmd_name list" where
  "sub_commands [] c = []"
| "sub_commands (AddCommand p d # calls) c = (if p = c then d # sub_commands calls c else sub_commands calls c)"
| "sub_commands (_ # calls) c = sub_commands calls c"

text \<open>
  The tree that \<open>initConfig\<close> walks. The flags of a command on the path to the executed one contain its
  persistent flags and those of its parents; \<^verbatim>\<open>cobra\<close> has not merged those of the others.
\<close>

definition command_flags :: "cmd_name list \<Rightarrow> cmd_name \<Rightarrow> string list" where
  "command_flags path c =
     (if c \<in> set path
      then concat (map (\<lambda>d. map fst (persistent_flags init_calls d)) (takeWhile (\<lambda>d. d \<noteq> c) path @ [c]))
      else [])"

fun command_tree :: "nat \<Rightarrow> cmd_name list \<Rightarrow> cmd_name \<Rightarrow> command" where
  "command_tree 0 path c = Command (command_flags path c) []"
| "command_tree (Suc depth) path c =
     Command (command_flags path c) (map (command_tree depth path) (sub_commands init_calls c))"

text \<open>The flags of a path before the command line is read.\<close>

definition default_values :: "cmd_name list \<Rightarrow> flag_values" where
  "default_values path =
     fmap_of_list (concat (map (\<lambda>c. map (\<lambda>(name, def). (name, \<lparr>flag_Value = def, Changed = False\<rparr>))
       (persistent_flags init_calls c)) path))"

subsection \<open>\<open>initConfig\<close>\<close>

text \<open>
  The calls on \<^verbatim>\<open>viper\<close>, and the walk with the viper they leave. \<open>home\<close> is the result of
  \<open>os.UserHomeDir\<close>, whose error ends the process in \<open>cobra.CheckErr\<close> (\<open>None\<close>); \<open>keys\<close> is what
  \<open>AllKeys\<close> returns. An error of \<open>ReadInConfig\<close> is ignored.
\<close>

datatype viper_call =
    SetConfigFile string
  | AddConfigPath string
  | SetConfigType string
  | SetConfigName string
  | AutomaticEnv
  | BindEnv string string
  | ReadInConfig

definition config_file_calls :: "string \<Rightarrow> go_error + string \<Rightarrow> viper_call list option" where
  "config_file_calls cfgFile home =
     (if cfgFile \<noteq> '''' then Some [SetConfigFile cfgFile]
      else (case home of
              Inl err \<Rightarrow> None
            | Inr dir \<Rightarrow> Some [AddConfigPath dir, SetConfigType ''toml'', SetConfigName ''.cruiser'']))"

definition ToUpper :: "string \<Rightarrow> string" where
  "ToUpper s = map (\<lambda>c. let n = (of_char c :: nat) in if 97 \<le> n \<and> n \<le> 122 then char_of (n - 32) else c) s"

definition config_calls :: "go_error + string \<Rightarrow> string list \<Rightarrow> string \<Rightarrow> viper_call list option" where
  "config_calls home keys cfgFile =
     (case config_file_calls cfgFile home of
        None \<Rightarrow> None
      | Some calls \<Rightarrow> Some (calls @ [AutomaticEnv] @ map (\<lambda>key. BindEnv key (ToUpper key)) keys @ [ReadInConfig]))"

definition string_flag :: "flag_values \<Rightarrow> string \<Rightarrow> string" where
  "string_flag fs name =
     (case fmlookup fs name of Some f \<Rightarrow> (case flag_Value f of StringValue t \<Rightarrow> t | _ \<Rightarrow> []) | None \<Rightarrow> [])"

definition initConfig ::
  "set_flag \<Rightarrow> (viper_call list \<Rightarrow> viper) \<Rightarrow> go_error + string \<Rightarrow> string list \<Rightarrow> cmd_name list \<Rightarrow> flag_values \<Rightarrow>
   flag_values option"
where
  "initConfig set_flag run_viper home keys path fs =
     (case config_calls home keys (string_flag fs ''config'') of
        None \<Rightarrow> None
      | Some calls \<Rightarrow>
          Some (snd (postInitCommands set_flag (run_viper calls) [command_tree 2 path RootCmd]
            (fmap_of_list (bound_flags [] init_calls), fs))))"

text \<open>
  The loggers, which \<open>initConfig\<close> makes before it reads the file. The error of \<^verbatim>\<open>zap.NewProduction\<close> is
  dropped, so its logger may be nil when \<open>Sugar\<close> is called on it.
\<close>

record ('raw, 'log) loggers =
  RawLog :: "'raw option"
  Log :: "'log option"

definition InitializeLog ::
  "'raw option \<times> go_error option \<Rightarrow> ('raw option \<Rightarrow> 'log outcome) \<Rightarrow> ('raw, 'log) loggers \<Rightarrow>
   unit outcome \<times> ('raw, 'log) loggers"
where
  "InitializeLog NewProduction Sugar l =
     (let (raw, _) = NewProduction; l1 = l\<lparr>RawLog := raw\<rparr>
      in case Sugar raw of
           Ok log \<Rightarrow> (Ok (), l1\<lparr>Log := Some log\<rparr>)
         | Err e \<Rightarrow> (Err e, l1)
         | Panic p \<Rightarrow> (Panic p, l1))"

text \<open>A logger that cannot be made leaves \<open>Log\<close> nil and shows as the panic of \<open>Sugar\<close>, never as its own error.\<close>

lemma InitializeLog_nil:
  "Sugar None = Panic NilDereference \<Longrightarrow>
     InitializeLog (None, Some e) Sugar l = (Panic NilDereference, l\<lparr>RawLog := None\<rparr>)"
  by (simp add: InitializeLog_def)

text \<open>The package variables behind the flags, which \<open>Set\<close> writes.\<close>

definition bool_flag :: "flag_values \<Rightarrow> string \<Rightarrow> bool" where
  "bool_flag fs name =
     (case fmlookup fs name of Some f \<Rightarrow> (case flag_Value f of BoolValue b \<Rightarrow> b | _ \<Rightarrow> False) | None \<Rightarrow> False)"

definition number_flag :: "flag_values \<Rightarrow> string \<Rightarrow> int" where
  "number_flag fs name =
     (case fmlookup fs name of
        Some f \<Rightarrow> (case flag_Value f of DurationValue d \<Rightarrow> sint d | IntValue i \<Rightarrow> sint i | _ \<Rightarrow> 0)
      | None \<Rightarrow> 0)"

definition flag_variables :: "flag_values \<Rightarrow> flags" where
  "flag_variables fs =
     \<lparr>enableTls = bool_flag fs ''enable-tls'',
      certFile = string_flag fs ''tls-certificate'', keyFile = string_flag fs ''tls-private-key'',
      tlsInsecureSkipVerify = bool_flag fs ''tls-insecure-skip-verify'',
      flag_listenerAddress = string_flag fs ''listener-address'',
      flag_shutdownTimeout = number_flag fs ''shutdown-timeout'',
      periodSyncInterval = number_flag fs ''period-sync-interval'',
      tfstateSourceSelector = string_flag fs ''tfstate-source'', awsTfstateBucket = string_flag fs ''aws-tfstate-bucket'',
      awsS3AssumeRole = string_flag fs ''aws-s3-assume-role'', flag_dynamodbEndpoint = string_flag fs ''dynamodb-endpoint'',
      flag_healthCheckInterval = number_flag fs ''health-check-interval'',
      flag_healthCheckParallelism = number_flag fs ''health-check-parallelism''\<rparr>"

subsection \<open>What the code relies on of \<^verbatim>\<open>pflag\<close> and \<^verbatim>\<open>viper\<close>\<close>

text \<open>
  The parsers and printers of the flag types; a parser returns the value and whether the text was valid,
  and the value when it was not is what \<open>Set\<close> stores before it returns the error. A printed value parses
  back to itself.
\<close>

definition ParseBool :: "string \<Rightarrow> bool \<times> bool" where
  "ParseBool s =
     (if s \<in> {''1'', ''t'', ''T'', ''TRUE'', ''true'', ''True''} then (True, True)
      else (False, s \<in> {''0'', ''f'', ''F'', ''FALSE'', ''false'', ''False''}))"

record flag_formats =
  ParseDuration :: "string \<Rightarrow> int64 \<times> bool"
  DurationString :: "int64 \<Rightarrow> string"
  ParseInt :: "string \<Rightarrow> int64 \<times> bool"
  IntString :: "int64 \<Rightarrow> string"
  readAsCSV :: "string \<Rightarrow> string list option"

definition formats_law :: "flag_formats \<Rightarrow> bool" where
  "formats_law fm \<longleftrightarrow>
     (\<forall>d. ParseDuration fm (DurationString fm d) = (d, True)) \<and> (\<forall>i. ParseInt fm (IntString fm i) = (i, True))"

fun flag_text :: "flag_formats \<Rightarrow> flag_value \<Rightarrow> string" where
  "flag_text fm (StringValue t) = t"
| "flag_text fm (BoolValue b) = (if b then ''true'' else ''false'')"
| "flag_text fm (DurationValue d) = DurationString fm d"
| "flag_text fm (IntValue i) = IntString fm i"
| "flag_text fm (StringSliceValue l) = ''''"

fun scalar_value :: "flag_formats \<Rightarrow> flag_value \<Rightarrow> string \<Rightarrow> flag_value \<times> bool" where
  "scalar_value fm (BoolValue _) t = (let (b, ok) = ParseBool t in (BoolValue b, ok))"
| "scalar_value fm (DurationValue _) t = (let (d, ok) = ParseDuration fm t in (DurationValue d, ok))"
| "scalar_value fm (IntValue _) t = (let (i, ok) = ParseInt fm t in (IntValue i, ok))"
| "scalar_value fm _ t = (StringValue t, True)"

text \<open>
  The law of \<open>Set\<close>. A scalar flag stores what the text parses to and is marked as changed when the text
  was valid. A list of strings is replaced by the first valid text it is set to and extended by every
  later one; an invalid text leaves it alone.
\<close>

definition set_flag_law :: "flag_formats \<Rightarrow> set_flag \<Rightarrow> bool" where
  "set_flag_law fm set_flag \<longleftrightarrow>
     (\<forall>f t. set_flag f t =
        (case flag_Value f of
           StringSliceValue old \<Rightarrow>
             (case readAsCSV fm t of
                None \<Rightarrow> f
              | Some l \<Rightarrow> \<lparr>flag_Value = StringSliceValue ((if Changed f then old else []) @ l), Changed = True\<rparr>)
         | _ \<Rightarrow>
             (let (w, ok) = scalar_value fm (flag_Value f) t in \<lparr>flag_Value = w, Changed = Changed f \<or> ok\<rparr>)))"

text \<open>
  The documented precedence of \<open>viper\<close>: a key that is bound to a flag that was set has the text of that
  flag, which is empty for a list; any other key has the text of the environment or of the file
  (\<open>outside\<close>), if there is one.
\<close>

definition bound_text :: "flag_formats \<Rightarrow> bindings \<Rightarrow> flag_values \<Rightarrow> string \<Rightarrow> string option" where
  "bound_text fm bound fs key =
     (case Option.bind (fmlookup bound key) (fmlookup fs) of
        Some f \<Rightarrow> (if Changed f then Some (flag_text fm (flag_Value f)) else None)
      | None \<Rightarrow> None)"

definition viper_precedence :: "flag_formats \<Rightarrow> (string \<Rightarrow> string option) \<Rightarrow> viper \<Rightarrow> bool" where
  "viper_precedence fm outside v \<longleftrightarrow>
     (\<forall>bound fs key.
        (case (case bound_text fm bound fs key of Some t \<Rightarrow> Some t | None \<Rightarrow> outside key) of
           None \<Rightarrow> \<not> IsSet v bound fs key
         | Some t \<Rightarrow> IsSet v bound fs key \<and> GetString v bound fs key = t))"

subsection \<open>The walk, flag by flag\<close>

text \<open>One visit of a flag, whose key is bound to it or to nothing.\<close>

definition visit_flag ::
  "flag_formats \<Rightarrow> set_flag \<Rightarrow> (string \<Rightarrow> string option) \<Rightarrow> bool \<Rightarrow> string \<Rightarrow> flag \<Rightarrow> flag"
where
  "visit_flag fm set_flag outside is_bound key f =
     (case (if is_bound \<and> Changed f then Some (flag_text fm (flag_Value f)) else outside key) of
        None \<Rightarrow> f
      | Some t \<Rightarrow> if t = '''' then f else set_flag f t)"

lemma preset_flag_other: "m \<noteq> name \<Longrightarrow> fmlookup (preset_flag set_flag v bound m fs) name = fmlookup fs name"
  by (simp add: preset_flag_def Let_def split: option.split)

lemma preset_flag_visits:
  assumes "viper_precedence fm outside v" and "fmlookup fs name = Some f"
    and "fmlookup bound (config_key name) = (if is_bound then Some name else None)"
  shows "fmlookup (preset_flag set_flag v bound name fs) name =
    Some (visit_flag fm set_flag outside is_bound (config_key name) f)"
proof -
  have "bound_text fm bound fs (config_key name) =
      (if is_bound \<and> Changed f then Some (flag_text fm (flag_Value f)) else None)"
    by (simp add: bound_text_def assms(2,3))
  with assms(1) [unfolded viper_precedence_def, THEN spec, THEN spec, THEN spec, of bound fs "config_key name"]
  show ?thesis
    using assms(2) by (auto simp: preset_flag_def visit_flag_def Let_def split: option.splits)
qed

lemma fold_preset_other:
  "name \<notin> set names \<Longrightarrow> fmlookup (fold (preset_flag set_flag v bound) names fs) name = fmlookup fs name"
  by (induction names arbitrary: fs) (auto simp: preset_flag_other)

lemma lookup_BindPFlags: "fmlookup (BindPFlags names bound) key = (if key \<in> set names then Some key else fmlookup bound key)"
  unfolding BindPFlags_def by (induction names arbitrary: bound) auto

lemma presetRequiredFlags_visits:
  assumes "viper_precedence fm outside v" and "fmlookup (snd st) name = Some f" and "distinct names"
    and "fmlookup (BindPFlags names (fst st)) (config_key name) = (if is_bound then Some name else None)"
  shows "fmlookup (snd (presetRequiredFlags set_flag v names st)) name =
    Some (if name \<in> set names then visit_flag fm set_flag outside is_bound (config_key name) f else f)"
proof (cases "name \<in> set names")
  case True
  then obtain before behind where names: "names = before @ name # behind" by (meson split_list)
  with assms(3) have out: "name \<notin> set before" "name \<notin> set behind" by auto
  let ?b = "BindPFlags names (fst st)"
  have "fmlookup (fold (preset_flag set_flag v ?b) before (snd st)) name = Some f"
    by (simp add: fold_preset_other [OF out(1)] assms(2))
  from preset_flag_visits [OF assms(1) this assms(4)] show ?thesis
    using True by (simp add: presetRequiredFlags_def names fold_preset_other [OF out(2)] Let_def)
qed (simp add: presetRequiredFlags_def fold_preset_other assms(2) Let_def)

text \<open>
  Every command whose flag set has the flag visits it once. \<open>own\<close> is true when the key of the flag is its
  name, so that \<open>BindPFlags\<close> binds it.
\<close>

lemma walk_visits:
  assumes "viper_precedence fm outside v"
    and "\<forall>names \<in> set sets. distinct names \<and> (config_key name \<in> set names \<longleftrightarrow> own \<and> name \<in> set names)"
    and "own \<longleftrightarrow> config_key name = name"
  shows "fmlookup (snd st) name = Some f \<Longrightarrow>
    fmlookup (fst st) (config_key name) = (if is_bound then Some name else None) \<Longrightarrow>
    fmlookup (snd (fold (presetRequiredFlags set_flag v) sets st)) name =
      Some ((visit_flag fm set_flag outside (is_bound \<or> own) (config_key name)
        ^^ length (filter (\<lambda>names. name \<in> set names) sets)) f)"
  using assms(2)
proof (induction sets arbitrary: st f is_bound)
  case (Cons names sets)
  let ?st = "presetRequiredFlags set_flag v names st"
  let ?now = "is_bound \<or> own \<and> name \<in> set names"
  have b: "fmlookup (BindPFlags names (fst st)) (config_key name) = (if ?now then Some name else None)"
    using Cons.prems(2,3) assms(3) by (auto simp: lookup_BindPFlags)
  from Cons.prems(3) have "distinct names" by simp
  note now = presetRequiredFlags_visits [OF assms(1) Cons.prems(1) this b, of set_flag]
  have "fmlookup (fst ?st) (config_key name) = (if ?now then Some name else None)"
    using b by (simp add: presetRequiredFlags_def Let_def)
  note IH = Cons.IH [OF now this]
  have same: "(?now \<or> own) = (is_bound \<or> own)" by blast
  show ?case
  proof (cases "name \<in> set names")
    case True
    with IH Cons.prems(3) same show ?thesis
      by (auto simp: funpow_Suc_right simp del: funpow.simps)
  qed (use IH Cons.prems(3) same in simp)
qed simp

text \<open>A further visit of a scalar flag changes nothing; a list is extended again.\<close>

definition is_list :: "flag_value \<Rightarrow> bool" where
  "is_list w = (case w of StringSliceValue _ \<Rightarrow> True | _ \<Rightarrow> False)"

lemma set_scalar:
  assumes "set_flag_law fm set_flag" and "\<not> is_list (flag_Value f)"
  shows "set_flag f t = \<lparr>flag_Value = fst (scalar_value fm (flag_Value f) t),
    Changed = Changed f \<or> snd (scalar_value fm (flag_Value f) t)\<rparr>"
  using assms(1) [unfolded set_flag_law_def, THEN spec, THEN spec, of f t] assms(2)
  by (cases "flag_Value f") (simp_all add: is_list_def split_beta)

lemma set_list:
  assumes "set_flag_law fm set_flag" and "flag_Value f = StringSliceValue old"
  shows "set_flag f t = (case readAsCSV fm t of
      None \<Rightarrow> f
    | Some l \<Rightarrow> \<lparr>flag_Value = StringSliceValue ((if Changed f then old else []) @ l), Changed = True\<rparr>)"
  using assms(1) [unfolded set_flag_law_def, THEN spec, THEN spec, of f t] assms(2) by simp

lemma scalar_value_type:
  "\<not> is_list w \<Longrightarrow> \<not> is_list (fst (scalar_value fm w t))
     \<and> scalar_value fm (fst (scalar_value fm w t)) t' = scalar_value fm w t'"
  by (cases w) (simp_all add: is_list_def split_beta)

lemma scalar_value_text:
  "formats_law fm \<Longrightarrow> \<not> is_list w \<Longrightarrow> scalar_value fm w (flag_text fm w) = (w, True)"
  by (cases w) (simp_all add: is_list_def formats_law_def ParseBool_def)

lemma flag_eq: "flag_Value f = w \<Longrightarrow> Changed f = c \<Longrightarrow> f = \<lparr>flag_Value = w, Changed = c\<rparr>"
  by (cases f) simp

lemma visit_set_flag:
  assumes "formats_law fm" and "set_flag_law fm set_flag" and "\<not> is_list (flag_Value f)" and "Changed f"
  shows "visit_flag fm set_flag outside True key f = f"
  using assms(4) by (simp add: visit_flag_def set_scalar [OF assms(2,3)] scalar_value_text [OF assms(1,3)] flag_eq)

lemma visit_scalar_again:
  assumes "formats_law fm" and "set_flag_law fm set_flag" and "\<not> is_list (flag_Value f)"
  shows "visit_flag fm set_flag outside is_bound key (visit_flag fm set_flag outside is_bound key f)
    = visit_flag fm set_flag outside is_bound key f"
proof (cases "is_bound \<and> Changed f")
  case True
  then show ?thesis using visit_set_flag [OF assms] by simp
next
  case False
  show ?thesis
  proof (cases "outside key")
    case None
    with False show ?thesis by (auto simp: visit_flag_def)
  next
    case (Some t)
    show ?thesis
    proof (cases "t = ''''")
      case False
      let ?g = "set_flag f t"
      have g: "visit_flag fm set_flag outside is_bound key f = ?g"
        using \<open>\<not> (is_bound \<and> Changed f)\<close> Some False by (auto simp: visit_flag_def)
      have scalar: "\<not> is_list (flag_Value ?g)" using scalar_value_type [OF assms(3)] by (simp add: set_scalar [OF assms(2,3)])
      have again: "set_flag ?g t = ?g"
        using scalar_value_type [OF assms(3)] by (simp add: set_scalar [OF assms(2) scalar]) (simp add: set_scalar [OF assms(2,3)])
      show ?thesis
      proof (cases "is_bound \<and> Changed ?g")
        case True
        then show ?thesis using visit_set_flag [OF assms(1,2) scalar] g by simp
      next
        case False
        then have "visit_flag fm set_flag outside is_bound key ?g = set_flag ?g t"
          using Some \<open>t \<noteq> ''''\<close> by (auto simp: visit_flag_def)
        with again g show ?thesis by simp
      qed
    qed (use Some False in \<open>auto simp: visit_flag_def\<close>)
  qed
qed

lemma visits_scalar:
  assumes "formats_law fm" and "set_flag_law fm set_flag" and "\<not> is_list (flag_Value f)"
  shows "(visit_flag fm set_flag outside is_bound key ^^ Suc n) f = visit_flag fm set_flag outside is_bound key f"
proof (induction n)
  case (Suc n)
  then show ?case by (simp add: visit_scalar_again [OF assms])
qed simp

subsection \<open>The commands and flags of \<^verbatim>\<open>xds start\<close>\<close>

definition root_flags :: "string list" where
  "root_flags = map fst (persistent_flags init_calls RootCmd)"

definition xds_flags :: "string list" where
  "xds_flags = map fst (persistent_flags init_calls XdsCmd)"

abbreviation xds_path :: "cmd_name list" where
  "xds_path \<equiv> [RootCmd, XdsCmd, XdsStartCmd]"

lemmas init_defs = init_calls_def initXds_def persistent_flags_def map_filter_simps

lemma root_flags_eq:
  "root_flags = [''config'', ''enable-tls'', ''tls-certificate'', ''tls-private-key'', ''tls-insecure-skip-verify'',
     ''listener-address'', ''shutdown-timeout'', ''period-sync-interval'', ''tfstate-source'', ''dynamodb-endpoint'',
     ''aws-tfstate-bucket'', ''health-check-interval'', ''health-check-parallelism'', ''aws-s3-assume-role'']"
  by (simp add: root_flags_def init_defs)

lemma xds_flags_eq: "xds_flags = [''aws-service-port-tag-key'', ''aws-service-discovery-namespaces'']"
  by (simp add: xds_flags_def init_defs)

lemma no_start_flags: "persistent_flags init_calls XdsStartCmd = []"
  by (simp add: init_defs)

lemma bound_flags_eq:
  "bound_flags [] init_calls = map (\<lambda>name. (config_key name, name)) (tl root_flags)"
  unfolding root_flags_eq by (simp add: init_defs config_key_def)

lemma config_keys_distinct: "distinct (map config_key (tl root_flags @ xds_flags))"
  unfolding root_flags_eq xds_flags_eq by (simp add: config_key_def)

lemma sub_commands_eq:
  "sub_commands init_calls RootCmd = [RouterCmd, XdsCmd]" "sub_commands init_calls RouterCmd = [RouterStartCmd]"
  "sub_commands init_calls XdsCmd = [XdsStartCmd]"
  by (simp_all add: init_calls_def initXds_def)

lemma xds_flag_sets:
  "flag_sets [command_tree 2 xds_path RootCmd] =
     [root_flags, [], [], root_flags @ xds_flags, root_flags @ xds_flags]"
  by (simp add: numeral_2_eq_2 command_flags_def sub_commands_eq no_start_flags root_flags_def xds_flags_def)

lemma own_keys:
  assumes "name \<in> set (root_flags @ xds_flags)"
  shows "config_key name = name \<longleftrightarrow> name = ''config''"
    and "config_key name \<in> set (root_flags @ xds_flags) \<longleftrightarrow> name = ''config''"
proof -
  have "list_all (\<lambda>name. (config_key name = name \<longleftrightarrow> name = ''config'')
      \<and> (config_key name \<in> set (root_flags @ xds_flags) \<longleftrightarrow> name = ''config'')) (root_flags @ xds_flags)"
    unfolding root_flags_eq xds_flags_eq by code_simp
  with assms show "config_key name = name \<longleftrightarrow> name = ''config''"
    "config_key name \<in> set (root_flags @ xds_flags) \<longleftrightarrow> name = ''config''"
    by (auto simp: list_all_iff)
qed

lemma root_xds_distinct: "distinct (root_flags @ xds_flags)"
  unfolding root_flags_eq xds_flags_eq by simp

lemma initial_bindings:
  assumes "name \<in> set (root_flags @ xds_flags)"
  shows "fmlookup (fmap_of_list (bound_flags [] init_calls)) (config_key name) =
    (if name \<in> set root_flags \<and> name \<noteq> ''config'' then Some name else None)"
proof -
  have mem: "name \<in> set (tl root_flags) \<longleftrightarrow> name \<in> set root_flags \<and> name \<noteq> ''config''"
    unfolding root_flags_eq by auto
  have key: "config_key n = config_key name \<longleftrightarrow> n = name" if "n \<in> set (tl root_flags)" "name \<noteq> ''config''" for n
  proof -
    have "inj_on config_key (set (tl root_flags @ xds_flags))" using config_keys_distinct by (simp only: distinct_map)
    moreover have "name \<in> set (tl root_flags @ xds_flags)" using assms mem that(2) by auto
    ultimately show ?thesis using that(1) by (auto dest: inj_onD)
  qed
  have config: "config_key n \<noteq> ''config''" if "n \<in> set (tl root_flags)" for n
    using that unfolding root_flags_eq by (auto simp: config_key_def)
  show ?thesis
  proof (cases "name \<in> set (tl root_flags)")
    case True
    have "distinct (map fst (bound_flags [] init_calls))"
      using config_keys_distinct unfolding bound_flags_eq by (simp add: comp_def distinct_map)
    moreover have "(config_key name, name) \<in> set (bound_flags [] init_calls)" using True unfolding bound_flags_eq by auto
    ultimately show ?thesis using True mem by (simp add: fmlookup_of_list)
  next
    case False
    have "config_key name \<notin> fst ` set (bound_flags [] init_calls)"
    proof (cases "name = ''config''")
      case True
      then have "config_key name = ''config''" by (simp add: config_key_def)
      with config show ?thesis unfolding bound_flags_eq by force
    next
      case other: False
      with key False show ?thesis unfolding bound_flags_eq by force
    qed
    then show ?thesis using False mem by (simp add: fmlookup_of_list map_of_eq_None_iff [THEN iffD2])
  qed
qed

text \<open>What the walk for \<^verbatim>\<open>xds start\<close> makes of a flag.\<close>

lemma initConfig_visits:
  assumes "viper_precedence fm outside (run_viper calls)"
    and "config_calls home keys (string_flag fs ''config'') = Some calls"
    and "initConfig set_flag run_viper home keys xds_path fs = Some fs'"
    and "fmlookup fs name = Some f" and "name \<in> set (root_flags @ xds_flags)"
  shows "fmlookup fs' name =
    Some ((visit_flag fm set_flag outside (name \<in> set root_flags) (config_key name)
      ^^ (if name \<in> set root_flags then 3 else 2)) f)"
proof -
  define sets where "sets = [root_flags, [], [], root_flags @ xds_flags, root_flags @ xds_flags]"
  define is_bound where "is_bound \<longleftrightarrow> name \<in> set root_flags \<and> name \<noteq> ''config''"
  define st where "st = (fmap_of_list (bound_flags [] init_calls), fs)"
  have fs': "fs' = snd (fold (presetRequiredFlags set_flag (run_viper calls)) sets st)"
    using assms(2,3) by (simp add: initConfig_def postInitCommands_walk xds_flag_sets sets_def st_def)
  have keys: "\<forall>names \<in> set sets. distinct names \<and>
      (config_key name \<in> set names \<longleftrightarrow> config_key name = name \<and> name \<in> set names)"
  proof
    fix names assume "names \<in> set sets"
    then have "distinct names" "set names \<subseteq> set (root_flags @ xds_flags)"
      using root_xds_distinct by (auto simp: sets_def)
    with own_keys [OF assms(5)] show "distinct names \<and>
        (config_key name \<in> set names \<longleftrightarrow> config_key name = name \<and> name \<in> set names)" by auto
  qed
  have st: "fmlookup (snd st) name = Some f"
    "fmlookup (fst st) (config_key name) = (if is_bound then Some name else None)"
    using assms(4) initial_bindings [OF assms(5)] by (simp_all add: st_def is_bound_def)
  have own: "(is_bound \<or> config_key name = name) = (name \<in> set root_flags)"
    using own_keys(1) [OF assms(5)] unfolding is_bound_def root_flags_eq by auto
  have count: "length (filter (\<lambda>names. name \<in> set names) sets) = (if name \<in> set root_flags then 3 else 2)"
    using assms(5) by (auto simp: sets_def)
  show ?thesis
    unfolding fs' using walk_visits [OF assms(1) keys refl st] unfolding own count .
qed

subsection \<open>Properties\<close>

text \<open>
  C27. The flags of \<^verbatim>\<open>xds start\<close> after \<open>initConfig\<close>. A flag of the root command that was given on the command
  line keeps its value, and otherwise takes the non-empty text of the environment or of the file; a text
  that does not parse is not reported but stored as what its parser returns, so an invalid boolean turns
  the flag off. The two flags of \<^verbatim>\<open>xds\<close> are bound to nothing, because \<open>initXds\<close> looks them up at the wrong
  command, so for them the environment and the file come in even when the flag was given: the port tag
  key is overridden, and the namespaces are appended, twice, because the walk sets them at \<^verbatim>\<open>xds\<close> and again at
  \<^verbatim>\<open>xds start\<close>; without a command line the list has every namespace two times.
\<close>

theorem initConfig_values:
  assumes "formats_law fm" and "set_flag_law fm set_flag" and "viper_precedence fm outside (run_viper calls)"
    and "config_calls home keys (string_flag fs ''config'') = Some calls"
    and "initConfig set_flag run_viper home keys xds_path fs = Some fs'"
    and "fmlookup fs name = Some f" and "name \<in> set root_flags \<union> set xds_flags"
    and "is_list (flag_Value f) \<longleftrightarrow> name = ''aws-service-discovery-namespaces''"
  shows "fmlookup fs' name = Some
    (if name \<in> set root_flags \<and> Changed f then f
     else (case outside (config_key name) of
             None \<Rightarrow> f
           | Some t \<Rightarrow>
               if t = '''' then f
               else (case flag_Value f of
                       StringSliceValue old \<Rightarrow>
                         (case readAsCSV fm t of
                            None \<Rightarrow> f
                          | Some l \<Rightarrow> \<lparr>flag_Value = StringSliceValue ((if Changed f then old else []) @ l @ l), Changed = True\<rparr>)
                     | _ \<Rightarrow>
                         (let (w, ok) = scalar_value fm (flag_Value f) t
                          in \<lparr>flag_Value = w, Changed = Changed f \<or> ok\<rparr>))))"
proof -
  let ?bound = "name \<in> set root_flags" and ?key = "config_key name"
  have mem: "name \<in> set (root_flags @ xds_flags)" using assms(7) by simp
  note visits = initConfig_visits [OF assms(3-6) mem]
  show ?thesis
  proof (cases "is_list (flag_Value f)")
    case True
    then obtain old where old: "flag_Value f = StringSliceValue old" by (cases "flag_Value f") (auto simp: is_list_def)
    have "name \<notin> set root_flags" using True assms(8) unfolding root_flags_eq by simp
    moreover have "set_flag (set_flag f t) t = (case readAsCSV fm t of None \<Rightarrow> f
        | Some l \<Rightarrow> \<lparr>flag_Value = StringSliceValue ((if Changed f then old else []) @ l @ l), Changed = True\<rparr>)" for t
      by (cases "readAsCSV fm t") (simp_all add: set_list [OF assms(2)] old)
    ultimately show ?thesis
      using visits by (simp add: numeral_2_eq_2 visit_flag_def old set_list [OF assms(2) old] split: option.split)
  next
    case False
    obtain n where "(if name \<in> set root_flags then 3 else 2) = Suc n" by (cases "name \<in> set root_flags") auto
    then have "fmlookup fs' name = Some (visit_flag fm set_flag outside ?bound ?key f)"
      using visits by (simp only: visits_scalar [OF assms(1,2) False])
    moreover have "(case flag_Value f of
          StringSliceValue old \<Rightarrow> other old
        | _ \<Rightarrow> (let (w, ok) = scalar_value fm (flag_Value f) t in \<lparr>flag_Value = w, Changed = Changed f \<or> ok\<rparr>))
        = set_flag f t" for t and other :: "string list \<Rightarrow> flag"
      using False by (cases "flag_Value f") (simp_all add: set_scalar [OF assms(2) False] is_list_def split_beta)
    moreover have "visit_flag fm set_flag outside ?bound ?key f = f" if "?bound" "Changed f"
      using visit_set_flag [OF assms(1,2) False that(2)] that(1) by simp
    ultimately show ?thesis by (auto simp: visit_flag_def split: option.split)
  qed
qed

text \<open>
  For the witnesses: \<open>pflag\<close> and \<open>viper\<close> as their laws say, with unary numbers, and a command line and an
  environment with values for the same flags.
\<close>

definition sample_formats :: flag_formats where
  "sample_formats =
     \<lparr>ParseDuration = (\<lambda>t. (of_nat (length t), True)), DurationString = (\<lambda>d. replicate (unat d) CHR ''1''),
      ParseInt = (\<lambda>t. (of_nat (length t), True)), IntString = (\<lambda>i. replicate (unat i) CHR ''1''),
      readAsCSV = (\<lambda>t. Some [t])\<rparr>"

lemma sample_formats_law: "formats_law sample_formats"
  by (simp add: formats_law_def sample_formats_def)

definition sample_set :: set_flag where
  "sample_set f t =
     (case flag_Value f of
        StringSliceValue old \<Rightarrow> \<lparr>flag_Value = StringSliceValue ((if Changed f then old else []) @ [t]), Changed = True\<rparr>
      | w \<Rightarrow>
          (let (w', ok) = scalar_value sample_formats w t in \<lparr>flag_Value = w', Changed = Changed f \<or> ok\<rparr>))"

lemma sample_set_law: "set_flag_law sample_formats sample_set"
  by (auto simp: set_flag_law_def sample_set_def split: flag_value.split) (simp_all add: sample_formats_def)

definition documented_viper :: "flag_formats \<Rightarrow> (string \<Rightarrow> string option) \<Rightarrow> viper" where
  "documented_viper fm outside =
     (let find = (\<lambda>bound fs key. case bound_text fm bound fs key of Some t \<Rightarrow> Some t | None \<Rightarrow> outside key) in
      \<lparr>IsSet = (\<lambda>bound fs key. find bound fs key \<noteq> None),
       GetString = (\<lambda>bound fs key. case find bound fs key of Some t \<Rightarrow> t | None \<Rightarrow> [])\<rparr>)"

lemma documented_precedence: "viper_precedence fm outside (documented_viper fm outside)"
  by (simp add: viper_precedence_def documented_viper_def split: option.split)

definition sample_outside :: "string \<Rightarrow> string option" where
  "sample_outside = map_of [(''aws_service_port_tag_key'', ''http''), (''aws_service_discovery_namespaces'', ''b''),
     (''listener_address'', ''0.0.0.0:80''), (''enable_tls'', ''yes'')]"

definition sample_line :: flag_values where
  "sample_line =
     fmupd ''listener-address'' \<lparr>flag_Value = StringValue ''127.0.0.1:4880'', Changed = True\<rparr>
     (fmupd ''aws-service-port-tag-key'' \<lparr>flag_Value = StringValue ''grpc'', Changed = True\<rparr>
     (fmupd ''aws-service-discovery-namespaces'' \<lparr>flag_Value = StringSliceValue [''a''], Changed = True\<rparr>
     (fmupd ''enable-tls'' \<lparr>flag_Value = BoolValue True, Changed = False\<rparr>
     (fmupd ''config'' \<lparr>flag_Value = StringValue [], Changed = False\<rparr> fmempty))))"

theorem initConfig_values_witness:
  "\<exists>fs. initConfig sample_set (\<lambda>_. documented_viper sample_formats sample_outside) (Inr ''/root'') [] xds_path sample_line = Some fs
     \<and> fmlookup fs ''listener-address'' = Some \<lparr>flag_Value = StringValue ''127.0.0.1:4880'', Changed = True\<rparr>
     \<and> fmlookup fs ''aws-service-port-tag-key'' = Some \<lparr>flag_Value = StringValue ''http'', Changed = True\<rparr>
     \<and> fmlookup fs ''aws-service-discovery-namespaces'' = Some \<lparr>flag_Value = StringSliceValue [''a'', ''b'', ''b''], Changed = True\<rparr>
     \<and> fmlookup fs ''enable-tls'' = Some \<lparr>flag_Value = BoolValue False, Changed = False\<rparr>"
proof -
  let ?v = "documented_viper sample_formats sample_outside"
  obtain calls where calls: "config_calls (Inr ''/root'') [] (string_flag sample_line ''config'') = Some calls"
    by (simp add: config_calls_def config_file_calls_def string_flag_def sample_line_def)
  then obtain fs where fs: "initConfig sample_set (\<lambda>_. ?v) (Inr ''/root'') [] xds_path sample_line = Some fs"
    by (simp add: initConfig_def)
  note result = initConfig_values [where run_viper = "\<lambda>_. ?v",
    OF sample_formats_law sample_set_law documented_precedence calls fs]
  have in_root: "''listener-address'' \<in> set root_flags" "''enable-tls'' \<in> set root_flags"
    and in_xds: "''aws-service-port-tag-key'' \<in> set xds_flags" "''aws-service-discovery-namespaces'' \<in> set xds_flags"
    "''aws-service-port-tag-key'' \<notin> set root_flags" "''aws-service-discovery-namespaces'' \<notin> set root_flags"
    unfolding root_flags_eq xds_flags_eq by simp_all
  have keys: "config_key ''aws-service-port-tag-key'' = ''aws_service_port_tag_key''"
    "config_key ''aws-service-discovery-namespaces'' = ''aws_service_discovery_namespaces''"
    "config_key ''enable-tls'' = ''enable_tls''" by (simp_all add: config_key_def)
  have line: "fmlookup sample_line ''listener-address'' = Some \<lparr>flag_Value = StringValue ''127.0.0.1:4880'', Changed = True\<rparr>"
    "fmlookup sample_line ''aws-service-port-tag-key'' = Some \<lparr>flag_Value = StringValue ''grpc'', Changed = True\<rparr>"
    "fmlookup sample_line ''aws-service-discovery-namespaces'' = Some \<lparr>flag_Value = StringSliceValue [''a''], Changed = True\<rparr>"
    "fmlookup sample_line ''enable-tls'' = Some \<lparr>flag_Value = BoolValue True, Changed = False\<rparr>"
    by (simp_all add: sample_line_def)
  note sample = sample_outside_def sample_formats_def ParseBool_def is_list_def keys
  have "fmlookup fs ''listener-address'' = Some \<lparr>flag_Value = StringValue ''127.0.0.1:4880'', Changed = True\<rparr>"
    using result [OF line(1)] in_root by (simp add: is_list_def)
  moreover have "fmlookup fs ''aws-service-port-tag-key'' = Some \<lparr>flag_Value = StringValue ''http'', Changed = True\<rparr>"
    using result [OF line(2)] in_xds by (simp add: sample)
  moreover have "fmlookup fs ''aws-service-discovery-namespaces'' = Some \<lparr>flag_Value = StringSliceValue [''a'', ''b'', ''b''], Changed = True\<rparr>"
    using result [OF line(3)] in_xds by (simp add: sample)
  moreover have "fmlookup fs ''enable-tls'' = Some \<lparr>flag_Value = BoolValue False, Changed = False\<rparr>"
    using result [OF line(4)] in_root by (simp add: sample)
  ultimately show ?thesis using fs by blast
qed

end
