(* ===== verification/Router_Command.thy ===== *)
theory Router_Command
  imports Cmd Routes_State Aws_Provider
begin

section \<open>The command \<^verbatim>\<open>router\<close> (\<^verbatim>\<open>cmd/router.go\<close>)\<close>

text \<open>
  The goroutine of \<open>routerStartCmd\<close> takes the updates of the routes state, makes a router of the sorted
  routes, has their backends checked and swaps the router in. Here it runs against the models of the
  routes state, the provider and the swap handler; the state manager appears as the goroutine that
  reads and builds the routes state. \<open>Build\<close> holds the lock while it sends its update, and \<open>GetRoutes\<close>
  takes the lock: \<open>BuilderSending\<close> is \<open>Build\<close> at that send.
\<close>

datatype builder_pc = BuilderIdle | BuilderSending

datatype loop_pc =
    LoopSelecting
  | UpdateTaken
  | CheckingHealth "lambda_backend router"
  | Swapping "lambda_backend router"
  | SendingKill
  | LoopReturned
  | LoopCrashed go_panic

record router_process =
  process_routes :: routes_state
  builder :: builder_pc
  process_health :: health
  swap_handler :: "lambda_backend router swapHandler"
  loop :: loop_pc

definition start_router :: "int \<Rightarrow> nat \<Rightarrow> router_process" where
  "start_router interval parallelism =
     \<lparr>process_routes = NewRoutesState, builder = BuilderIdle, process_health = NewHealth interval parallelism,
      swap_handler = NewSwapHandler, loop = LoopSelecting\<rparr>"

text \<open>What the loop does with an update until it has its router: \<open>GetRoutes\<close> and \<open>NewRouter\<close>.\<close>

definition route_update ::
  "(lambda_backend mux_route list \<Rightarrow> string \<Rightarrow> nat option) \<Rightarrow> ((string, string) gomap \<Rightarrow> string list) \<Rightarrow>
   string list \<Rightarrow> router_process \<Rightarrow> router_process"
where
  "route_update mux_Get order ks s =
     (case GetRoutes ks (process_routes s) of
        Panic p \<Rightarrow> s\<lparr>loop := LoopCrashed p\<rparr>
      | Err err \<Rightarrow> s\<lparr>loop := SendingKill\<rparr>
      | Ok rs \<Rightarrow>
          (case NewRouter mux_Get order (routerOpts [(aws_BackendProviderKey, aws_provider)] \<lparr>Routes = rs\<rparr>) of
             Ok r \<Rightarrow>
               s\<lparr>process_health := fold (\<lambda>(k, hs). HealthCheckHandlers hs) (DoHealthcheck [aws_BackendProviderKey] r) (process_health s),
                 loop := CheckingHealth r\<rparr>
           | Err err \<Rightarrow> s\<lparr>loop := LoopCrashed (PanicValue err)\<rparr>
           | Panic p \<Rightarrow> s\<lparr>loop := LoopCrashed p\<rparr>))"

definition process_crashed :: "router_process \<Rightarrow> bool" where
  "process_crashed s = (case loop s of LoopCrashed p \<Rightarrow> True | _ \<Rightarrow> False)"

text \<open>
  The steps of the loop and of the goroutines it starts: the health checks and the watcher of the swap
  handler.
\<close>

inductive loop_step ::
  "(lambda_backend mux_route list \<Rightarrow> string \<Rightarrow> nat option) \<Rightarrow> ((string, string) gomap \<Rightarrow> string list) \<Rightarrow>
   router_process \<Rightarrow> router_process \<Rightarrow> bool"
  for mux_Get order
where
  take_update: "loop s = LoopSelecting \<Longrightarrow> builder s = BuilderSending \<Longrightarrow>
     loop_step mux_Get order s (s\<lparr>builder := BuilderIdle, loop := UpdateTaken\<rparr>)"
| handle_update: "loop s = UpdateTaken \<Longrightarrow> builder s = BuilderIdle \<Longrightarrow>
     enumerates ks (nodes (routes (process_routes s))) \<Longrightarrow>
     loop_step mux_Get order s (route_update mux_Get order ks s)"
| health_goroutine: "\<not> process_crashed s \<Longrightarrow> health_step (process_health s) h \<Longrightarrow>
     loop_step mux_Get order s (s\<lparr>process_health := h,
         loop := (case check_panic h of None \<Rightarrow> loop s | Some p \<Rightarrow> LoopCrashed p)\<rparr>)"
| health_returns: "loop s = CheckingHealth r \<Longrightarrow> caller (process_health s) = NotCalling \<Longrightarrow>
     loop_step mux_Get order s (s\<lparr>loop := Swapping r\<rparr>)"
| swap_router: "loop s = Swapping r \<Longrightarrow> Swap r (swap_handler s) = Some (Ok (), sw) \<Longrightarrow>
     loop_step mux_Get order s (s\<lparr>swap_handler := sw, loop := LoopSelecting\<rparr>)"
| swap_panics: "loop s = Swapping r \<Longrightarrow> Swap r (swap_handler s) = Some (Panic p, sw) \<Longrightarrow>
     loop_step mux_Get order s (s\<lparr>loop := LoopCrashed p\<rparr>)"
| watch_swap: "\<not> process_crashed s \<Longrightarrow>
     loop_step mux_Get order s (s\<lparr>swap_handler := watchSwap_store (swap_handler s)\<rparr>)"

text \<open>
  The process as the loop sees it: the state manager reads and builds at any time, the context and the
  state manager can end the loop, and the shutdown closes the handler.
\<close>

inductive router_step ::
  "(string \<Rightarrow> go_error + Router_Route) \<Rightarrow> (lambda_backend mux_route list \<Rightarrow> string \<Rightarrow> nat option) \<Rightarrow>
   ((string, string) gomap \<Rightarrow> string list) \<Rightarrow> router_process \<Rightarrow> router_process \<Rightarrow> bool"
  for unmarshal mux_Get order
where
  sync_reads: "\<not> process_crashed s \<Longrightarrow> builder s = BuilderIdle \<Longrightarrow>
     router_step unmarshal mux_Get order s
       (s\<lparr>process_routes := snd (routes_ReadFromTfstate unmarshal t (process_routes s))\<rparr>)"
| sync_builds: "\<not> process_crashed s \<Longrightarrow> builder s = BuilderIdle \<Longrightarrow> enumerates ks (routesMap (process_routes s)) \<Longrightarrow>
     routes_Build ks (process_routes s) = (r, rs) \<Longrightarrow>
     router_step unmarshal mux_Get order s
       (s\<lparr>process_routes := rs, builder := (if r = Ok () then BuilderSending else BuilderIdle)\<rparr>)"
| loop_moves: "loop_step mux_Get order s t \<Longrightarrow> router_step unmarshal mux_Get order s t"
| sync_error: "loop s = LoopSelecting \<Longrightarrow> router_step unmarshal mux_Get order s (s\<lparr>loop := SendingKill\<rparr>)"
| kill_taken: "loop s = SendingKill \<Longrightarrow> router_step unmarshal mux_Get order s (s\<lparr>loop := LoopReturned\<rparr>)"
| context_done: "loop s = LoopSelecting \<Longrightarrow> router_step unmarshal mux_Get order s (s\<lparr>loop := LoopReturned\<rparr>)"
| close_handler: "\<not> process_crashed s \<Longrightarrow> swap_Close (swap_handler s) = (Ok (), sw) \<Longrightarrow>
     router_step unmarshal mux_Get order s (s\<lparr>swap_handler := sw\<rparr>)"

abbreviation router_steps ::
  "(string \<Rightarrow> go_error + Router_Route) \<Rightarrow> (lambda_backend mux_route list \<Rightarrow> string \<Rightarrow> nat option) \<Rightarrow>
   ((string, string) gomap \<Rightarrow> string list) \<Rightarrow> router_process \<Rightarrow> router_process \<Rightarrow> bool"
where
  "router_steps unmarshal mux_Get order \<equiv> (router_step unmarshal mux_Get order)\<^sup>*\<^sup>*"

subsection \<open>Properties\<close>

text \<open>A router of no routes: what the loop can make at all.\<close>

lemma GetRoutes_only_empty:
  assumes "routes_inv s" and "enumerates ks (nodes (routes s))"
  shows "GetRoutes ks s = Panic InterfaceConversion \<or> GetRoutes ks s = Ok []"
proof -
  have "wf_graph (routes s)" using assms(1) by (simp add: routes_inv_def graph_ok_def)
  then obtain L where "TopologicalSort (routes s) ks = collect_values (map NodePtr L) []"
    by (rule TopologicalSort_collects [OF _ assms(2)])
  then show ?thesis by (simp add: GetRoutes_def collect_pointers)
qed

lemma NewRouter_empty:
  "NewRouter mux_Get order (routerOpts ps \<lparr>Routes = []\<rparr>) = Ok \<lparr>rtr = [], provs = fold (\<lambda>(k, p). fmupd k p) ps fmempty, handlers = []\<rparr>"
  by (simp add: NewRouter_options parseProtoRouterConfig_def)

definition empty_router :: "lambda_backend router \<Rightarrow> bool" where
  "empty_router r \<longleftrightarrow> rtr r = [] \<and> handlers r = []"

definition no_checks :: "health \<Rightarrow> bool" where
  "no_checks h \<longleftrightarrow> feeder h = NoFeeder \<and> checks h = [] \<and> check_panic h = None"

lemma no_checks_stuck: "no_checks h \<Longrightarrow> \<not> health_step h h'"
  by (auto simp: no_checks_def elim: health_step.cases)

definition router_inv :: "router_process \<Rightarrow> bool" where
  "router_inv s \<longleftrightarrow>
     routes_inv (process_routes s) \<and> no_checks (process_health s)
     \<and> (\<forall>r. handler (swap_handler s) = Some r \<or> received_handler (swap_handler s) = Some r
            \<or> loop s = CheckingHealth r \<or> loop s = Swapping r \<longrightarrow> empty_router r)"

lemma router_inv_start: "router_inv (start_router interval parallelism)"
  by (simp add: router_inv_def start_router_def routes_inv_init NewSwapHandler_def no_checks_def NewHealth_def)

lemma router_inv_update:
  assumes "router_inv s" and "loop s = UpdateTaken" and "enumerates ks (nodes (routes (process_routes s)))"
  shows "router_inv (route_update mux_Get order ks s)"
  using GetRoutes_only_empty [OF _ assms(3)] assms(1,2)
  by (auto simp: router_inv_def route_update_def NewRouter_empty empty_router_def HealthCheckHandlers_def)

lemma router_inv_loop: "loop_step mux_Get order s t \<Longrightarrow> router_inv s \<Longrightarrow> router_inv t"
proof (induction rule: loop_step.induct)
  case (handle_update s ks)
  then show ?case by (simp add: router_inv_update)
next
  case (health_goroutine s h)
  then show ?case using no_checks_stuck by (auto simp: router_inv_def)
next
  case (swap_router s r sw)
  then show ?case by (auto simp: router_inv_def Swap_def split: if_splits)
next
  case (watch_swap s)
  then show ?case by (auto simp: router_inv_def watchSwap_store_def split: option.splits)
qed (auto simp: router_inv_def)

lemma router_inv_step: "router_step unmarshal mux_Get order s t \<Longrightarrow> router_inv s \<Longrightarrow> router_inv t"
proof (induction rule: router_step.induct)
  case (sync_reads s t)
  then show ?case by (auto simp: router_inv_def routes_inv_read)
next
  case (sync_builds s ks r rs)
  then show ?case using routes_inv_Build [of "process_routes s" ks] by (auto simp: router_inv_def)
next
  case (loop_moves s t)
  then show ?case by (rule router_inv_loop)
next
  case (close_handler s sw)
  then show ?case by (auto simp: router_inv_def swap_Close_def split: if_splits)
qed (auto simp: router_inv_def)

lemma router_inv_steps: "router_steps unmarshal mux_Get order s t \<Longrightarrow> router_inv s \<Longrightarrow> router_inv t"
  by (induction rule: rtranclp_induct) (auto intro: router_inv_step)

text \<open>
  The command \<^verbatim>\<open>router\<close> never serves a route. Whatever the Terraform states hold and however its
  goroutines interleave, every request finds no handler, which panics, or a router without a single
  route; and as soon as the routes state has a route, handling an update crashes the process.
\<close>

theorem router_never_serves_a_route:
  assumes "router_steps unmarshal mux_Get order (start_router interval parallelism) s"
  shows "(swap_ServeHTTP (swap_handler s) = Panic NilDereference
      \<or> (\<exists>r. swap_ServeHTTP (swap_handler s) = Ok r \<and> rtr r = []))
    \<and> (\<forall>ks. nodes (routes (process_routes s)) \<noteq> fmempty \<longrightarrow> enumerates ks (nodes (routes (process_routes s))) \<longrightarrow>
         loop (route_update mux_Get order ks s) = LoopCrashed InterfaceConversion)"
proof -
  have inv: "router_inv s" by (rule router_inv_steps [OF assms router_inv_start])
  then have "swap_ServeHTTP (swap_handler s) = Panic NilDereference
      \<or> (\<exists>r. swap_ServeHTTP (swap_handler s) = Ok r \<and> rtr r = [])"
    by (auto simp: router_inv_def swap_ServeHTTP_def empty_router_def split: option.split)
  moreover have "loop (route_update mux_Get order ks s) = LoopCrashed InterfaceConversion"
    if "nodes (routes (process_routes s)) \<noteq> fmempty" "enumerates ks (nodes (routes (process_routes s)))" for ks
  proof -
    note ks = that
    have "wf_graph (routes (process_routes s))" using inv by (simp add: router_inv_def routes_inv_def graph_ok_def)
    then obtain L where L: "TopologicalSort (routes (process_routes s)) ks = collect_values (map NodePtr L) []"
      "set L = fmdom' (nodes (routes (process_routes s)))"
      by (rule TopologicalSort_collects [OF _ ks(2)])
    with ks(1) no_nodes_iff [of "routes (process_routes s)"] have "L \<noteq> []" by auto
    with L(1) show ?thesis by (simp add: route_update_def GetRoutes_def collect_pointers)
  qed
  ultimately show ?thesis by blast
qed

text \<open>A run with the sample state, up to the update of its two routes.\<close>

definition sample_process :: "routes_state \<Rightarrow> builder_pc \<Rightarrow> loop_pc \<Rightarrow> router_process" where
  "sample_process rs b l = (start_router 0 4)\<lparr>process_routes := rs, builder := b, loop := l\<rparr>"

lemma sample_process_sel [simp]:
  "process_routes (sample_process rs b l) = rs" "builder (sample_process rs b l) = b" "loop (sample_process rs b l) = l"
  "swap_handler (sample_process rs b l) = NewSwapHandler" "process_crashed (sample_process rs b LoopSelecting) = False"
  "process_crashed (sample_process rs b UpdateTaken) = False"
  "(sample_process rs b l)\<lparr>process_routes := rs'\<rparr> = sample_process rs' b l"
  "(sample_process rs b l)\<lparr>process_routes := rs', builder := b'\<rparr> = sample_process rs' b' l"
  "(sample_process rs b l)\<lparr>builder := b', loop := l'\<rparr> = sample_process rs b' l'"
  "(sample_process rs b l)\<lparr>builder := b'\<rparr> = sample_process rs b' l"
  "(sample_process rs b l)\<lparr>loop := l'\<rparr> = sample_process rs b l'"
  by (simp_all add: sample_process_def start_router_def process_crashed_def)

lemma sample_start: "sample_process NewRoutesState BuilderIdle LoopSelecting = start_router 0 4"
  by (simp add: sample_process_def start_router_def)

lemma update_taken:
  assumes "enumerates ks (routesMap rs)" and "routes_Build ks rs = (Ok (), rs')"
  shows "router_steps unmarshal mux_Get order (sample_process rs BuilderIdle LoopSelecting)
    (sample_process rs' BuilderIdle UpdateTaken)"
proof -
  let ?step = "router_step unmarshal mux_Get order"
  have "?step (sample_process rs BuilderIdle LoopSelecting) (sample_process rs' BuilderSending LoopSelecting)"
    using sync_builds [of "sample_process rs BuilderIdle LoopSelecting" ks "Ok ()" rs' unmarshal mux_Get order] assms by simp
  moreover have "?step (sample_process rs' BuilderSending LoopSelecting) (sample_process rs' BuilderIdle UpdateTaken)"
    using loop_moves [OF take_update [of "sample_process rs' BuilderSending LoopSelecting" mux_Get order]] by simp
  ultimately show ?thesis by (meson converse_rtranclp_into_rtranclp rtranclp.rtrancl_refl)
qed

lemma sample_process_run:
  "router_steps sample_unmarshal mux_Get order (start_router 0 4) (sample_process sample_built BuilderIdle UpdateTaken)"
proof -
  have "snd (routes_ReadFromTfstate sample_unmarshal (Some (sample_tfstate [''root'', ''leaf''])) NewRoutesState) = sample_staged"
    by (simp add: routes_ReadFromTfstate_def sample_tfstate_def read_route_resource_def
        read_route_instance_def read_instance_def decode_document_def sample_unmarshal_def sample_staged_def)
  then have "router_step sample_unmarshal mux_Get order (sample_process NewRoutesState BuilderIdle LoopSelecting)
      (sample_process sample_staged BuilderIdle LoopSelecting)"
    using sync_reads [of "sample_process NewRoutesState BuilderIdle LoopSelecting" sample_unmarshal mux_Get order
        "Some (sample_tfstate [''root'', ''leaf''])"] by simp
  then have "router_step sample_unmarshal mux_Get order (start_router 0 4) (sample_process sample_staged BuilderIdle LoopSelecting)"
    by (simp only: sample_start)
  with update_taken [OF sample_staged_ok(2) sample_built_Ok, of sample_unmarshal mux_Get order]
  show ?thesis by (meson converse_rtranclp_into_rtranclp)
qed

lemma sample_built_nodes: "enumerates [''leaf'', ''root''] (nodes (routes sample_built))"
  by (auto simp: enumerates_def sample_built_def routes_of_Build sample_staged_map AddSingleNode_def NewGraph_def)

theorem router_never_serves_a_route_witness:
  "loop (route_update named_route (\<lambda>_. []) [''leaf'', ''root''] (sample_process sample_built BuilderIdle UpdateTaken))
   = LoopCrashed InterfaceConversion"
proof -
  have "nodes (routes sample_built) \<noteq> fmempty"
  proof
    assume "nodes (routes sample_built) = fmempty"
    with sample_built_nodes show False by simp
  qed
  with router_never_serves_a_route [OF sample_process_run, THEN conjunct2, rule_format, of "[''leaf'', ''root'']" "named_route" "\<lambda>_. []"]
    sample_built_nodes show ?thesis by (simp only: sample_process_sel simp_thms)
qed

text \<open>
  The command can lock itself up: \<open>Build\<close> holds the lock of the routes state while it sends its
  update, and the loop that would receive the update waits for that lock in \<open>GetRoutes\<close>. When the next
  \<open>Build\<close> gets the lock before the loop does, neither ever goes on: no state is read or built again,
  and the handler is never exchanged.
\<close>

theorem update_deadlock:
  assumes "router_steps unmarshal mux_Get order (start_router interval parallelism) s"
    and "loop s = UpdateTaken" and "builder s = BuilderSending" and "router_steps unmarshal mux_Get order s t"
  shows "loop t = UpdateTaken \<and> builder t = BuilderSending \<and> process_routes t = process_routes s
    \<and> received_handler (swap_handler t) \<in> {received_handler (swap_handler s), None}"
proof -
  have "router_inv s" by (rule router_inv_steps [OF assms(1) router_inv_start])
  from assms(4) have "router_inv t \<and> loop t = UpdateTaken \<and> builder t = BuilderSending \<and> process_routes t = process_routes s
    \<and> received_handler (swap_handler t) \<in> {received_handler (swap_handler s), None}"
  proof (induction rule: rtranclp_induct)
    case base
    with \<open>router_inv s\<close> assms(2,3) show ?case by simp
  next
    case (step t u)
    from step(3) router_inv_step [OF step(2)] have "router_inv u" by simp
    with step(2,3) show ?case
      by (cases rule: router_step.cases)
        (auto simp: watchSwap_store_def swap_Close_def router_inv_def no_checks_stuck elim!: loop_step.cases
          split: option.splits if_splits)
  qed
  then show ?thesis by simp
qed

lemma empty_Build: "routes_Build [] NewRoutesState = (Ok (), NewRoutesState\<lparr>updates_sent := 1\<rparr>)"
  by (simp add: routes_Build_def NewRoutesState_def)

lemma empty_enumerates: "enumerates [] (routesMap NewRoutesState)"
  by (simp add: NewRoutesState_def)

theorem update_deadlock_witness:
  "\<exists>s. router_steps sample_unmarshal named_route (\<lambda>_. []) (start_router 0 4) s
    \<and> (\<exists>t. router_step sample_unmarshal named_route (\<lambda>_. []) s t \<and> loop t = UpdateTaken \<and> builder t = BuilderSending)"
proof -
  let ?rs = "NewRoutesState\<lparr>updates_sent := 1\<rparr>"
  have "router_steps sample_unmarshal named_route (\<lambda>_. []) (start_router 0 4) (sample_process ?rs BuilderIdle UpdateTaken)"
    using update_taken [OF empty_enumerates empty_Build] by (simp only: sample_start)
  moreover have "router_step sample_unmarshal named_route (\<lambda>_. []) (sample_process ?rs BuilderIdle UpdateTaken)
      (sample_process (snd (routes_Build [] ?rs)) BuilderSending UpdateTaken)"
    using sync_builds [of "sample_process ?rs BuilderIdle UpdateTaken" "[]" "Ok ()" "snd (routes_Build [] ?rs)"
        sample_unmarshal named_route "\<lambda>_. []"]
    by (simp add: NewRoutesState_def routes_Build_def)
  ultimately have start: "router_steps sample_unmarshal named_route (\<lambda>_. []) (start_router 0 4)
      (sample_process (snd (routes_Build [] ?rs)) BuilderSending UpdateTaken)" by (rule rtranclp.rtrancl_into_rtrancl)
  obtain t where t: "router_step sample_unmarshal named_route (\<lambda>_. [])
      (sample_process (snd (routes_Build [] ?rs)) BuilderSending UpdateTaken) t"
    using loop_moves [OF watch_swap [of "sample_process (snd (routes_Build [] ?rs)) BuilderSending UpdateTaken"
        named_route "\<lambda>_. []"], of sample_unmarshal] by auto
  have "loop t = UpdateTaken \<and> builder t = BuilderSending"
    using update_deadlock [OF start _ _ r_into_rtranclp, OF _ _ t] by simp
  with start t show ?thesis by blast
qed

end
