(* ===== verification/Router_Process.thy ===== *)
theory Router_Process
  imports Router_Command Cmd_Main
begin

section \<open>Whole runs of the command \<^verbatim>\<open>router\<close>\<close>

text \<open>
  \<open>router start\<close> from its flags on: the state manager with the S3 source and the routes state, the loop
  of \<open>RunE\<close>, the swap handler, the health checks and the wait of the command, in one process. The
  process refines \<open>router_step\<close>, the view of the loop, so what holds there holds for the command.
\<close>

record router_run =
  run_sync :: "(s3_source, routes_state) sync_state"
  run_builder :: builder_pc
  run_health :: health
  run_swap :: "lambda_backend router swapHandler"
  run_loop :: loop_pc
  run_life :: command_life

text \<open>\<open>RunE\<close> starts the state manager and the loop, which uses the one backend provider.\<close>

definition start_run :: "('l, 'cfg, lambda_backend router) router_command \<Rightarrow> router_run" where
  "start_run c =
     \<lparr>run_sync = router_manager c, run_builder = BuilderIdle, run_health = hd (router_providers c),
      run_swap = router_swap c, run_loop = LoopSelecting, run_life = Execute\<rparr>"

definition run_routes :: "router_run \<Rightarrow> routes_state" where
  "run_routes p = mgr (managers (run_sync p) ! 0)"

definition loop_view :: "router_run \<Rightarrow> router_process" where
  "loop_view p =
     \<lparr>process_routes = run_routes p, builder = run_builder p, process_health = run_health p,
      swap_handler = run_swap p, loop = run_loop p\<rparr>"

definition loop_result :: "router_process \<Rightarrow> router_run \<Rightarrow> router_run" where
  "loop_result v p = p\<lparr>run_builder := builder v, run_health := process_health v, run_swap := swap_handler v, run_loop := loop v\<rparr>"

text \<open>The process runs until a goroutine panics or the main goroutine returns.\<close>

definition run_alive :: "router_run \<Rightarrow> bool" where
  "run_alive p \<longleftrightarrow> (\<forall>q. phase (run_sync p) \<noteq> Crashed q) \<and> (\<forall>q. run_loop p \<noteq> LoopCrashed q)
     \<and> main (run_life p) \<noteq> MainReturned"

inductive run_step ::
  "(string \<Rightarrow> go_error + Router_Route) \<Rightarrow> (lambda_backend mux_route list \<Rightarrow> string \<Rightarrow> nat option) \<Rightarrow>
   ((string, string) gomap \<Rightarrow> string list) \<Rightarrow> router_run \<Rightarrow> router_run \<Rightarrow> bool"
  for um mux_Get order
where
  run_sync_moves: "run_alive p \<Longrightarrow> run_builder p = BuilderIdle \<Longrightarrow>
     sync_step (GetTfstate (factory_client sts) unmarshal pages ks) (routes_ReadFromTfstate um)
       (\<lambda>ks s. enumerates ks (routesMap s)) routes_Build (run_sync p) s \<Longrightarrow>
     received s = received (run_sync p) \<Longrightarrow>
     (phase (run_sync p) = Selecting \<longrightarrow> phase s = Fetching \<or> phase s = SyncSending Canceled \<and> ctx_cancelled (run_life p)) \<Longrightarrow>
     run_step um mux_Get order p (p\<lparr>run_sync := s,
       run_builder := (if updates_sent (mgr (managers s ! 0)) \<noteq> updates_sent (run_routes p) then BuilderSending else BuilderIdle)\<rparr>)"
| run_sync_reports: "run_alive p \<Longrightarrow> run_builder p = BuilderIdle \<Longrightarrow> run_loop p = LoopSelecting \<Longrightarrow>
     sync_step (GetTfstate (factory_client sts) unmarshal pages ks) (routes_ReadFromTfstate um)
       (\<lambda>ks s. enumerates ks (routesMap s)) routes_Build (run_sync p) s \<Longrightarrow>
     received s \<noteq> received (run_sync p) \<Longrightarrow>
     run_step um mux_Get order p (p\<lparr>run_sync := s, run_loop := SendingKill\<rparr>)"
| run_loop_moves: "run_alive p \<Longrightarrow> loop_step mux_Get order (loop_view p) v \<Longrightarrow>
     run_step um mux_Get order p (loop_result v p)"
| run_loop_context: "run_alive p \<Longrightarrow> run_loop p = LoopSelecting \<Longrightarrow> ctx_cancelled (run_life p) \<Longrightarrow>
     run_step um mux_Get order p (p\<lparr>run_loop := LoopReturned\<rparr>)"
| run_loop_kills: "run_alive p \<Longrightarrow> run_loop p = SendingKill \<Longrightarrow> watcher (run_life p) = WatcherSelecting \<Longrightarrow>
     run_step um mux_Get order p (p\<lparr>run_loop := LoopReturned, run_life := signalled (run_life p)\<rparr>)"
| run_closes: "run_alive p \<Longrightarrow> main (run_life p) = RunningPost \<Longrightarrow> swap_Close (run_swap p) = (Ok (), sw) \<Longrightarrow>
     run_step um mux_Get order p (p\<lparr>run_swap := sw\<rparr>)"
| run_life_moves: "run_alive p \<Longrightarrow> life_step (run_life p) l \<Longrightarrow>
     run_step um mux_Get order p (p\<lparr>run_life := l\<rparr>)"

abbreviation run_steps ::
  "(string \<Rightarrow> go_error + Router_Route) \<Rightarrow> (lambda_backend mux_route list \<Rightarrow> string \<Rightarrow> nat option) \<Rightarrow>
   ((string, string) gomap \<Rightarrow> string list) \<Rightarrow> router_run \<Rightarrow> router_run \<Rightarrow> bool"
where
  "run_steps um mux_Get order \<equiv> (run_step um mux_Get order)\<^sup>*\<^sup>*"

subsection \<open>The refinement\<close>

lemma loop_keeps_routes: "loop_step mux_Get order s t \<Longrightarrow> process_routes t = process_routes s"
  by (induction rule: loop_step.induct) (auto simp: route_update_def split: outcome.split)

lemma loop_view_result: "process_routes v = run_routes p \<Longrightarrow> loop_view (loop_result v p) = v"
  by (simp add: loop_view_def loop_result_def run_routes_def)

lemma view_not_crashed: "run_alive p \<Longrightarrow> \<not> process_crashed (loop_view p)"
  by (auto simp: run_alive_def process_crashed_def loop_view_def split: loop_pc.split)

lemma Build_updates:
  "routes_Build ks s = (Ok (), s') \<Longrightarrow> updates_sent s' = Suc (updates_sent s)"
  "routes_Build ks s = (Err e, s') \<Longrightarrow> updates_sent s' = updates_sent s"
  by (auto simp: routes_Build_def split: prod.splits option.splits)

text \<open>A step of the synchronisation is no step of the view, or one that reads or builds.\<close>

lemma sync_refines:
  assumes "run_alive p" and "run_builder p = BuilderIdle" and "length (managers (run_sync p)) = 1"
    and step: "sync_step get (routes_ReadFromTfstate um) (\<lambda>ks s. enumerates ks (routesMap s)) routes_Build (run_sync p) s"
  defines "q \<equiv> p\<lparr>run_sync := s,
       run_builder := (if updates_sent (mgr (managers s ! 0)) \<noteq> updates_sent (run_routes p) then BuilderSending else BuilderIdle)\<rparr>"
  shows "length (managers s) = 1 \<and> router_steps um mux_Get order (loop_view p) (loop_view q)"
proof -
  let ?m' = "mgr (managers s ! 0)"
  have alive: "\<not> process_crashed (loop_view p)" by (rule view_not_crashed [OF assms(1)])
  have idle: "builder (loop_view p) = BuilderIdle" using assms(2) by (simp add: loop_view_def)
  consider (same) "?m' = run_routes p"
    | (read) tf where "?m' = snd (routes_ReadFromTfstate um tf (run_routes p))"
    | (build) ks r where "enumerates ks (routesMap (run_routes p))" "routes_Build ks (run_routes p) = (r, ?m')"
        "r = Ok () \<or> (\<exists>e. r = Err e)"
    using sync_step_single [OF step assms(3)] unfolding run_routes_def by blast
  then have "router_steps um mux_Get order (loop_view p) (loop_view q)"
  proof cases
    case same
    then have "loop_view q = loop_view p" using assms(2) by (simp add: q_def loop_view_def run_routes_def)
    then show ?thesis by simp
  next
    case (read tf)
    then have "loop_view q = (loop_view p)\<lparr>process_routes := snd (routes_ReadFromTfstate um tf (process_routes (loop_view p)))\<rparr>"
      using assms(2) by (simp add: q_def loop_view_def run_routes_def routes_read_frame)
    with sync_reads [OF alive idle, of um mux_Get order tf] show ?thesis by simp
  next
    case (build ks r)
    then have "updates_sent ?m' \<noteq> updates_sent (run_routes p) \<longleftrightarrow> r = Ok ()"
      using Build_updates by fastforce
    then have "loop_view q = (loop_view p)\<lparr>process_routes := ?m', builder := (if r = Ok () then BuilderSending else BuilderIdle)\<rparr>"
      by (simp add: q_def loop_view_def run_routes_def)
    moreover have "process_routes (loop_view p) = run_routes p" by (simp add: loop_view_def)
    ultimately show ?thesis using sync_builds [OF alive idle, of ks r ?m' um mux_Get order] build by auto
  qed
  with sync_step_single [OF step assms(3)] show ?thesis by simp
qed

lemma run_refines:
  assumes "run_step um mux_Get order p q" and "length (managers (run_sync p)) = 1"
  shows "length (managers (run_sync q)) = 1 \<and> router_steps um mux_Get order (loop_view p) (loop_view q)"
  using assms
proof (cases rule: run_step.cases)
  case (run_sync_moves sts unmarshal pages ks s)
  then show ?thesis using sync_refines [OF run_sync_moves(2,3) assms(2) run_sync_moves(4), of mux_Get order] by simp
next
  case (run_sync_reports sts unmarshal pages ks s)
  from sync_step_received [OF run_sync_reports(5) assms(2) run_sync_reports(6)] have "mgr (managers s ! 0) = run_routes p"
    by (simp add: run_routes_def)
  then have "loop_view q = (loop_view p)\<lparr>loop := SendingKill\<rparr>"
    using run_sync_reports(1) by (simp add: loop_view_def run_routes_def)
  then show ?thesis
    using sync_error [of "loop_view p" um mux_Get order] sync_step_single [OF run_sync_reports(5) assms(2)] run_sync_reports
    by (simp add: loop_view_def)
next
  case (run_loop_moves v)
  from loop_keeps_routes [OF run_loop_moves(3)] have "loop_view q = v"
    unfolding run_loop_moves(1) by (intro loop_view_result) (simp add: loop_view_def)
  then show ?thesis using loop_moves [OF run_loop_moves(3), of um] assms(2) run_loop_moves(1)
    by (simp add: loop_result_def)
next
  case run_loop_context
  then show ?thesis using context_done [of "loop_view p" um mux_Get order] assms(2)
    by (simp add: loop_view_def run_routes_def)
next
  case run_loop_kills
  then show ?thesis using kill_taken [of "loop_view p" um mux_Get order] assms(2)
    by (simp add: loop_view_def run_routes_def)
next
  case (run_closes sw)
  then show ?thesis using close_handler [OF view_not_crashed [OF run_closes(2)], of sw um mux_Get order] assms(2)
    by (simp add: loop_view_def run_routes_def)
next
  case (run_life_moves l)
  then show ?thesis using assms(2) by (simp add: loop_view_def run_routes_def)
qed

lemma runs_refine:
  assumes "run_steps um mux_Get order p q" and "length (managers (run_sync p)) = 1"
  shows "length (managers (run_sync q)) = 1 \<and> router_steps um mux_Get order (loop_view p) (loop_view q)"
  using assms
proof (induction rule: rtranclp_induct)
  case (step q r)
  then show ?case using run_refines [OF step(2)] by (meson rtranclp_trans)
qed simp

lemma start_refines:
  assumes "router_PersistentPreRunE start f = Ok c"
  shows "length (managers (run_sync (start_run c))) = 1
    \<and> loop_view (start_run c) = start_router (flag_healthCheckInterval f) (nat (flag_healthCheckParallelism f))"
proof -
  from assms obtain g where g: "PersistentPreRunE start f = (Ok (), g)"
    and c: "router_swap c = NewSwapHandler" "router_manager c = NewStateManager (global_source g) [NewRoutesState]"
      "router_providers c = backendProviders g"
    by (auto simp: router_PersistentPreRunE_def command_manager_eq split: prod.splits outcome.splits)
  with PersistentPreRunE_providers [OF g] show ?thesis
    by (simp add: start_run_def loop_view_def run_routes_def start_router_def NewStateManager_def)
qed

lemma command_refines:
  assumes "router_PersistentPreRunE start f = Ok c" and "run_steps um mux_Get order (start_run c) p"
  shows "router_steps um mux_Get order
    (start_router (flag_healthCheckInterval f) (nat (flag_healthCheckParallelism f))) (loop_view p)"
  using runs_refine [OF assms(2)] start_refines [OF assms(1)] by auto

subsection \<open>Properties\<close>

text \<open>The states of the witnesses: the source and the manager as given, everything else as at the start.\<close>

definition sync_at ::
  "phase \<Rightarrow> s3_source \<Rightarrow> status \<Rightarrow> routes_state \<Rightarrow> nat \<Rightarrow> nat \<Rightarrow> (s3_source, routes_state) sync_state"
where
  "sync_at ph src st m n r = \<lparr>phase = ph, tfstateSource = Some src, managers = [\<lparr>status = st, mgr = m\<rparr>],
     wg = n, received = [], rounds = r\<rparr>"

definition run_at :: "(s3_source, routes_state) sync_state \<Rightarrow> builder_pc \<Rightarrow> loop_pc \<Rightarrow> router_run" where
  "run_at s b l = \<lparr>run_sync = s, run_builder = b, run_health = NewHealth 0 4, run_swap = NewSwapHandler,
     run_loop = l, run_life = Execute\<rparr>"

lemma run_at_moves:
  assumes "sync_step (GetTfstate (factory_client sts) unmarshal pages ks) (routes_ReadFromTfstate um)
      (\<lambda>ks s. enumerates ks (routesMap s)) routes_Build (sync_at ph src st m n r) (sync_at ph' src' st' m' n' r')"
    and "ph = Selecting \<longrightarrow> ph' = Fetching" and "\<forall>q. ph \<noteq> Crashed q" and "\<forall>q. l \<noteq> LoopCrashed q"
  shows "run_step um mux_Get order (run_at (sync_at ph src st m n r) BuilderIdle l)
    (run_at (sync_at ph' src' st' m' n' r') (if updates_sent m' \<noteq> updates_sent m then BuilderSending else BuilderIdle) l)"
  using run_sync_moves [of "run_at (sync_at ph src st m n r) BuilderIdle l" sts unmarshal pages ks um
      "sync_at ph' src' st' m' n' r'" mux_Get order] assms
  by (simp add: run_at_def sync_at_def run_alive_def Execute_def run_routes_def)

lemma run_at_reads:
  assumes "for_each (routes_ReadFromTfstate um) ts m = (Ok (), m1)" and "\<forall>q. l \<noteq> LoopCrashed q"
  shows "run_steps um mux_Get order (run_at (sync_at (Spawning tfs 1) src (Reading ts) m 1 r) BuilderIdle l)
    (run_at (sync_at (Spawning tfs 1) src (Reading []) m1 1 r) BuilderIdle l)"
  using assms(1)
proof (induction ts arbitrary: m)
  case (Cons t ts)
  then obtain m' where read: "routes_ReadFromTfstate um t m = (Ok (), m')"
    and rest: "for_each (routes_ReadFromTfstate um) ts m' = (Ok (), m1)"
    by (auto simp: and_then_Ok_iff)
  have "sync_step (GetTfstate (factory_client sts) unmarshal pages ks) (routes_ReadFromTfstate um) (\<lambda>ks s. enumerates ks (routesMap s))
      routes_Build (sync_at (Spawning tfs 1) src (Reading (t # ts)) m 1 r) (sync_at (Spawning tfs 1) src (Reading ts) m' 1 r)"
    for sts unmarshal pages ks
    using sync_step.read_ok [of "sync_at (Spawning tfs 1) src (Reading (t # ts)) m 1 r" 0 t ts m "routes_ReadFromTfstate um" m'] read
    by (simp add: sync_at_def)
  from run_at_moves [OF this _ _ assms(2), of mux_Get order] routes_read_frame(2) [of um t m] read
  have "run_step um mux_Get order (run_at (sync_at (Spawning tfs 1) src (Reading (t # ts)) m 1 r) BuilderIdle l)
      (run_at (sync_at (Spawning tfs 1) src (Reading ts) m' 1 r) BuilderIdle l)" by simp
  then show ?case using Cons.IH [OF rest] by (rule converse_rtranclp_into_rtranclp)
qed simp

text \<open>From a fetch to the send of the update, and from the update to the next fetch.\<close>

lemma run_at_update:
  assumes get: "GetTfstate (factory_client sts) unmarshal pages ks src = (Ok tfs, src')" and l: "\<forall>q. l \<noteq> LoopCrashed q"
    and reads: "for_each (routes_ReadFromTfstate um) tfs m = (Ok (), m1)" and ord: "enumerates ord (routesMap m1)"
    and build: "routes_Build ord m1 = (Ok (), m2)"
  shows "run_steps um mux_Get order (run_at (sync_at Fetching src st m 0 r) BuilderIdle l)
    (run_at (sync_at (Spawning tfs 1) src' Done m2 0 r) BuilderSending l)"
proof -
  let ?steps = "run_steps um mux_Get order"
  note steps = sync_step.intros [where get = "GetTfstate (factory_client sts) unmarshal pages ks" and read = "routes_ReadFromTfstate um"
      and order_ok = "\<lambda>ks s. enumerates ks (routesMap s)" and build = routes_Build]
  have "sync_step (GetTfstate (factory_client sts) unmarshal pages ks) (routes_ReadFromTfstate um) (\<lambda>ks s. enumerates ks (routesMap s))
      routes_Build (sync_at Fetching src st m 0 r) (sync_at (Spawning tfs 0) src' st m 0 r)"
    using steps(2) [OF _ _ get, of "sync_at Fetching src st m 0 r"] by (simp add: sync_at_def)
  from run_at_moves [OF this _ _ l, of mux_Get order]
  have "?steps (run_at (sync_at Fetching src st m 0 r) BuilderIdle l) (run_at (sync_at (Spawning tfs 0) src' st m 0 r) BuilderIdle l)"
    by (simp add: r_into_rtranclp)
  also have "sync_step (GetTfstate (factory_client sts) unmarshal pages ks) (routes_ReadFromTfstate um) (\<lambda>ks s. enumerates ks (routesMap s))
      routes_Build (sync_at (Spawning tfs 0) src' st m 0 r) (sync_at (Spawning tfs 1) src' (Reading tfs) m 1 r)"
    using steps(5) [of "sync_at (Spawning tfs 0) src' st m 0 r" tfs 0] by (simp add: sync_at_def)
  from run_at_moves [OF this _ _ l, of mux_Get order]
  have "?steps (run_at (sync_at (Spawning tfs 0) src' st m 0 r) BuilderIdle l)
      (run_at (sync_at (Spawning tfs 1) src' (Reading tfs) m 1 r) BuilderIdle l)"
    by (simp add: r_into_rtranclp)
  also note run_at_reads [OF reads l]
  also have "sync_step (GetTfstate (factory_client sts) unmarshal pages ks) (routes_ReadFromTfstate um) (\<lambda>ks s. enumerates ks (routesMap s))
      routes_Build (sync_at (Spawning tfs 1) src' (Reading []) m1 1 r) (sync_at (Spawning tfs 1) src' Done m2 0 r)"
    using steps(10) [OF _ _ _ ord build, of "sync_at (Spawning tfs 1) src' (Reading []) m1 1 r" 0] by (simp add: sync_at_def)
  from run_at_moves [OF this _ _ l, of mux_Get order] Build_updates(1) [OF build]
  have "?steps (run_at (sync_at (Spawning tfs 1) src' (Reading []) m1 1 r) BuilderIdle l)
      (run_at (sync_at (Spawning tfs 1) src' Done m2 0 r) BuilderSending l)"
    by (simp add: r_into_rtranclp)
  finally show ?thesis .
qed

lemma run_at_taken:
  assumes "\<forall>q. ph \<noteq> Crashed q"
  shows "run_steps um mux_Get order (run_at (sync_at ph src st m n r) BuilderSending LoopSelecting)
    (run_at (sync_at ph src st m n r) BuilderIdle UpdateTaken)"
proof -
  let ?p = "run_at (sync_at ph src st m n r) BuilderSending LoopSelecting"
  have "loop_step mux_Get order (loop_view ?p) ((loop_view ?p)\<lparr>builder := BuilderIdle, loop := UpdateTaken\<rparr>)"
    by (rule take_update) (simp_all add: loop_view_def run_at_def)
  from run_loop_moves [OF _ this, of um] assms show ?thesis
    by (simp add: loop_result_def loop_view_def run_at_def run_alive_def sync_at_def Execute_def r_into_rtranclp)
qed

lemma run_at_next_round:
  assumes l: "\<forall>q. l \<noteq> LoopCrashed q"
  shows "run_steps um mux_Get order (run_at (sync_at (Spawning tfs 1) src st m 0 r) BuilderIdle l)
    (run_at (sync_at Fetching src st m 0 (Suc r)) BuilderIdle l)"
proof -
  let ?steps = "run_steps um mux_Get order"
  let ?get = "GetTfstate (factory_client sample_sts) (\<lambda>_. Inl EOF) [] []"
  note steps = sync_step.intros [where get = ?get and read = "routes_ReadFromTfstate um"
      and order_ok = "\<lambda>ks s. enumerates ks (routesMap s)" and build = routes_Build]
  have "sync_step ?get (routes_ReadFromTfstate um) (\<lambda>ks s. enumerates ks (routesMap s)) routes_Build
      (sync_at (Spawning tfs 1) src st m 0 r) (sync_at Waiting src st m 0 r)"
    using steps(6) [of "sync_at (Spawning tfs 1) src st m 0 r" tfs 1] by (simp add: sync_at_def)
  from run_at_moves [OF this _ _ l, of mux_Get order]
  have "?steps (run_at (sync_at (Spawning tfs 1) src st m 0 r) BuilderIdle l) (run_at (sync_at Waiting src st m 0 r) BuilderIdle l)"
    by (simp add: r_into_rtranclp)
  also have "sync_step ?get (routes_ReadFromTfstate um) (\<lambda>ks s. enumerates ks (routesMap s)) routes_Build
      (sync_at Waiting src st m 0 r) (sync_at Selecting src st m 0 (Suc r))"
    using steps(14) [of "sync_at Waiting src st m 0 r"] by (simp add: sync_at_def)
  from run_at_moves [OF this _ _ l, of mux_Get order]
  have "?steps (run_at (sync_at Waiting src st m 0 r) BuilderIdle l) (run_at (sync_at Selecting src st m 0 (Suc r)) BuilderIdle l)"
    by (simp add: r_into_rtranclp)
  also have "sync_step ?get (routes_ReadFromTfstate um) (\<lambda>ks s. enumerates ks (routesMap s)) routes_Build
      (sync_at Selecting src st m 0 (Suc r)) (sync_at Fetching src st m 0 (Suc r))"
    using steps(16) [of "sync_at Selecting src st m 0 (Suc r)"] by (simp add: sync_at_def)
  from run_at_moves [OF this _ _ l, of mux_Get order]
  have "?steps (run_at (sync_at Selecting src st m 0 (Suc r)) BuilderIdle l) (run_at (sync_at Fetching src st m 0 (Suc r)) BuilderIdle l)"
    by (simp add: r_into_rtranclp)
  finally show ?thesis .
qed

lemma plain_start:
  assumes "b \<noteq> []"
  shows "\<exists>c :: (nat, nat, lambda_backend router) router_command. router_PersistentPreRunE sample_start (plain_flags b) = Ok c
    \<and> start_run c = run_at (sync_at Fetching (NewTfstateSource GetS3Client b) Idle NewRoutesState 0 0) BuilderIdle LoopSelecting"
  using assms by (simp add: router_PersistentPreRunE_def pre_run_defs NewProvider_def sample_start_def plain_flags_def
      initial_globals_def source_factory_def command_manager_eq NewStateManager_def start_run_def run_at_def sync_at_def)

text \<open>
  C5. The command \<^verbatim>\<open>router\<close> never serves a route. In every run from its flags on, whatever S3 and the
  Terraform states hold and however the goroutines interleave, a request finds no handler, which
  panics, or a router without a single route. And once the loop has taken an update and the routes
  state has a route, it can do nothing but crash the process, and it can do that.
\<close>

theorem router_serves_no_route:
  assumes "router_PersistentPreRunE start f = Ok c" and "run_steps um mux_Get order (start_run c) p"
  shows "(swap_ServeHTTP (run_swap p) = Panic NilDereference
      \<or> (\<exists>r. swap_ServeHTTP (run_swap p) = Ok r \<and> rtr r = []))
    \<and> (run_alive p \<longrightarrow> run_loop p = UpdateTaken \<longrightarrow> run_builder p = BuilderIdle \<longrightarrow> nodes (routes (run_routes p)) \<noteq> fmempty \<longrightarrow>
         (\<exists>q. run_step um mux_Get order p q \<and> run_loop q = LoopCrashed InterfaceConversion)
         \<and> (\<forall>q. run_step um mux_Get order p q \<longrightarrow> run_loop q = UpdateTaken \<or> run_loop q = LoopCrashed InterfaceConversion))"
proof -
  note refined = command_refines [OF assms]
  note served = router_never_serves_a_route [OF refined]
  have view: "swap_handler (loop_view p) = run_swap p" "process_routes (loop_view p) = run_routes p"
    "loop (loop_view p) = run_loop p" "builder (loop_view p) = run_builder p" by (simp_all add: loop_view_def)
  have inv: "router_inv (loop_view p)" by (rule router_inv_steps [OF refined router_inv_start])
  show ?thesis
  proof (intro conjI impI)
    show "swap_ServeHTTP (run_swap p) = Panic NilDereference \<or> (\<exists>r. swap_ServeHTTP (run_swap p) = Ok r \<and> rtr r = [])"
      using served view by auto
  next
    assume alive: "run_alive p" and at: "run_loop p = UpdateTaken" "run_builder p = BuilderIdle" "nodes (routes (run_routes p)) \<noteq> fmempty"
    then have crash: "loop (route_update mux_Get order ks (loop_view p)) = LoopCrashed InterfaceConversion"
      if "enumerates ks (nodes (routes (run_routes p)))" for ks
      using served that view by auto
    obtain ks where ks: "enumerates ks (nodes (routes (run_routes p)))" using enumerates_exists by blast
    from handle_update [of "loop_view p" ks mux_Get order] at ks view
    have "loop_step mux_Get order (loop_view p) (route_update mux_Get order ks (loop_view p))" by simp
    from run_loop_moves [OF alive this, of um] crash [OF ks]
    show "\<exists>q. run_step um mux_Get order p q \<and> run_loop q = LoopCrashed InterfaceConversion"
      by (auto simp: loop_result_def)
    have stays: "loop v = UpdateTaken \<or> loop v = LoopCrashed InterfaceConversion" if "loop_step mux_Get order (loop_view p) v" for v
      using that
    proof (cases rule: loop_step.cases)
      case (handle_update ks)
      with crash view show ?thesis by simp
    next
      case (health_goroutine h)
      with inv no_checks_stuck show ?thesis by (auto simp: router_inv_def)
    qed (use at view in auto)
    show "\<forall>q. run_step um mux_Get order p q \<longrightarrow> run_loop q = UpdateTaken \<or> run_loop q = LoopCrashed InterfaceConversion"
    proof (intro allI impI)
      fix q assume "run_step um mux_Get order p q"
      then show "run_loop q = UpdateTaken \<or> run_loop q = LoopCrashed InterfaceConversion"
      proof (cases rule: run_step.cases)
        case (run_loop_moves v)
        with stays [OF run_loop_moves(3)] show ?thesis by (simp add: loop_result_def)
      qed (use at in auto)
    qed
  qed
qed

theorem router_serves_no_route_witness:
  "\<exists>c p q. router_PersistentPreRunE sample_start (plain_flags ''b.tfstate'') = Ok (c :: (nat, nat, lambda_backend router) router_command)
     \<and> run_steps sample_unmarshal named_route (\<lambda>_. []) (start_run c) p
     \<and> run_step sample_unmarshal named_route (\<lambda>_. []) p q \<and> run_loop q = LoopCrashed InterfaceConversion"
proof -
  let ?docs = "sample_tfstate [''root'', ''leaf'']"
  let ?steps = "run_steps sample_unmarshal named_route (\<lambda>_. [])"
  obtain c :: "(nat, nat, lambda_backend router) router_command"
    where c: "router_PersistentPreRunE sample_start (plain_flags ''b.tfstate'') = Ok c"
      "start_run c = run_at (sync_at Fetching (NewTfstateSource GetS3Client ''b.tfstate'') Idle NewRoutesState 0 0) BuilderIdle LoopSelecting"
    using plain_start [of "''b.tfstate''"] by auto
  obtain src where get: "GetTfstate (factory_client sample_sts) (\<lambda>_. Inr ?docs) [sample_page ''v1''] [] (NewTfstateSource GetS3Client ''b.tfstate'') = (Ok [Some ?docs], src)"
    by (simp add: GetTfstate_def NewTfstateSource_def scan_page_def sample_page_def HasSuffix_def
        fetch_object_def record_object_def Let_def)
  have reads: "for_each (routes_ReadFromTfstate sample_unmarshal) [Some ?docs] NewRoutesState = (Ok (), sample_staged)"
    by (simp add: routes_ReadFromTfstate_def sample_tfstate_def read_route_resource_def
        read_route_instance_def read_instance_def decode_document_def sample_unmarshal_def sample_staged_def)
  let ?p = "run_at (sync_at (Spawning [Some ?docs] 1) src Done sample_built 0 0) BuilderIdle UpdateTaken"
  have run: "?steps (start_run c) ?p"
    unfolding c(2) using run_at_update [OF get _ reads sample_staged_ok(2) sample_built_Ok]
    by (rule rtranclp_trans) (simp_all add: run_at_taken)
  have "run_alive ?p" "run_loop ?p = UpdateTaken" "run_builder ?p = BuilderIdle" "run_routes ?p = sample_built"
    by (simp_all add: run_at_def run_alive_def sync_at_def Execute_def run_routes_def)
  moreover have "nodes (routes sample_built) \<noteq> fmempty" using sample_built_nodes by auto
  ultimately show ?thesis using router_serves_no_route [OF c(1) run] c(1) run by metis
qed

text \<open>
  C24. The command can lock itself up: \<open>Build\<close> holds the lock of the routes state while it sends its
  update, and the loop that would receive the update waits for that lock in \<open>GetRoutes\<close>. When the next
  \<open>Build\<close> gets the lock before the loop does, neither ever goes on: in every continuation of the run no
  state is fetched, read or built again, and the loop stays at its update, whatever is signalled.
\<close>

theorem router_locks_up:
  assumes "router_PersistentPreRunE start f = Ok c" and "run_steps um mux_Get order (start_run c) p"
    and "run_loop p = UpdateTaken" and "run_builder p = BuilderSending" and "run_steps um mux_Get order p q"
  shows "run_loop q = UpdateTaken \<and> run_builder q = BuilderSending \<and> run_sync q = run_sync p"
  using assms(5)
proof (induction rule: rtranclp_induct)
  case (step q r)
  have "run_steps um mux_Get order (start_run c) q" using assms(2) step(1) by (rule rtranclp_trans)
  from router_inv_steps [OF command_refines [OF assms(1) this] router_inv_start]
  have "\<not> health_step (run_health q) h" for h
    using no_checks_stuck by (auto simp: router_inv_def loop_view_def)
  with step(2,3) show ?case
    by (cases rule: run_step.cases) (auto simp: loop_result_def loop_view_def elim!: loop_step.cases)
qed (use assms(3,4) in simp)

lemma empty_rounds: "routes_Build [] (NewRoutesState\<lparr>updates_sent := n\<rparr>) = (Ok (), NewRoutesState\<lparr>updates_sent := Suc n\<rparr>)"
  by (simp add: routes_Build_def NewRoutesState_def)

theorem router_locks_up_witness:
  "\<exists>c p q. router_PersistentPreRunE sample_start (plain_flags ''states'') = Ok (c :: (nat, nat, lambda_backend router) router_command)
     \<and> run_steps sample_unmarshal named_route (\<lambda>_. []) (start_run c) p \<and> run_steps sample_unmarshal named_route (\<lambda>_. []) p q
     \<and> main (run_life q) = AtWait \<and> run_loop q = UpdateTaken \<and> run_builder q = BuilderSending \<and> run_sync q = run_sync p"
proof -
  let ?steps = "run_steps sample_unmarshal named_route (\<lambda>_. [])"
  let ?src = "NewTfstateSource GetS3Client ''states''"
  let ?rs = "\<lambda>n. NewRoutesState\<lparr>updates_sent := n\<rparr>"
  obtain c :: "(nat, nat, lambda_backend router) router_command"
    where c: "router_PersistentPreRunE sample_start (plain_flags ''states'') = Ok c"
      "start_run c = run_at (sync_at Fetching ?src Idle NewRoutesState 0 0) BuilderIdle LoopSelecting"
    using plain_start [of "''states''"] by auto
  have get: "GetTfstate (factory_client sample_sts) (\<lambda>_. Inl EOF) [] [] ?src = (Ok [], ?src)" by (simp add: GetTfstate_def NewTfstateSource_def)
  have first: "enumerates [] (routesMap NewRoutesState)" "routes_Build [] NewRoutesState = (Ok (), ?rs 1)"
    using empty_rounds [of 0] by (simp_all add: NewRoutesState_def)
  have none: "for_each (routes_ReadFromTfstate sample_unmarshal) [] m = (Ok (), m)" for m by simp
  have ord: "enumerates [] (routesMap (?rs n))" for n by (simp add: NewRoutesState_def)
  let ?p = "run_at (sync_at (Spawning [] 1) ?src Done (?rs (Suc 1)) 0 (Suc 0)) BuilderSending UpdateTaken"
  have one: "?steps (start_run c) (run_at (sync_at (Spawning [] 1) ?src Done (?rs 1) 0 0) BuilderSending LoopSelecting)"
    unfolding c(2) by (rule run_at_update [OF get _ none first]) simp
  have two: "?steps (run_at (sync_at (Spawning [] 1) ?src Done (?rs 1) 0 0) BuilderSending LoopSelecting)
      (run_at (sync_at (Spawning [] 1) ?src Done (?rs 1) 0 0) BuilderIdle UpdateTaken)"
    by (rule run_at_taken) simp
  have three: "?steps (run_at (sync_at (Spawning [] 1) ?src Done (?rs 1) 0 0) BuilderIdle UpdateTaken)
      (run_at (sync_at Fetching ?src Done (?rs 1) 0 (Suc 0)) BuilderIdle UpdateTaken)"
    by (rule run_at_next_round) simp
  have four: "?steps (run_at (sync_at Fetching ?src Done (?rs 1) 0 (Suc 0)) BuilderIdle UpdateTaken) ?p"
    by (rule run_at_update [OF get _ none ord empty_rounds]) simp
  have run: "?steps (start_run c) ?p"
    by (rule rtranclp_trans [OF one rtranclp_trans [OF two rtranclp_trans [OF three four]]])
  let ?q = "?p\<lparr>run_life := Execute\<lparr>main := AtWait\<rparr>\<rparr>"
  have "life_step (run_life ?p) (Execute\<lparr>main := AtWait\<rparr>)"
    using open_returns [of Execute] by (simp add: run_at_def Execute_def)
  from run_life_moves [OF _ this] have step: "?steps ?p ?q"
    by (simp add: run_at_def run_alive_def sync_at_def Execute_def r_into_rtranclp)
  have "run_loop ?p = UpdateTaken" "run_builder ?p = BuilderSending" by (simp_all add: run_at_def)
  from router_locks_up [OF c(1) run this step] c(1) run step show ?thesis
    by (intro exI [of _ c] exI [of _ ?p] exI [of _ ?q]) simp
qed

end
