(* ===== verification/Xds_Command.thy ===== *)
theory Xds_Command
  imports Cmd_Main
begin

section \<open>The command \<^verbatim>\<open>xds\<close> (\<^verbatim>\<open>cmd/xds.go\<close>)\<close>

text \<open>
  The goroutines of \<^verbatim>\<open>xds start\<close> run together: the state manager with its one manager, the xDS
  state; the loop that drains the updates of that state; service discovery, if namespaces are
  configured, with the goroutine that waits for its error; and the watcher and the main goroutine of
  \<open>Cmd_Main\<close>. Each moves by its own step relation. They share the xDS state, the two error channels,
  the update channel, the signal channel, which are all unbuffered, and the context.

  \<open>Build\<close> holds the lock of the state while it sends its update: \<open>update_pending\<close> says that it is at
  that send. Until the update is taken the synchronisation does not move, and \<open>flush\<close> waits for the lock.
\<close>

datatype drain_pc = Draining | KillPending | DrainOver

record ('m, 'c) xds_process =
  manager_state :: "(s3_source, ('m, LocalityLbEndpoints, unit, 'c) xds_state) sync_state"
  update_pending :: bool
  update_loop :: drain_pc
  discovery_goroutine :: "('m, 'c) discovery_state option"
  discovery_watch :: drain_pc
  life :: command_life

definition start_xds :: "('l, 'cfg, 'h, 'm, 'c) xds_command \<Rightarrow> ('m, 'c) xds_process" where
  "start_xds c =
     \<lparr>manager_state = xds_manager c, update_pending = False, update_loop = Draining,
      discovery_goroutine = xds_discovery c, discovery_watch = Draining, life = Execute\<rparr>"

definition shared_xds :: "('m, 'c) xds_process \<Rightarrow> ('m, LocalityLbEndpoints, unit, 'c) xds_state" where
  "shared_xds p = mgr (managers (manager_state p) ! 0)"

definition store_shared ::
  "('m, LocalityLbEndpoints, unit, 'c) xds_state \<Rightarrow> ('m, 'c) xds_process \<Rightarrow> ('m, 'c) xds_process"
where
  "store_shared xs p =
     p\<lparr>manager_state := set_worker 0 (status (managers (manager_state p) ! 0)) xs (manager_state p)\<rparr>"

lemma shared_discovery [simp]: "shared_xds (p\<lparr>discovery_goroutine := d\<rparr>) = shared_xds p"
  by (simp add: shared_xds_def)

lemma store_shared_same [simp]: "store_shared (shared_xds p) p = p"
proof -
  have same: "\<lparr>status = status (managers (manager_state p) ! 0), mgr = mgr (managers (manager_state p) ! 0)\<rparr>
    = managers (manager_state p) ! 0" by simp
  show ?thesis unfolding store_shared_def shared_xds_def same list_update_id by simp
qed

text \<open>The process runs until a goroutine panics or the main goroutine returns.\<close>

definition xds_alive :: "('m, 'c) xds_process \<Rightarrow> bool" where
  "xds_alive p \<longleftrightarrow> (\<forall>q. phase (manager_state p) \<noteq> Crashed q) \<and> main (life p) \<noteq> MainReturned"

text \<open>
  The steps. A goroutine that reports an error needs its receiver, and a kill needs the watcher at its
  select statement. The cases of the context are only taken when it is cancelled. \<open>listing\<close> says which
  pages S3 may return.
\<close>

inductive xds_step ::
  "('m, LocalityLbEndpoints, unit, 'c) xds_api \<Rightarrow> (s3_page list \<Rightarrow> bool) \<Rightarrow>
   ('m, 'c) xds_process \<Rightarrow> ('m, 'c) xds_process \<Rightarrow> bool"
  for api :: "('m, LocalityLbEndpoints, unit, 'c) xds_api" and listing :: "s3_page list \<Rightarrow> bool"
where
  sync_moves: "xds_alive p \<Longrightarrow> \<not> update_pending p \<Longrightarrow> listing pages \<Longrightarrow>
     sync_step (GetTfstate (factory_client sts) unmarshal pages ks) (xds_ReadFromTfstate api) xds_order_ok (xds_Build api)
       (manager_state p) s \<Longrightarrow>
     received s = received (manager_state p) \<Longrightarrow>
     (phase (manager_state p) = Selecting \<longrightarrow> phase s = Fetching \<or> phase s = SyncSending Canceled \<and> ctx_cancelled (life p)) \<Longrightarrow>
     xds_step api listing p (p\<lparr>manager_state := s,
       update_pending := (xds_updates_sent (mgr (managers s ! 0)) \<noteq> xds_updates_sent (shared_xds p))\<rparr>)"
| sync_reports: "xds_alive p \<Longrightarrow> \<not> update_pending p \<Longrightarrow> update_loop p = Draining \<Longrightarrow> listing pages \<Longrightarrow>
     sync_step (GetTfstate (factory_client sts) unmarshal pages ks) (xds_ReadFromTfstate api) xds_order_ok (xds_Build api)
       (manager_state p) s \<Longrightarrow>
     received s \<noteq> received (manager_state p) \<Longrightarrow>
     xds_step api listing p (p\<lparr>manager_state := s, update_loop := KillPending\<rparr>)"
| update_taken: "xds_alive p \<Longrightarrow> update_pending p \<Longrightarrow> update_loop p = Draining \<Longrightarrow>
     xds_step api listing p (p\<lparr>update_pending := False\<rparr>)"
| loop_context: "xds_alive p \<Longrightarrow> update_loop p = Draining \<Longrightarrow> ctx_cancelled (life p) \<Longrightarrow>
     xds_step api listing p (p\<lparr>update_loop := DrainOver\<rparr>)"
| loop_kills: "xds_alive p \<Longrightarrow> update_loop p = KillPending \<Longrightarrow> watcher (life p) = WatcherSelecting \<Longrightarrow>
     xds_step api listing p (p\<lparr>update_loop := DrainOver, life := signalled (life p)\<rparr>)"
| discovery_moves: "xds_alive p \<Longrightarrow> discovery_goroutine p = Some d \<Longrightarrow> (d_phase d = Flushing \<longrightarrow> \<not> update_pending p) \<Longrightarrow>
     discovery_step (d\<lparr>xdsState := shared_xds p\<rparr>) d' \<Longrightarrow> reported d' = reported d \<Longrightarrow>
     (d_phase d = Choosing \<longrightarrow> d_phase d' = Syncing \<or> d_phase d' = Reporting Canceled \<and> ctx_cancelled (life p)) \<Longrightarrow>
     xds_step api listing p (store_shared (xdsState d') (p\<lparr>discovery_goroutine := Some d'\<rparr>))"
| discovery_reports: "xds_alive p \<Longrightarrow> discovery_goroutine p = Some d \<Longrightarrow> discovery_watch p = Draining \<Longrightarrow>
     discovery_step (d\<lparr>xdsState := shared_xds p\<rparr>) d' \<Longrightarrow> reported d' \<noteq> reported d \<Longrightarrow>
     xds_step api listing p (p\<lparr>discovery_goroutine := Some d', discovery_watch := KillPending\<rparr>)"
| discovery_kills: "xds_alive p \<Longrightarrow> discovery_watch p = KillPending \<Longrightarrow> watcher (life p) = WatcherSelecting \<Longrightarrow>
     xds_step api listing p (p\<lparr>discovery_watch := DrainOver, life := signalled (life p)\<rparr>)"
| life_moves: "xds_alive p \<Longrightarrow> life_step (life p) l \<Longrightarrow> xds_step api listing p (p\<lparr>life := l\<rparr>)"

abbreviation xds_steps ::
  "('m, LocalityLbEndpoints, unit, 'c) xds_api \<Rightarrow> (s3_page list \<Rightarrow> bool) \<Rightarrow>
   ('m, 'c) xds_process \<Rightarrow> ('m, 'c) xds_process \<Rightarrow> bool"
where
  "xds_steps api listing \<equiv> (xds_step api listing)\<^sup>*\<^sup>*"

text \<open>\<open>RunE\<close> up to its wait, and \<open>PostRunE\<close>, of \<^verbatim>\<open>xds start\<close>; \<open>GracefulStop\<close> is a call of grpc.\<close>

definition xds_RunE ::
  "('l, 'cfg) server_env \<Rightarrow> ('l, 'cfg, 'h, 'm, 'c) xds_command \<Rightarrow> unit outcome \<times> ('l, 'cfg, 'h, 'm, 'c) xds_command"
where
  "xds_RunE env c = (let (r, s) = Open env (xds_server c) in (r, c\<lparr>xds_server := s\<rparr>))"

definition xds_PostRunE ::
  "('l, 'cfg) server_env \<Rightarrow> ('l, 'cfg, 'h, 'm, 'c) xds_command \<Rightarrow>
   (unit outcome \<times> ('l, 'cfg, 'h, 'm, 'c) xds_command) option"
where
  "xds_PostRunE env c = map_option (\<lambda>(r, s). (r, c\<lparr>xds_server := s\<rparr>)) (Close env (xds_server c))"

subsection \<open>The invariant\<close>

definition xds_inv ::
  "('c \<Rightarrow> (string, ('m, (LocalityLbEndpoints, unit) ClusterLoadAssignment) resource) gomap) \<Rightarrow>
   ('m, 'c) xds_process \<Rightarrow> bool"
where
  "xds_inv contents p \<longleftrightarrow>
     length (managers (manager_state p)) = 1 \<and> sync_inv (manager_state p)
     \<and> endpointsMap (shared_xds p) = fmempty
     \<and> (case discovery_goroutine p of None \<Rightarrow> True | Some d \<Rightarrow> clusterLoadAssignments (discovery d) = [])
     \<and> (failed (status (managers (manager_state p) ! 0)) \<or> mirrored contents (shared_xds p))
     \<and> (received (manager_state p) \<noteq> [] \<longrightarrow> \<not> update_pending p
          \<and> (phase (manager_state p) = Stopped \<or> failed (status (managers (manager_state p) ! 0))))
     \<and> (update_loop p = KillPending \<longrightarrow> received (manager_state p) \<noteq> [])
     \<and> (update_loop p = DrainOver \<longrightarrow> ctx_cancelled (life p))"

lemma xds_Build_frame: "endpointsMap (snd (xds_Build api ord s)) = endpointsMap s"
  unfolding xds_Build_def
  by (intro and_then_invariant [where P = "\<lambda>t. endpointsMap t = endpointsMap s"])
     (simp_all add: transact_clusters_def transact_assignments_def transact_listeners_def transact_virtual_hosts_def
       transact_route_configurations_def finish_build_def split_beta Let_def)

lemma life_step_cancelled: "life_step l l' \<Longrightarrow> ctx_cancelled l \<Longrightarrow> ctx_cancelled l'"
  by (induction rule: life_step.induct) simp_all

text \<open>The synchronisation step of the process, on the shared state.\<close>

lemma sync_step_xds:
  assumes step: "sync_step get (xds_ReadFromTfstate api) xds_order_ok (xds_Build api) s t"
    and "length (managers s) = 1" and cache: "linear_cache (UpdateResources api) contents"
    and "failed (status (managers s ! 0)) \<or> mirrored contents (mgr (managers s ! 0))" and inv: "sync_inv s"
  defines "xs \<equiv> mgr (managers s ! 0)" and "xs' \<equiv> mgr (managers t ! 0)"
  shows "length (managers t) = 1 \<and> sync_inv t \<and> endpointsMap xs' = endpointsMap xs
    \<and> (failed (status (managers t ! 0)) \<or> mirrored contents xs')
    \<and> (if xds_updates_sent xs' \<noteq> xds_updates_sent xs then \<forall>k. contents (cache_of xs' k) = staged_of xs k
       else cache_of xs' = cache_of xs \<or> failed (status (managers t ! 0)))"
proof -
  have len: "length (managers t) = 1" "sync_inv t"
    using sync_step_single [OF step assms(2)] sync_step_inv [OF step inv] by simp_all
  have stays: "failed (status (managers s ! 0)) \<Longrightarrow> failed (status (managers t ! 0))"
    using failed_step [OF step inv, of 0] assms(2) by simp
  consider (same) "xs' = xs"
    | (read) tf where "xs' = snd (xds_ReadFromTfstate api tf xs)" "\<not> failed (status (managers s ! 0))"
    | (built) ord where "xds_order_ok ord xs" "xds_Build api ord xs = (Ok (), xs')" "\<not> failed (status (managers s ! 0))"
    | (rejected) ord e where "xds_Build api ord xs = (Err e, xs')" "failed (status (managers t ! 0))"
    using sync_step_single [OF step assms(2)] unfolding xs_def xs'_def by blast
  then show ?thesis
  proof cases
    case same
    with assms(4) stays len show ?thesis by (auto simp: xs_def xs'_def)
  next
    case read
    with assms(4) len show ?thesis by (simp add: xs_def [symmetric] xds_read_frame mirrored_def)
  next
    case built
    with assms(4) have "mirrored contents xs" by (simp add: xs_def)
    from xds_Build_mirrors [OF cache built(1) this built(2)] xds_Build_done [OF built(2)] xds_Build_frame [of api ord xs] built(2) len
    show ?thesis by (simp add: mirrored_def)
  next
    case rejected
    then have "xds_updates_sent xs' = xds_updates_sent xs"
      using xds_Build_fail [of api ord xs] by simp
    with rejected xds_Build_frame [of api ord xs] len show ?thesis by simp
  qed
qed

lemma xds_inv_step:
  assumes "xds_step api listing p q" and cache: "linear_cache (UpdateResources api) contents" and "xds_inv contents p"
  shows "xds_inv contents q
    \<and> (if xds_updates_sent (shared_xds q) \<noteq> xds_updates_sent (shared_xds p)
       then \<forall>k. contents (cache_of (shared_xds q) k) = staged_of (shared_xds p) k
       else cache_of (shared_xds q) = cache_of (shared_xds p) \<or> failed (status (managers (manager_state q) ! 0)))"
  using assms(1,3)
proof (induction rule: xds_step.induct)
  case (sync_moves p sts unmarshal pages ks s)
  then have inv: "length (managers (manager_state p)) = 1" "sync_inv (manager_state p)"
    "failed (status (managers (manager_state p) ! 0)) \<or> mirrored contents (mgr (managers (manager_state p) ! 0))"
    by (simp_all add: xds_inv_def shared_xds_def)
  note moved = sync_step_xds [OF sync_moves(4) inv(1) cache inv(3,2)]
  from moved sync_moves sync_step_after_report [OF sync_moves(4) inv(2,1)] show ?case
    by (auto simp: xds_inv_def shared_xds_def)
next
  case (sync_reports p sts unmarshal pages ks s)
  then have inv: "length (managers (manager_state p)) = 1" "sync_inv (manager_state p)"
    "failed (status (managers (manager_state p) ! 0)) \<or> mirrored contents (mgr (managers (manager_state p) ! 0))"
    by (simp_all add: xds_inv_def shared_xds_def)
  note moved = sync_step_xds [OF sync_reports(5) inv(1) cache inv(3,2)]
  from moved sync_reports sync_step_received [OF sync_reports(5) inv(1) sync_reports(6)] show ?case
    by (auto simp: xds_inv_def shared_xds_def)
next
  case (discovery_moves p d d')
  from discovery_moves(7,2) have "clusterLoadAssignments (discovery (d\<lparr>xdsState := shared_xds p\<rparr>)) = []"
    by (simp add: xds_inv_def)
  from discovery_step_keeps [OF discovery_moves(4) this]
  have d': "clusterLoadAssignments (discovery d') = []" "xdsState d' = shared_xds (p\<lparr>discovery_goroutine := Some d'\<rparr>)"
    by simp_all
  from d'(1) discovery_moves(7) show ?case
    unfolding d'(2) store_shared_same by (simp add: xds_inv_def)
next
  case (discovery_reports p d d')
  from discovery_reports(6,2) have "clusterLoadAssignments (discovery (d\<lparr>xdsState := shared_xds p\<rparr>)) = []"
    by (simp add: xds_inv_def)
  from discovery_step_keeps [OF discovery_reports(4) this] discovery_reports(6)
  show ?case by (simp add: xds_inv_def shared_xds_def)
qed (auto simp: xds_inv_def shared_xds_def signalled_def life_step_cancelled)

lemma xds_inv_steps:
  "xds_steps api listing p q \<Longrightarrow> linear_cache (UpdateResources api) contents \<Longrightarrow> xds_inv contents p \<Longrightarrow> xds_inv contents q"
  by (induction rule: rtranclp_induct) (simp_all add: xds_inv_step)

lemma xds_inv_start:
  assumes "xds_PersistentPreRunE start f grpcServer cache0 namespaces tagKey = Ok c"
    and "\<And>k. contents (cache0 k) = fmempty"
  shows "xds_inv contents (start_xds c)"
proof -
  from assms(1) obtain src where m: "xds_manager c = NewStateManager src [NewXdsState cache0]"
    and d: "xds_discovery c = (if length namespaces > 0
      then Some (discovery_start namespaces tagKey (periodSyncInterval f) (NewXdsState cache0)) else None)"
    by (cases "PersistentPreRunE start f")
       (auto simp: xds_PersistentPreRunE_def command_manager_eq split: outcome.splits)
  then have "endpointsMap (shared_xds (start_xds c)) = fmempty" "mirrored contents (shared_xds (start_xds c))"
    using mirrored_init [of contents cache0] assms(2) by (simp_all add: shared_xds_def start_xds_def NewStateManager_def NewXdsState_def)
  moreover have "sync_inv (xds_manager c)" unfolding m by (rule sync_inv_init)
  ultimately show ?thesis using d m
    by (simp add: xds_inv_def start_xds_def NewStateManager_def discovery_start_def NewXds_def)
qed

subsection \<open>Properties\<close>

text \<open>
  A run for the witnesses, up to the first \<open>Build\<close>: TLS is off, no namespace is configured, and the
  bucket has one state with one listener. A cache is a map that accepts every update.
\<close>

type_synonym command_cache = "(string, (string, (LocalityLbEndpoints, unit) ClusterLoadAssignment) resource) gomap"

definition command_api :: "(string, LocalityLbEndpoints, unit, command_cache) xds_api" where
  "command_api =
     \<lparr>unmarshal_listener = Inr, unmarshal_virtual_host = Inr, unmarshal_cluster = Inr,
      unmarshal_route_configuration = Inr,
      unmarshal_assignment = (\<lambda>doc. Inr \<lparr>ClusterName = doc, Endpoints = [], other_fields = ()\<rparr>),
      GetResourceName = (\<lambda>r. case r of Message m \<Rightarrow> m | Assignment a \<Rightarrow> ClusterName a),
      UpdateResources = (\<lambda>c u d. (None, fmdrop_set (set d) (c ++\<^sub>f u)))\<rparr>"

lemma command_linear_cache: "linear_cache (UpdateResources command_api) id"
  by (simp add: linear_cache_def command_api_def)

abbreviation command_states :: Tfstate where
  "command_states \<equiv> sample_resources [(''cruiser_envoy_listener'', ''l'')]"

abbreviation command_new :: "(string, LocalityLbEndpoints, unit, command_cache) xds_state" where
  "command_new \<equiv> NewXdsState (\<lambda>_. fmempty)"

definition command_order :: xds_order where
  "command_order k = (if k = Listeners then [''l''] else [], [])"

definition command_listed :: "(string, LocalityLbEndpoints, unit, command_cache) xds_state" where
  "command_listed = command_new\<lparr>listenersMap := fmupd ''l'' ''l'' fmempty\<rparr>"

lemma command_reads: "xds_ReadFromTfstate command_api (Some command_states) command_new = (Ok (), command_listed)"
  by (simp add: xds_ReadFromTfstate_def sample_resources_def read_xds_resource_def
      read_xds_instance_def read_instance_def decode_document_def command_api_def store_listener_def
      command_listed_def NewXdsState_def)

lemma command_order_ok: "xds_order_ok command_order command_listed"
  unfolding xds_order_ok_def all_kinds by (simp add: transact_order_def command_order_def command_listed_def
      NewXdsState_def) (simp add: enumerates_def)

definition command_built :: "(string, LocalityLbEndpoints, unit, command_cache) xds_state" where
  "command_built = snd (xds_Build command_api command_order command_listed)"

lemma command_builds: "xds_Build command_api command_order command_listed = (Ok (), command_built)"
proof -
  have "fst (xds_Build command_api command_order command_listed) = Ok ()"
    by (simp add: xds_Build_def transact_clusters_def transact_assignments_def transact_listeners_def
      transact_virtual_hosts_def transact_route_configurations_def transactXdsResource_def command_order_def
      command_listed_def NewXdsState_def command_api_def)
  then show ?thesis unfolding command_built_def by (metis prod.collapse)
qed

definition command_sync ::
  "phase \<Rightarrow> s3_source \<Rightarrow> status \<Rightarrow> (string, LocalityLbEndpoints, unit, command_cache) xds_state \<Rightarrow> nat \<Rightarrow>
   (s3_source, (string, LocalityLbEndpoints, unit, command_cache) xds_state) sync_state"
where
  "command_sync ph src st m n = \<lparr>phase = ph, tfstateSource = Some src, managers = [\<lparr>status = st, mgr = m\<rparr>],
     wg = n, received = [], rounds = 0\<rparr>"

definition command_process ::
  "(s3_source, (string, LocalityLbEndpoints, unit, command_cache) xds_state) sync_state \<Rightarrow> bool \<Rightarrow>
   (string, command_cache) xds_process"
where
  "command_process s b = \<lparr>manager_state = s, update_pending = b, update_loop = Draining,
     discovery_goroutine = None, discovery_watch = Draining, life = Execute\<rparr>"

abbreviation command_get :: "s3_source \<Rightarrow> Tfstate option list outcome \<times> s3_source" where
  "command_get \<equiv> GetTfstate (factory_client sample_sts) (\<lambda>_. Inr command_states) [sample_page ''v1''] [''b.tfstate/b.tfstate'']"

abbreviation command_step where
  "command_step \<equiv> sync_step command_get (xds_ReadFromTfstate command_api) xds_order_ok (xds_Build command_api)"

lemma command_moves:
  assumes "command_step (command_sync ph src st m n) (command_sync ph' src' st' m' n')"
    and "ph \<noteq> Selecting" and "\<forall>q. ph \<noteq> Crashed q" and "listing [sample_page ''v1'']"
  shows "xds_step command_api listing (command_process (command_sync ph src st m n) False)
    (command_process (command_sync ph' src' st' m' n') (xds_updates_sent m' \<noteq> xds_updates_sent m))"
  using sync_moves [of "command_process (command_sync ph src st m n) False" listing
      "[sample_page ''v1'']" sample_sts "\<lambda>_. Inr command_states" "[''b.tfstate/b.tfstate'']" command_api "command_sync ph' src' st' m' n'"] assms
  by (simp add: command_process_def command_sync_def xds_alive_def Execute_def shared_xds_def)

definition command_source :: s3_source where
  "command_source = snd (command_get (NewTfstateSource GetS3Client ''b.tfstate''))"

lemma command_source_factory: "s3Client command_source = Some GetS3Client"
  by (simp add: command_source_def GetTfstate_frame NewTfstateSource_def)

lemma command_fetches: "command_get (NewTfstateSource GetS3Client ''b.tfstate'') = (Ok [Some command_states], command_source)"
proof -
  have "fst (command_get (NewTfstateSource GetS3Client ''b.tfstate'')) = Ok [Some command_states]"
    by (simp add: GetTfstate_def NewTfstateSource_def scan_page_def sample_page_def HasSuffix_def
        fetch_object_def record_object_def Let_def)
  then show ?thesis unfolding command_source_def by (metis prod.collapse)
qed

abbreviation command_before :: "(string, command_cache) xds_process" where
  "command_before \<equiv> command_process (command_sync (Spawning [Some command_states] 1) command_source (Reading []) command_listed 1) False"

abbreviation command_after :: "(string, command_cache) xds_process" where
  "command_after \<equiv> command_process (command_sync (Spawning [Some command_states] 1) command_source Done command_built 0) True"

lemma command_run:
  assumes listed: "listing [sample_page ''v1'']"
  shows "xds_steps command_api listing (command_process (command_sync Fetching (NewTfstateSource GetS3Client ''b.tfstate'') Idle command_new 0) False) command_before"
    and "xds_step command_api listing command_before command_after"
proof -
  let ?tfs = "[Some command_states]"
  let ?src = "command_source"
  note steps = sync_step.intros [where get = command_get and read = "xds_ReadFromTfstate command_api"
      and order_ok = xds_order_ok and build = "xds_Build command_api"]
  have "command_step (command_sync Fetching (NewTfstateSource GetS3Client ''b.tfstate'') Idle command_new 0)
      (command_sync (Spawning ?tfs 0) ?src Idle command_new 0)"
    using steps(2) [OF _ _ command_fetches, of "command_sync Fetching (NewTfstateSource GetS3Client ''b.tfstate'') Idle command_new 0"]
    by (simp add: command_sync_def)
  note one = command_moves [where listing = listing, OF this _ _ listed]
  have "command_step (command_sync (Spawning ?tfs 0) ?src Idle command_new 0)
      (command_sync (Spawning ?tfs 1) ?src (Reading ?tfs) command_new 1)"
    using steps(5) [of "command_sync (Spawning ?tfs 0) ?src Idle command_new 0" ?tfs 0]
    by (simp add: command_sync_def)
  note two = command_moves [where listing = listing, OF this _ _ listed]
  have "command_step (command_sync (Spawning ?tfs 1) ?src (Reading ?tfs) command_new 1)
      (command_sync (Spawning ?tfs 1) ?src (Reading []) command_listed 1)"
    using steps(7) [OF _ _ _ command_reads, of "command_sync (Spawning ?tfs 1) ?src (Reading ?tfs) command_new 1" 0 "[]"]
    by (simp add: command_sync_def)
  note three = command_moves [where listing = listing, OF this _ _ listed]
  have "xds_updates_sent command_listed = xds_updates_sent command_new" by (simp add: command_listed_def)
  with one two three show "xds_steps command_api listing
      (command_process (command_sync Fetching (NewTfstateSource GetS3Client ''b.tfstate'') Idle command_new 0) False) command_before"
    by (auto intro: converse_rtranclp_into_rtranclp)
  have "command_step (command_sync (Spawning ?tfs 1) ?src (Reading []) command_listed 1)
      (command_sync (Spawning ?tfs 1) ?src Done command_built 0)"
    using steps(10) [OF _ _ _ command_order_ok command_builds, of "command_sync (Spawning ?tfs 1) ?src (Reading []) command_listed 1" 0]
    by (simp add: command_sync_def)
  from command_moves [where listing = listing, OF this _ _ listed] xds_Build_done [OF command_builds] show "xds_step command_api listing command_before command_after"
    by simp
qed

definition command_started :: "(string, nat, nat, string, command_cache) xds_command" where
  "command_started = \<lparr>xds_server = command_server (plain_flags ''b.tfstate'')
       (plain_globals\<lparr>global_source := Some (NewTfstateSource GetS3Client ''b.tfstate'')\<rparr>) 7,
     xds_manager = NewStateManager (Some (NewTfstateSource GetS3Client ''b.tfstate'')) [command_new], xds_discovery = None\<rparr>"

lemma command_starts:
  "xds_PersistentPreRunE sample_start (plain_flags ''b.tfstate'') 7 (\<lambda>_. fmempty) [] ''port'' = Ok command_started"
  by (simp add: xds_PersistentPreRunE_def pre_run_defs NewProvider_def sample_start_def plain_flags_def source_factory_def
      command_manager_eq command_started_def plain_globals_def initial_globals_def command_server_def)

lemma command_start:
  "start_xds command_started = command_process (command_sync Fetching (NewTfstateSource GetS3Client ''b.tfstate'') Idle command_new 0) False"
  by (simp add: start_xds_def command_started_def command_process_def command_sync_def NewStateManager_def)

lemma command_reached:
  assumes "listing [sample_page ''v1'']"
  shows "xds_steps command_api listing (start_xds command_started) command_before"
    and "xds_steps command_api listing (start_xds command_started) command_after"
  using command_run [of listing, OF assms] unfolding command_start by (auto intro: rtranclp.rtrancl_into_rtrancl)

lemmas command_reached_any = command_reached [where listing = "\<lambda>_. True", OF TrueI]
lemmas command_run_any = command_run [where listing = "\<lambda>_. True", OF TrueI]

text \<open>
  C17. From the flags on: in every run of the command, whatever the bucket and the Cloud Map calls
  return, the caches change only by a \<open>Build\<close>. One that succeeds leaves in each cache exactly what was
  staged, and one that fails is the last: its goroutine has failed. No endpoint that service
  discovery finds ever reaches the xDS state.
\<close>

theorem xds_caches_follow_builds:
  assumes "xds_PersistentPreRunE start f grpcServer cache0 namespaces tagKey = Ok c"
    and "\<And>k. contents (cache0 k) = fmempty" and "linear_cache (UpdateResources api) contents"
    and "xds_steps api listing (start_xds c) p" and "xds_step api listing p q"
  shows "endpointsMap (shared_xds q) = fmempty
    \<and> (if xds_updates_sent (shared_xds q) \<noteq> xds_updates_sent (shared_xds p)
       then \<forall>k. contents (cache_of (shared_xds q) k) = staged_of (shared_xds p) k
       else cache_of (shared_xds q) = cache_of (shared_xds p) \<or> failed (status (managers (manager_state q) ! 0)))"
proof -
  have "xds_inv contents p"
    using xds_inv_steps [OF assms(4,3)] xds_inv_start [OF assms(1), of contents] assms(2) by blast
  from xds_inv_step [OF assms(5,3) this] show ?thesis by (simp add: xds_inv_def)
qed

theorem xds_caches_follow_builds_witness:
  "xds_step command_api (\<lambda>_. True) command_before command_after
   \<and> listenerCache (shared_xds command_before) = fmempty
   \<and> listenerCache (shared_xds command_after) = fmmap Message (fmupd ''l'' ''l'' fmempty)"
proof -
  have sent: "xds_updates_sent command_built \<noteq> xds_updates_sent command_listed"
    using xds_Build_done [OF command_builds] by simp
  have shared: "shared_xds command_before = command_listed" "shared_xds command_after = command_built"
    by (simp_all add: shared_xds_def command_process_def command_sync_def)
  from xds_caches_follow_builds [OF command_starts _ command_linear_cache command_reached_any(1) command_run_any(2)] sent
  have "\<forall>k. cache_of command_built k = staged_of command_listed k" unfolding shared by simp
  from this [rule_format, of Listeners] command_run_any(2) show ?thesis
    unfolding shared by (simp add: command_listed_def NewXdsState_def)
qed

text \<open>
  C18. The loop of \<^verbatim>\<open>xds start\<close> takes every update until the context is cancelled: unlike the loop of
  \<^verbatim>\<open>router start\<close> it cannot lock itself up with \<open>Build\<close>. Once it has ended, a \<open>Build\<close> at its send stays
  there for ever with the lock: nothing is fetched, read or built again, and the xDS state and its
  caches stay as they are.
\<close>

theorem xds_updates_drained:
  assumes "xds_PersistentPreRunE start f grpcServer cache0 namespaces tagKey = Ok c"
    and "\<And>k. contents (cache0 k) = fmempty" and "linear_cache (UpdateResources api) contents"
    and "xds_steps api listing (start_xds c) p" and "update_pending p" and "xds_alive p"
  shows "(\<not> ctx_cancelled (life p) \<longrightarrow> xds_step api listing p (p\<lparr>update_pending := False\<rparr>))
    \<and> (update_loop p = DrainOver \<longrightarrow> (\<forall>q. xds_steps api listing p q \<longrightarrow> update_pending q \<and> manager_state q = manager_state p))"
proof -
  have inv: "xds_inv contents p"
    using xds_inv_steps [OF assms(4,3)] xds_inv_start [OF assms(1), of contents] assms(2) by blast
  then have "\<not> ctx_cancelled (life p) \<Longrightarrow> update_loop p = Draining"
    using assms(5) by (cases "update_loop p") (auto simp: xds_inv_def)
  with assms(5,6) have taken: "\<not> ctx_cancelled (life p) \<longrightarrow> xds_step api listing p (p\<lparr>update_pending := False\<rparr>)"
    by (simp add: update_taken)
  have "update_pending q \<and> manager_state q = manager_state p \<and> update_loop q = DrainOver \<and> xds_inv contents q"
    if "xds_steps api listing p q" "update_loop p = DrainOver" for q
    using that(1)
  proof (induction rule: rtranclp_induct)
    case base
    from assms(5) that(2) inv show ?case by simp
  next
    case (step q r)
    with xds_inv_step [OF step(2) assms(3)] have "xds_inv contents r" by simp
    moreover from step(2,3) have "update_pending r \<and> manager_state r = manager_state p \<and> update_loop r = DrainOver"
    proof (induction rule: xds_step.induct)
      case (discovery_moves q d d')
      from discovery_moves(7,2) have "clusterLoadAssignments (discovery (d\<lparr>xdsState := shared_xds q\<rparr>)) = []"
        by (simp add: xds_inv_def)
      from discovery_step_keeps [OF discovery_moves(4) this]
      have d': "xdsState d' = shared_xds (q\<lparr>discovery_goroutine := Some d'\<rparr>)" by simp
      from discovery_moves(7) show ?case unfolding d' store_shared_same by simp
    qed simp_all
    ultimately show ?case by simp
  qed
  with taken show ?thesis by blast
qed

theorem xds_updates_drained_witness:
  "xds_steps command_api (\<lambda>_. True) (start_xds command_started) (command_after\<lparr>update_pending := False\<rparr>)"
proof -
  have "update_pending command_after" "xds_alive command_after" "\<not> ctx_cancelled (life command_after)"
    by (simp_all add: command_process_def xds_alive_def command_sync_def Execute_def)
  with xds_updates_drained [OF command_starts _ command_linear_cache command_reached_any(2)]
  have "xds_step command_api (\<lambda>_. True) command_after (command_after\<lparr>update_pending := False\<rparr>)" by simp
  with command_reached_any(2) show ?thesis by (rule rtranclp.rtrancl_into_rtrancl)
qed

end
