(* ===== verification/Xds_Rounds.thy ===== *)
theory Xds_Rounds
  imports Xds_Command Cmd_Init
begin

section \<open>The rounds of the command \<^verbatim>\<open>xds\<close> over a bucket\<close>

text \<open>
  What Envoy is served from the bucket, round by round: the S3 source, the synchronisation, the xDS
  state and the goroutines of the command together. A source is idle when no listing S3 may return
  makes it return a state.
\<close>

definition idle_source :: "(s3_page list \<Rightarrow> bool) \<Rightarrow> s3_source \<Rightarrow> bool" where
  "idle_source listing src \<longleftrightarrow>
     (\<forall>sts unmarshal pages ks tfs src'. listing pages \<longrightarrow>
        GetTfstate (factory_client sts) unmarshal pages ks src = (Ok tfs, src') \<longrightarrow> tfs = [] \<and> src' = src)"

lemma idle_sourceD:
  "idle_source listing src \<Longrightarrow> listing pages \<Longrightarrow> GetTfstate (factory_client sts) unmarshal pages ks src = (Ok tfs, src') \<Longrightarrow>
     tfs = [] \<and> src' = src"
  by (simp add: idle_source_def)

text \<open>
  What S3 lists while the bucket does not change: the remembered tags. And what every listing says:
  the output of \<^verbatim>\<open>ListObjectsV2\<close> has the name of the bucket in its field \<open>Name\<close>.
\<close>

definition lists_unchanged :: "s3_source \<Rightarrow> s3_page list \<Rightarrow> bool" where
  "lists_unchanged src pages \<longleftrightarrow> (\<forall>pg \<in> set pages. page_unchanged (bucket src) (tfstateObjects src) pg)"

definition lists_bucket_name :: "string \<Rightarrow> s3_page list \<Rightarrow> bool" where
  "lists_bucket_name b pages \<longleftrightarrow>
     (\<forall>pg \<in> set pages. \<forall>name. NextPage pg = Inr name \<longrightarrow> name = Some b)"

lemma unchanged_idle:
  "idle_source (lists_unchanged src) src"
  unfolding idle_source_def
proof (intro allI impI)
  fix sts unmarshal pages ks tfs src'
  assume "lists_unchanged src pages"
    and run: "GetTfstate (factory_client sts) unmarshal pages ks src = (Ok tfs, src')"
  then obtain s where "for_each (scan_page (bucket src) unmarshal) pages
      \<lparr>tfstates = [], existingObjects = [], needUpdate = False, objects = tfstateObjects src\<rparr> = (Ok (), s)"
    "needUpdate s = False" "objects s = tfstateObjects src"
    using scan_unchanged [of pages "bucket src" "\<lparr>tfstates = [], existingObjects = [], needUpdate = False,
        objects = tfstateObjects src\<rparr>" unmarshal] by (auto simp: lists_unchanged_def)
  with run show "tfs = [] \<and> src' = src" by (simp add: GetTfstate_def split: option.splits)
qed

lemma bucket_name_idle:
  assumes "\<not> HasSuffix (bucket src) ''.tfstate''"
  shows "idle_source (lists_bucket_name (bucket src)) src"
  unfolding idle_source_def
proof (intro allI impI)
  fix sts unmarshal pages ks tfs src'
  assume pages: "lists_bucket_name (bucket src) pages"
    and run: "GetTfstate (factory_client sts) unmarshal pages ks src = (Ok tfs, src')"
  have "for_each (scan_page (bucket src) unmarshal) ps s = (Ok (), t) \<Longrightarrow> t = s" if "set ps \<subseteq> set pages" for ps s t
    using that pages assms
    by (induction ps arbitrary: s) (auto simp: lists_bucket_name_def scan_page_def and_then_Ok_iff split: sum.splits)
  from this [OF subset_refl] run show "tfs = [] \<and> src' = src"
    by (fastforce simp: GetTfstate_def split: option.splits prod.splits outcome.splits if_splits)
qed

subsection \<open>The synchronisation over an idle source\<close>

text \<open>
  Nothing is staged, and what was published before is retained until the round \<open>n\<close> has built. \<open>b\<close> says
  that nothing was published before.
\<close>

fun started :: "phase \<Rightarrow> bool" where
  "started (Spawning tfs i) = (i > 0)"
| "started Waiting = True"
| "started _ = False"

definition idle_sync ::
  "bool \<Rightarrow> nat \<Rightarrow> s3_source \<Rightarrow> (s3_source, ('m, LocalityLbEndpoints, unit, 'c) xds_state) sync_state \<Rightarrow> bool"
where
  "idle_sync b n src s \<longleftrightarrow>
     (let w = managers s ! 0 in
      staged_of (mgr w) = (\<lambda>_. fmempty)
      \<and> (phase s \<in> {Fetching, Waiting, Selecting} \<or> (\<exists>i. phase s = Spawning [] i) \<longrightarrow> tfstateSource s = Some src)
      \<and> (\<forall>tfs i. phase s = Spawning tfs i \<longrightarrow> tfs = [])
      \<and> (\<forall>ts. status w = Reading ts \<longrightarrow> ts = [])
      \<and> (started (phase s) \<longrightarrow> status w \<noteq> Idle)
      \<and> (b \<or> rounds s > n \<or> status w = Done \<and> started (phase s) \<longrightarrow>
           retained_of (mgr w) = (\<lambda>_. fmempty) \<or> failed (status w)))"

lemma idle_sync_step:
  assumes "sync_step (GetTfstate (factory_client sts) unmarshal pages ks) (xds_ReadFromTfstate api) xds_order_ok (xds_Build api) s t"
    and "sync_inv s" and "length (managers s) = 1" and idle: "idle_source listing src" "listing pages"
    and "idle_sync b n src s"
  shows "idle_sync b n src t"
  using assms(1-3,6)
proof (induction rule: sync_step.induct)
  case (fetch_ok s src1 tfs src')
  with idle_sourceD [OF idle, of sts unmarshal ks tfs src'] show ?case
    by (simp add: idle_sync_def Let_def)
next
  case (spawn s tfs i)
  then have "i = 0" "\<not> failed (status (managers s ! 0))" by (auto simp: sync_inv_def dest: failed_busy)
  with spawn show ?case by (auto simp: idle_sync_def Let_def)
next
  case (build_ok s i m ord m')
  then have [simp]: "i = 0" "managers s ! 0 = \<lparr>status = Reading [], mgr = m\<rparr>" by simp_all
  from build_ok xds_Build_done [OF build_ok(5)] show ?case
    by (auto simp: idle_sync_def Let_def)
next
  case (build_err s i m ord e m')
  then have [simp]: "i = 0" "managers s ! 0 = \<lparr>status = Reading [], mgr = m\<rparr>" by simp_all
  from build_err xds_Build_fail [OF build_err(5)] show ?case
    by (auto simp: idle_sync_def Let_def)
next
  case (wait s)
  then have "\<not> busy (status (managers s ! 0))" by (simp add: sync_inv_def busy_count_0)
  with wait have "status (managers s ! 0) = Done"
    by (cases "status (managers s ! 0)") (simp_all add: idle_sync_def Let_def)
  with wait show ?case by (auto simp: idle_sync_def Let_def)
qed (auto simp: idle_sync_def Let_def)

text \<open>A step of the command moves the synchronisation by one of its steps, or not at all.\<close>

lemma xds_sync_step:
  assumes "xds_step api listing p q" and "xds_inv contents p"
  shows "manager_state q = manager_state p \<or> (\<exists>sts unmarshal pages ks. listing pages
    \<and> sync_step (GetTfstate (factory_client sts) unmarshal pages ks) (xds_ReadFromTfstate api) xds_order_ok (xds_Build api)
        (manager_state p) (manager_state q))"
  using assms
proof (induction rule: xds_step.induct)
  case (discovery_moves p d d')
  then have "clusterLoadAssignments (discovery (d\<lparr>xdsState := shared_xds p\<rparr>)) = []" by (simp add: xds_inv_def)
  from discovery_step_keeps [OF discovery_moves(4) this]
  have d': "xdsState d' = shared_xds (p\<lparr>discovery_goroutine := Some d'\<rparr>)" by simp
  show ?case unfolding d' store_shared_same by simp
qed auto

lemma idle_steps:
  assumes "xds_steps api listing p q" and cache: "linear_cache (UpdateResources api) contents"
    and "xds_inv contents p" and idle: "idle_source listing src" and "idle_sync b n src (manager_state p)"
  shows "idle_sync b n src (manager_state q)"
  using assms(1,3,5)
proof (induction rule: rtranclp_induct)
  case (step q r)
  then have sync: "idle_sync b n src (manager_state q)" by simp
  have inv: "xds_inv contents q" using xds_inv_steps [OF step(1) cache] step(4) by simp
  then have q: "sync_inv (manager_state q)" "length (managers (manager_state q)) = 1" by (simp_all add: xds_inv_def)
  from xds_sync_step [OF step(2) inv] idle_sync_step [OF _ q idle _ sync] sync show ?case by metis
qed simp

text \<open>Outside a round nothing is staged.\<close>

definition quiet_sync :: "(s3_source, ('m, LocalityLbEndpoints, unit, 'c) xds_state) sync_state \<Rightarrow> bool" where
  "quiet_sync s \<longleftrightarrow> busy (status (managers s ! 0)) \<or> staged_of (mgr (managers s ! 0)) = (\<lambda>_. fmempty)"

lemma quiet_sync_step:
  assumes "sync_step get (xds_ReadFromTfstate api) xds_order_ok (xds_Build api) s t"
    and "length (managers s) = 1" and "quiet_sync s"
  shows "quiet_sync t"
  using assms
proof (induction rule: sync_step.induct)
  case (build_ok s i m ord m')
  with xds_Build_done [OF build_ok(5)] show ?case by (simp add: quiet_sync_def)
qed (auto simp: quiet_sync_def)

lemma quiet_steps:
  assumes "xds_steps api listing p q" and cache: "linear_cache (UpdateResources api) contents"
    and "xds_inv contents p" and "quiet_sync (manager_state p)"
  shows "quiet_sync (manager_state q)"
  using assms(1,3,4)
proof (induction rule: rtranclp_induct)
  case (step q r)
  then have quiet: "quiet_sync (manager_state q)" by simp
  have inv: "xds_inv contents q" using xds_inv_steps [OF step(1) cache] step(4) by simp
  then have one: "length (managers (manager_state q)) = 1" by (simp add: xds_inv_def)
  from xds_sync_step [OF step(2) inv] quiet_sync_step [OF _ one quiet] quiet show ?case by metis
qed simp

text \<open>The rounds of a run from a fetch on; S3 may answer every fetch differently.\<close>

lemma fetched_round:
  assumes "xds_steps api listing p q" and cache: "linear_cache (UpdateResources api) contents"
    and "xds_inv contents p" and "phase (manager_state p) = Fetching"
    and "phase (manager_state q) = Selecting" and "rounds (manager_state q) = Suc (rounds (manager_state p))"
  shows "\<exists>sts unmarshal pages ks. listing pages
    \<and> sync_steps (GetTfstate (factory_client sts) unmarshal pages ks) (xds_ReadFromTfstate api) xds_order_ok (xds_Build api)
        (manager_state p) (manager_state q)"
proof -
  let ?asks = "\<lambda>get. \<exists>sts unmarshal pages ks. listing pages \<and> get = GetTfstate (factory_client sts) unmarshal pages ks"
  let ?run = "\<lambda>get. sync_steps get (xds_ReadFromTfstate api) xds_order_ok (xds_Build api) (manager_state p)"
  have "\<exists>get. manager_state q = manager_state p
      \<or> ?asks get \<and> ?run get (manager_state q) \<and> phase (manager_state q) \<noteq> Fetching
      \<or> rounds (manager_state q) > rounds (manager_state p)
        \<and> (phase (manager_state q) = Selecting \<longrightarrow> rounds (manager_state q) > Suc (rounds (manager_state p)))"
    using assms(1)
  proof (induction rule: rtranclp_induct)
    case (step q r)
    have inv: "xds_inv contents q" by (rule xds_inv_steps [OF step(1) cache assms(3)])
    from xds_sync_step [OF step(2) inv] show ?case
    proof (elim disjE exE conjE)
      fix sts unmarshal pages ks
      assume "listing pages" and sync: "sync_step (GetTfstate (factory_client sts) unmarshal pages ks) (xds_ReadFromTfstate api)
        xds_order_ok (xds_Build api) (manager_state q) (manager_state r)"
      then have asks: "?asks (GetTfstate (factory_client sts) unmarshal pages ks)" by blast
      have "sync_inv (manager_state p)" "sync_inv (manager_state q)"
        using inv assms(3) by (simp_all add: xds_inv_def)
      with step(3) show ?thesis
        by (elim exE) (rule round_of_fetch [where P = ?asks, OF assms(4) _ _ _ asks sync])
    qed (use step(3) in simp)
  qed simp
  with assms(4,5,6) show ?thesis by auto
qed

lemma read_all_frame:
  "retained_of (snd (for_each (xds_ReadFromTfstate api) tfs s)) = retained_of s
   \<and> cache_of (snd (for_each (xds_ReadFromTfstate api) tfs s)) = cache_of s"
  by (rule for_each_invariant [where P = "\<lambda>t. retained_of t = retained_of s \<and> cache_of t = cache_of s"])
     (simp_all add: xds_read_frame)

lemma command_manager_started:
  assumes "xds_PersistentPreRunE start f grpcServer cache0 namespaces tagKey = Ok c"
  shows "manager_state (start_xds c) = NewStateManager
    (if tfstateSourceSelector f = ''aws-s3'' then Some (NewTfstateSource (source_factory f) (awsTfstateBucket f)) else None) [NewXdsState cache0]"
proof -
  from assms obtain g where g: "PersistentPreRunE start f = (Ok (), g)"
    and c: "xds_manager c = NewStateManager (global_source g) [NewXdsState cache0]"
    by (cases "PersistentPreRunE start f")
       (auto simp: xds_PersistentPreRunE_def command_manager_eq split: outcome.splits)
  have "global_source g = (if tfstateSourceSelector f = ''aws-s3'' then Some (NewTfstateSource (source_factory f) (awsTfstateBucket f)) else None)"
    using PersistentPreRunE_Ok [OF g] by blast
  with c show ?thesis by (simp add: start_xds_def)
qed

lemma staged_init: "staged_of (NewXdsState cache0) = (\<lambda>_. fmempty)" "retained_of (NewXdsState cache0) = (\<lambda>_. fmempty)"
  by (simp_all add: fun_eq_iff all_kinds NewXdsState_def)

lemma idle_caches:
  assumes "xds_inv contents q" and "idle_sync b n src (manager_state q)" and "b \<or> rounds (manager_state q) > n"
  shows "failed (status (managers (manager_state q) ! 0)) \<or> (\<forall>k. contents (cache_of (shared_xds q) k) = fmempty)"
proof -
  have "retained_of (shared_xds q) = (\<lambda>_. fmempty) \<or> failed (status (managers (manager_state q) ! 0))"
    using assms(2,3) unfolding idle_sync_def Let_def shared_xds_def by blast
  moreover have "failed (status (managers (manager_state q) ! 0)) \<or> mirrored contents (shared_xds q)"
    using assms(1) by (simp add: xds_inv_def)
  ultimately show ?thesis by (auto simp: mirrored_def)
qed

subsection \<open>Properties\<close>

text \<open>A whole round of the command of the witnesses, without namespaces.\<close>

definition round_state ::
  "phase \<Rightarrow> s3_source \<Rightarrow> status \<Rightarrow> (string, LocalityLbEndpoints, unit, command_cache) xds_state \<Rightarrow> nat \<Rightarrow> nat \<Rightarrow>
   (s3_source, (string, LocalityLbEndpoints, unit, command_cache) xds_state) sync_state"
where
  "round_state ph src st m n r = \<lparr>phase = ph, tfstateSource = Some src, managers = [\<lparr>status = st, mgr = m\<rparr>],
     wg = n, received = [], rounds = r\<rparr>"

lemma round_state_sel [simp]:
  "phase (round_state ph src st m n r) = ph" "tfstateSource (round_state ph src st m n r) = Some src"
  "managers (round_state ph src st m n r) = [\<lparr>status = st, mgr = m\<rparr>]" "wg (round_state ph src st m n r) = n"
  "received (round_state ph src st m n r) = []" "rounds (round_state ph src st m n r) = r"
  by (simp_all add: round_state_def)

lemma process_moves:
  assumes "sync_step (GetTfstate (factory_client sts) unmarshal pages ks) (xds_ReadFromTfstate command_api) xds_order_ok
      (xds_Build command_api) s t"
    and "listing pages" and "received t = received s" and "\<forall>q. phase s \<noteq> Crashed q"
    and "phase s = Selecting \<longrightarrow> phase t = Fetching"
  shows "xds_step command_api listing (command_process s False)
    (command_process t (xds_updates_sent (mgr (managers t ! 0)) \<noteq> xds_updates_sent (mgr (managers s ! 0))))"
  using sync_moves [of "command_process s False" listing pages sts unmarshal ks command_api t] assms
  by (simp add: command_process_def xds_alive_def Execute_def shared_xds_def)

lemma process_taken:
  "\<forall>q. phase s \<noteq> Crashed q \<Longrightarrow> xds_step command_api listing (command_process s True) (command_process s False)"
  using update_taken [of "command_process s True" command_api listing]
  by (simp add: command_process_def xds_alive_def Execute_def)

lemma process_reads:
  assumes listed: "listing pages" and ph: "\<forall>q. ph \<noteq> Crashed q" "ph \<noteq> Selecting"
    and "for_each (xds_ReadFromTfstate command_api) ts m = (Ok (), m1)"
  shows "xds_steps command_api listing (command_process (round_state ph src (Reading ts) m 1 r) False)
      (command_process (round_state ph src (Reading []) m1 1 r) False)"
  using assms(4)
proof (induction ts arbitrary: m)
  case (Cons t ts)
  then obtain m' where read: "xds_ReadFromTfstate command_api t m = (Ok (), m')"
    and rest: "for_each (xds_ReadFromTfstate command_api) ts m' = (Ok (), m1)"
    by (auto simp: and_then_Ok_iff)
  have "sync_step (GetTfstate (factory_client sts) unmarshal pages ks) (xds_ReadFromTfstate command_api) xds_order_ok
      (xds_Build command_api) (round_state ph src (Reading (t # ts)) m 1 r) (round_state ph src (Reading ts) m' 1 r)" for sts unmarshal ks
    using sync_step.read_ok [of "round_state ph src (Reading (t # ts)) m 1 r" 0 t ts m "xds_ReadFromTfstate command_api" m'] read ph
    by (simp add: round_state_def)
  from process_moves [where listing = listing, OF this listed] ph xds_read_frame(1) [of command_api t m] read
  have "xds_step command_api listing (command_process (round_state ph src (Reading (t # ts)) m 1 r) False)
      (command_process (round_state ph src (Reading ts) m' 1 r) False)" by simp
  then show ?case using Cons.IH [OF rest] by (rule converse_rtranclp_into_rtranclp)
qed simp

lemma process_round:
  assumes get: "GetTfstate (factory_client sts) unmarshal pages ks src = (Ok tfs, src')" and listed: "listing pages"
    and reads: "for_each (xds_ReadFromTfstate command_api) tfs m = (Ok (), m1)" and ord: "xds_order_ok ord m1"
    and build: "xds_Build command_api ord m1 = (Ok (), m2)"
  shows "xds_steps command_api listing (command_process (round_state Fetching src st m 0 r) False)
    (command_process (round_state Selecting src' Done m2 0 (Suc r)) False)"
proof -
  let ?steps = "xds_steps command_api listing"
  let ?p = "\<lambda>s. command_process s False"
  note steps = sync_step.intros [where get = "GetTfstate (factory_client sts) unmarshal pages ks" and read = "xds_ReadFromTfstate command_api"
      and order_ok = xds_order_ok and build = "xds_Build command_api"]
  note moves = process_moves [where listing = listing and sts = sts and unmarshal = unmarshal and pages = pages and ks = ks, OF _ listed]
  have "?steps (?p (round_state Fetching src st m 0 r)) (?p (round_state (Spawning tfs 0) src' st m 0 r))"
    using moves [OF steps(2) [OF _ _ get], of "round_state Fetching src st m 0 r"]
    by (simp add: round_state_def r_into_rtranclp)
  also have "?steps \<dots> (?p (round_state (Spawning tfs 1) src' (Reading tfs) m 1 r))"
    using moves [OF steps(5), of "round_state (Spawning tfs 0) src' st m 0 r" tfs 0]
    by (simp add: round_state_def r_into_rtranclp)
  also have "?steps \<dots> (?p (round_state (Spawning tfs 1) src' (Reading []) m1 1 r))"
    by (rule process_reads [where listing = listing, OF listed _ _ reads]) simp_all
  also have "?steps \<dots> (command_process (round_state (Spawning tfs 1) src' Done m2 0 r) True)"
    using moves [OF steps(10) [OF _ _ _ ord build], of "round_state (Spawning tfs 1) src' (Reading []) m1 1 r" 0]
      xds_Build_done [OF build]
    by (simp add: round_state_def r_into_rtranclp)
  also have "?steps \<dots> (?p (round_state (Spawning tfs 1) src' Done m2 0 r))"
    using process_taken [of "round_state (Spawning tfs 1) src' Done m2 0 r" listing] by (simp add: r_into_rtranclp)
  also have "?steps \<dots> (?p (round_state Waiting src' Done m2 0 r))"
    using moves [OF steps(6), of "round_state (Spawning tfs 1) src' Done m2 0 r" tfs 1]
    by (simp add: round_state_def r_into_rtranclp)
  also have "?steps \<dots> (?p (round_state Selecting src' Done m2 0 (Suc r)))"
    using moves [OF steps(14), of "round_state Waiting src' Done m2 0 r"]
    by (simp add: round_state_def r_into_rtranclp)
  finally show ?thesis .
qed

lemma process_timer:
  assumes "listing pages"
  shows "xds_step command_api listing (command_process (round_state Selecting src st m 0 r) False)
    (command_process (round_state Fetching src st m 0 r) False)"
  using process_moves [where listing = listing, OF sync_step.timer assms, of "round_state Selecting src st m 0 r"]
  by (simp add: round_state_def)

lemma command_Build_Ok: "\<exists>m. xds_Build command_api ord s = (Ok (), m)"
  by (simp add: xds_Build_def transact_clusters_def transact_assignments_def transact_listeners_def
      transact_virtual_hosts_def transact_route_configurations_def transactXdsResource_def command_api_def
      split_beta Let_def)

text \<open>
  C1. A bucket that stops changing loses its configuration. From any fetch of a running command on,
  as long as S3 lists the states with the tags that the source remembers, the first round that is
  completed and every later one leave all caches empty, unless a \<open>Build\<close> has failed: the source
  returns no states when nothing changed, and the \<open>Build\<close> withdraws what was published before.
\<close>

theorem unchanged_bucket_withdrawn:
  assumes "xds_PersistentPreRunE start f grpcServer cache0 namespaces tagKey = Ok c"
    and "\<And>k. contents (cache0 k) = fmempty" and "linear_cache (UpdateResources api) contents"
    and "xds_steps api listing (start_xds c) p" and "phase (manager_state p) = Fetching"
    and "tfstateSource (manager_state p) = Some src"
    and "xds_steps api (lists_unchanged src) p q"
    and "rounds (manager_state q) > rounds (manager_state p)"
  shows "failed (status (managers (manager_state q) ! 0)) \<or> (\<forall>k. contents (cache_of (shared_xds q) k) = fmempty)"
proof -
  have start: "xds_inv contents (start_xds c)" using xds_inv_start [OF assms(1), of contents] assms(2) by blast
  have p: "xds_inv contents p" by (rule xds_inv_steps [OF assms(4,3) start])
  have "quiet_sync (manager_state (start_xds c))"
    by (simp add: command_manager_started [OF assms(1)] quiet_sync_def NewStateManager_def staged_init)
  from quiet_steps [OF assms(4,3) start this] have "quiet_sync (manager_state p)" .
  moreover have "\<not> busy (status (managers (manager_state p) ! 0))"
    using p assms(5) by (simp add: xds_inv_def sync_inv_def busy_count_0)
  ultimately have "idle_sync False (rounds (manager_state p)) src (manager_state p)"
    using assms(5,6) by (auto simp: idle_sync_def quiet_sync_def Let_def)
  from idle_steps [OF assms(7,3) p unchanged_idle this]
  show ?thesis by (rule idle_caches [OF xds_inv_steps [OF assms(7,3) p]]) (simp add: assms(8))
qed

abbreviation published :: "(string, command_cache) xds_process" where
  "published \<equiv> command_process (round_state Fetching command_source Done command_built 0 1) False"

lemma command_completed:
  assumes "listing [sample_page ''v1'']"
  shows "xds_steps command_api listing (start_xds command_started)
    (command_process (round_state Selecting command_source Done command_built 0 1) False)"
proof -
  have "for_each (xds_ReadFromTfstate command_api) [Some command_states] command_new = (Ok (), command_listed)"
    by (simp add: command_reads)
  from process_round [where listing = listing, OF command_fetches assms this command_order_ok command_builds, of Idle 0]
  show ?thesis by (simp add: command_start command_sync_def round_state_def)
qed

lemma command_published:
  "listing [sample_page ''v1''] \<Longrightarrow> xds_steps command_api listing (start_xds command_started) published"
  using command_completed [of listing] process_timer [where listing = listing] by (blast intro: rtranclp.rtrancl_into_rtrancl)

lemma command_unchanged:
  "page_unchanged (bucket command_source) (tfstateObjects command_source) (sample_page ''v1'')"
  by (simp add: page_unchanged_def page_listed_def page_object_def sample_page_def command_source_def GetTfstate_def
      NewTfstateSource_def scan_page_def HasSuffix_def fetch_object_def record_object_def Let_def)

lemma process_idle_round:
  assumes "GetTfstate (factory_client sample_sts) unmarshal pages ks src = (Ok [], src)" and "listing pages"
  shows "\<exists>m'. xds_steps command_api listing (command_process (round_state Fetching src st m 0 r) False)
    (command_process (round_state Selecting src Done m' 0 (Suc r)) False)"
proof -
  obtain ord where ord: "xds_order_ok ord m" using xds_order_exists by blast
  obtain m' where "xds_Build command_api ord m = (Ok (), m')" using command_Build_Ok by blast
  from process_round [where listing = listing, OF assms _ ord this] show ?thesis by auto
qed

lemma command_built_cache: "listenerCache command_built = fmmap Message (fmupd ''l'' ''l'' fmempty)"
proof -
  have "mirrored id command_listed"
    unfolding mirrored_def all_kinds by (simp add: command_listed_def NewXdsState_def)
  from xds_Build_mirrors [OF command_linear_cache command_order_ok this command_builds]
  have "\<forall>k. cache_of command_built k = staged_of command_listed k" by (simp add: mirrored_def)
  from this [rule_format, of Listeners] show ?thesis by (simp add: command_listed_def)
qed

lemma listing_start:
  assumes "manager_state (start_xds c) = NewStateManager (Some src) [command_new]" and "xds_discovery c = None"
  shows "start_xds c = command_process (round_state Fetching src Idle command_new 0 0) False"
  using assms by (simp add: start_xds_def command_process_def round_state_def NewStateManager_def)

theorem unchanged_bucket_withdrawn_witness:
  "\<exists>q. xds_steps command_api (\<lambda>_. True) (start_xds command_started) published
     \<and> listenerCache (shared_xds published) = fmmap Message (fmupd ''l'' ''l'' fmempty)
     \<and> xds_steps command_api (lists_unchanged command_source)
         published q
     \<and> rounds (manager_state q) = 2 \<and> listenerCache (shared_xds q) = fmempty"
proof -
  let ?listing = "lists_unchanged command_source"
  have run: "xds_steps command_api (\<lambda>_. True) (start_xds command_started) published"
    by (rule command_published) simp
  have listed: "?listing [sample_page ''v1'']" using command_unchanged by (simp add: lists_unchanged_def)
  have "GetTfstate (factory_client sample_sts) (\<lambda>_. Inr command_states) [sample_page ''v1''] [] command_source
      = (Ok [], command_source)"
    by (rule GetTfstate_unchanged [where factory = GetS3Client]) (simp_all add: command_unchanged command_source_factory)
  from process_idle_round [where listing = ?listing, OF this listed, of Done command_built 1] obtain m'
    where round: "xds_steps command_api ?listing published
      (command_process (round_state Selecting command_source Done m' 0 2) False)"
    by (auto simp: numeral_2_eq_2)
  have p: "phase (manager_state published) = Fetching" "tfstateSource (manager_state published) = Some command_source"
    by (simp_all add: command_process_def)
  from unchanged_bucket_withdrawn [OF command_starts _ command_linear_cache run p round]
  have "listenerCache m' = fmempty"
    by (simp add: command_process_def shared_xds_def all_kinds)
  moreover have "listenerCache command_built = fmmap Message (fmupd ''l'' ''l'' fmempty)"
    by (rule command_built_cache)
  ultimately show ?thesis using run round
    by (intro exI [of _ "command_process (round_state Selecting command_source Done m' 0 2) False"])
       (simp add: command_process_def shared_xds_def)
qed

text \<open>
  C2. What a completed round publishes. From any fetch of a running command on, the first round that
  reaches its select statement has listed the bucket once, has read all states that the source
  returned for that listing, in order, into a state with nothing staged, and its \<open>Build\<close> has left in each
  cache exactly what was staged, whatever the caches held before.
\<close>

theorem round_publishes_bucket:
  assumes "xds_PersistentPreRunE start f grpcServer cache0 namespaces tagKey = Ok c"
    and "\<And>k. contents (cache0 k) = fmempty" and "linear_cache (UpdateResources api) contents"
    and "xds_steps api listing (start_xds c) p" and "phase (manager_state p) = Fetching"
    and "xds_steps api listing p q" and "phase (manager_state q) = Selecting"
    and "rounds (manager_state q) = Suc (rounds (manager_state p))"
  shows "\<exists>sts unmarshal pages ks src tfs src' m. listing pages \<and> tfstateSource (manager_state p) = Some src
    \<and> GetTfstate (factory_client sts) unmarshal pages ks src = (Ok tfs, src')
    \<and> staged_of (shared_xds p) = (\<lambda>_. fmempty)
    \<and> for_each (xds_ReadFromTfstate api) tfs (shared_xds p) = (Ok (), m)
    \<and> (\<forall>k. contents (cache_of (shared_xds q) k) = staged_of m k)"
proof -
  have start: "xds_inv contents (start_xds c)" using xds_inv_start [OF assms(1), of contents] assms(2) by blast
  have p: "xds_inv contents p" by (rule xds_inv_steps [OF assms(4,3) start])
  then have idle: "length (managers (manager_state p)) = 1" "sync_inv (manager_state p)"
    "\<not> busy (status (managers (manager_state p) ! 0))"
    using assms(5) by (simp_all add: xds_inv_def sync_inv_def busy_count_0)
  have "quiet_sync (manager_state (start_xds c))"
    by (simp add: command_manager_started [OF assms(1)] quiet_sync_def NewStateManager_def staged_init)
  from quiet_steps [OF assms(4,3) start this] idle(3) have staged: "staged_of (shared_xds p) = (\<lambda>_. fmempty)"
    by (simp add: quiet_sync_def shared_xds_def)
  obtain sts unmarshal pages ks where listed: "listing pages"
    and run: "sync_steps (GetTfstate (factory_client sts) unmarshal pages ks) (xds_ReadFromTfstate api) xds_order_ok (xds_Build api)
      (manager_state p) (manager_state q)"
    using fetched_round [OF assms(6,3) p assms(5,7,8)] by blast
  obtain src tfs src' where src: "tfstateSource (manager_state p) = Some src"
    and get: "GetTfstate (factory_client sts) unmarshal pages ks src = (Ok tfs, src')"
    using fetched_ok [OF run assms(5) idle(2) assms(7)] by blast
  obtain ord m where reads: "for_each (xds_ReadFromTfstate api) tfs (shared_xds p) = (Ok (), m)"
    and ord: "xds_order_ok ord m" and build: "xds_Build api ord m = (Ok (), shared_xds q)"
    using round_result [OF run assms(5) src get idle(2) assms(7,8)] idle(1) by (auto simp: shared_xds_def)
  have "mirrored contents (shared_xds p)"
    using p idle(3) failed_busy by (auto simp: xds_inv_def)
  with read_all_frame [of api tfs "shared_xds p"] reads have "mirrored contents m" by (simp add: mirrored_def)
  from xds_Build_mirrors [OF assms(3) ord this build]
  have "\<forall>k. contents (cache_of (shared_xds q) k) = staged_of m k" by (simp add: mirrored_def)
  with listed src get staged reads show ?thesis by blast
qed

theorem round_publishes_bucket_witness:
  "\<exists>q pages src tfs src' m sts unmarshal ks.
     xds_steps command_api (\<lambda>pages. pages = [sample_page ''v1'']) (start_xds command_started) q
     \<and> listenerCache (shared_xds q) = fmmap Message (fmupd ''l'' ''l'' fmempty)
     \<and> pages = [sample_page ''v1''] \<and> GetTfstate (factory_client sts) unmarshal pages ks src = (Ok tfs, src')
     \<and> for_each (xds_ReadFromTfstate command_api) tfs command_new = (Ok (), m)
     \<and> staged_of m Listeners = fmmap Message (fmupd ''l'' ''l'' fmempty)"
proof -
  let ?listing = "\<lambda>pages. pages = [sample_page ''v1'']"
  let ?q = "command_process (round_state Selecting command_source Done command_built 0 1) False"
  have run: "xds_steps command_api ?listing (start_xds command_started) ?q"
    by (rule command_completed) simp
  have "phase (manager_state (start_xds command_started)) = Fetching" "phase (manager_state ?q) = Selecting"
    "rounds (manager_state ?q) = Suc (rounds (manager_state (start_xds command_started)))"
    "shared_xds (start_xds command_started) = command_new" "shared_xds ?q = command_built"
    by (simp_all add: command_start command_process_def command_sync_def shared_xds_def)
  note q = this
  from round_publishes_bucket [OF command_starts _ command_linear_cache rtranclp.rtrancl_refl q(1) run q(2,3), unfolded q(4,5)]
  obtain sts unmarshal pages ks src tfs src' m where "pages = [sample_page ''v1'']"
    "GetTfstate (factory_client sts) unmarshal pages ks src = (Ok tfs, src')"
    "for_each (xds_ReadFromTfstate command_api) tfs command_new = (Ok (), m)"
    "\<forall>k. id (cache_of command_built k) = staged_of m k" by auto
  moreover from this(4) [THEN spec, of Listeners] have "staged_of m Listeners = fmmap Message (fmupd ''l'' ''l'' fmempty)"
    by (simp only: cache_of.simps command_built_cache id_apply)
  moreover have "listenerCache (shared_xds ?q) = fmmap Message (fmupd ''l'' ''l'' fmempty)"
    by (simp only: q(5) command_built_cache)
  ultimately show ?thesis using run by blast
qed

text \<open>
  C12. The command serves nothing from a bucket whose name does not end in \<open>.tfstate\<close>. \<^verbatim>\<open>ListObjectsV2\<close>
  gives the bucket's name in the field that the source takes for the name of a state; so in every
  run, whatever the bucket holds, all caches stay empty, unless a \<open>Build\<close> has failed.
\<close>

theorem bucket_name_serves_nothing:
  assumes "xds_PersistentPreRunE start f grpcServer cache0 namespaces tagKey = Ok c"
    and "\<And>k. contents (cache0 k) = fmempty" and "linear_cache (UpdateResources api) contents"
    and "tfstateSourceSelector f = ''aws-s3''" and "\<not> HasSuffix (awsTfstateBucket f) ''.tfstate''"
    and "xds_steps api (lists_bucket_name (awsTfstateBucket f))
           (start_xds c) q"
  shows "failed (status (managers (manager_state q) ! 0)) \<or> (\<forall>k. contents (cache_of (shared_xds q) k) = fmempty)"
proof -
  let ?src = "NewTfstateSource (source_factory f) (awsTfstateBucket f)"
  have src: "bucket ?src = awsTfstateBucket f" by (simp add: NewTfstateSource_def)
  have start: "xds_inv contents (start_xds c)" using xds_inv_start [OF assms(1), of contents] assms(2) by blast
  have "idle_sync True 0 ?src (manager_state (start_xds c))"
    by (simp add: command_manager_started [OF assms(1)] assms(4) idle_sync_def NewStateManager_def staged_init Let_def)
  from idle_steps [OF assms(6,3) start bucket_name_idle [of ?src, unfolded src, OF assms(5)] this]
  show ?thesis by (rule idle_caches [OF xds_inv_steps [OF assms(6,3) start]]) simp
qed

theorem bucket_name_serves_nothing_witness:
  "\<exists>c q. xds_PersistentPreRunE sample_start (plain_flags ''states'') (7 :: nat) (\<lambda>_. fmempty) [] ''port''
       = Ok (c :: (nat, nat, nat, string, command_cache) xds_command)
     \<and> xds_steps command_api (lists_bucket_name ''states'') (start_xds c) q
     \<and> rounds (manager_state q) = 1 \<and> listenerCache (shared_xds q) = fmempty"
proof -
  let ?listing = "lists_bucket_name ''states''"
  obtain c :: "(nat, nat, nat, string, command_cache) xds_command"
    where c: "xds_PersistentPreRunE sample_start (plain_flags ''states'') 7 (\<lambda>_. fmempty) [] ''port'' = Ok c"
      "xds_discovery c = None"
    by (simp add: xds_PersistentPreRunE_def pre_run_defs NewProvider_def sample_start_def plain_flags_def)
  have flags: "tfstateSourceSelector (plain_flags ''states'') = ''aws-s3''" "awsTfstateBucket (plain_flags ''states'') = ''states''"
    "\<not> HasSuffix (awsTfstateBucket (plain_flags ''states'')) ''.tfstate''"
    by (simp_all add: plain_flags_def HasSuffix_def)
  have factory: "source_factory (plain_flags ''states'') = GetS3Client" by (simp add: plain_flags_def source_factory_def)
  have start: "start_xds c = command_process (round_state Fetching (NewTfstateSource GetS3Client ''states'') Idle command_new 0 0) False"
    using command_manager_started [OF c(1)] by (intro listing_start [OF _ c(2)]) (simp add: flags factory)
  let ?page = "\<lparr>NextPage = Inr (Some ''states''), HeadObject = Inr \<lparr>ETag = Some ''v1'', ContentLength = 2\<rparr>,
    Download = (\<lambda>_. Inr ''{}'')\<rparr>"
  have "GetTfstate (factory_client sample_sts) (\<lambda>_. Inr command_states) [?page] [] (NewTfstateSource GetS3Client ''states'') = (Ok [], NewTfstateSource GetS3Client ''states'')"
    by (simp add: GetTfstate_def scan_page_def NewTfstateSource_def HasSuffix_def)
  from process_idle_round [where listing = ?listing, OF this, of Idle command_new 0] obtain m'
    where run: "xds_steps command_api ?listing (start_xds c)
      (command_process (round_state Selecting (NewTfstateSource GetS3Client ''states'') Done m' 0 1) False)"
    unfolding start by (auto simp: lists_bucket_name_def)
  from bucket_name_serves_nothing [where contents = id, OF c(1) _ command_linear_cache flags(1,3), unfolded flags(2), OF _ run]
  have "listenerCache m' = fmempty" by (simp add: command_process_def shared_xds_def all_kinds)
  with c(1) run show ?thesis
    by (intro exI [of _ c] exI [of _ "command_process (round_state Selecting (NewTfstateSource GetS3Client ''states'') Done m' 0 1) False"])
       (simp add: command_process_def shared_xds_def)
qed

end
