(* ===== verification/Xds_Failures.thy ===== *)
theory Xds_Failures
  imports Xds_Rounds
begin

section \<open>Starts of the command \<^verbatim>\<open>xds\<close> that end in a crash\<close>

text \<open>
  Two starts that succeed and whose first fetch, or a later one, crashes the process: the command without
  any configuration has no source, and the command with a role makes its S3 client from it at each fetch.
\<close>

subsection \<open>Without a configuration\<close>

text \<open>The process before its first fetch, without a source.\<close>

definition sourceless :: "('m, LocalityLbEndpoints, unit, 'c) xds_state \<Rightarrow> ('m, 'c) xds_process \<Rightarrow> bool" where
  "sourceless xs p \<longleftrightarrow>
     managers (manager_state p) = [\<lparr>status = Idle, mgr = xs\<rparr>] \<and> tfstateSource (manager_state p) = None
     \<and> \<not> update_pending p
     \<and> (phase (manager_state p) = Fetching \<or> phase (manager_state p) = Crashed NilDereference)
     \<and> (case discovery_goroutine p of None \<Rightarrow> True | Some d \<Rightarrow> clusterLoadAssignments (discovery d) = [])"

lemma sourceless_sync:
  assumes "sync_step get read order_ok build s t" and "phase s = Fetching" and "tfstateSource s = None"
    and "managers s = [\<lparr>status = Idle, mgr = xs\<rparr>]"
  shows "t = s\<lparr>phase := Crashed NilDereference\<rparr>"
  using assms by (cases rule: sync_step.cases) (auto simp: less_Suc_eq)

lemma sourceless_step:
  assumes "xds_step api listing p q" and "sourceless xs p"
  shows "sourceless xs q"
  using assms
proof (induction rule: xds_step.induct)
  case (sync_moves p pages sts unmarshal ks s)
  then have "phase (manager_state p) = Fetching" by (auto simp: sourceless_def xds_alive_def)
  with sourceless_sync [OF sync_moves(4) this, of xs] sync_moves(7) show ?case by (simp add: sourceless_def shared_xds_def)
next
  case (sync_reports p pages sts unmarshal ks s)
  then have "phase (manager_state p) = Fetching" by (auto simp: sourceless_def xds_alive_def)
  with sourceless_sync [OF sync_reports(5) this, of xs] sync_reports(7) show ?case by (simp add: sourceless_def)
next
  case (discovery_moves p d d')
  then have "clusterLoadAssignments (discovery (d\<lparr>xdsState := shared_xds p\<rparr>)) = []" by (simp add: sourceless_def)
  from discovery_step_keeps [OF discovery_moves(4) this]
  have d': "clusterLoadAssignments (discovery d') = []" "xdsState d' = shared_xds (p\<lparr>discovery_goroutine := Some d'\<rparr>)"
    by simp_all
  from d'(1) discovery_moves(7) show ?case unfolding d'(2) store_shared_same by (simp add: sourceless_def)
next
  case (discovery_reports p d d')
  then have "clusterLoadAssignments (discovery (d\<lparr>xdsState := shared_xds p\<rparr>)) = []" by (simp add: sourceless_def)
  with discovery_step_keeps [OF discovery_reports(4) this] discovery_reports(6) show ?case by (simp add: sourceless_def)
qed (auto simp: sourceless_def)

lemma sourceless_steps: "xds_steps api listing p q \<Longrightarrow> sourceless xs p \<Longrightarrow> sourceless xs q"
  by (induction rule: rtranclp_induct) (auto intro: sourceless_step)

text \<open>The flag without a value outside, and not given on the command line.\<close>

lemma default_source:
  "fmlookup (default_values xds_path) ''tfstate-source'' = Some \<lparr>flag_Value = StringValue [], Changed = False\<rparr>"
  "string_flag (default_values xds_path) ''config'' = []"
  by (simp_all add: default_values_def init_defs fmlookup_of_list string_flag_def)

lemma unset_kept:
  assumes "viper_precedence fm (\<lambda>_. None) v" and "config_calls home keys (string_flag fs0 ''config'') = Some calls"
    and "initConfig set_flag (\<lambda>_. v) home keys xds_path fs0 = Some fs"
    and "fmlookup fs0 name = Some \<lparr>flag_Value = w, Changed = False\<rparr>" and "name \<in> set (root_flags @ xds_flags)"
  shows "fmlookup fs name = Some \<lparr>flag_Value = w, Changed = False\<rparr>"
proof -
  have "(visit_flag fm set_flag (\<lambda>_. None) b key ^^ n) \<lparr>flag_Value = w, Changed = False\<rparr> = \<lparr>flag_Value = w, Changed = False\<rparr>"
    for b key n by (induction n) (simp_all add: visit_flag_def)
  with initConfig_visits [where run_viper = "\<lambda>_. v", OF assms] show ?thesis by (simp only:)
qed

lemma unconfigured_source:
  assumes "initConfig set_flag (\<lambda>_. v) home keys xds_path (default_values xds_path) = Some fs"
    and "viper_precedence fm (\<lambda>_. None) v"
  shows "tfstateSourceSelector (flag_variables fs) = []"
proof -
  obtain calls where calls: "config_calls home keys (string_flag (default_values xds_path) ''config'') = Some calls"
    using assms(1) by (auto simp: initConfig_def split: option.splits)
  have "''tfstate-source'' \<in> set (root_flags @ xds_flags)" unfolding root_flags_eq by simp
  from unset_kept [OF assms(2) calls assms(1) default_source(1) this] show ?thesis by (simp add: flag_variables_def string_flag_def)
qed

text \<open>
  C36. Started without any configuration the command crashes. No flag, variable or file selects a source,
  which the start-up only logs, and the first fetch of the state manager dereferences the nil source:
  in every run nothing was served and the process is before that fetch or has crashed in it.
\<close>

theorem unconfigured_xds_crashes:
  assumes "initConfig set_flag (\<lambda>_. v) home keys xds_path (default_values xds_path) = Some fs"
    and "viper_precedence fm (\<lambda>_. None) v"
    and "xds_PersistentPreRunE start (flag_variables fs) grpcServer cache0 namespaces tagKey = Ok c"
    and "xds_steps api (\<lambda>_. True) (start_xds c) q"
  shows "shared_xds q = NewXdsState cache0
    \<and> (phase (manager_state q) = Crashed NilDereference
       \<or> phase (manager_state q) = Fetching
         \<and> (main (life q) \<noteq> MainReturned \<longrightarrow>
              (\<exists>r. xds_step api (\<lambda>_. True) q r \<and> phase (manager_state r) = Crashed NilDereference)))"
proof -
  have m: "manager_state (start_xds c) = NewStateManager None [NewXdsState cache0]"
    by (simp add: command_manager_started [OF assms(3)] unconfigured_source [OF assms(1,2)])
  have "case discovery_goroutine (start_xds c) of None \<Rightarrow> True | Some d \<Rightarrow> clusterLoadAssignments (discovery d) = []"
    using assms(3) by (cases "PersistentPreRunE start (flag_variables fs)")
      (auto simp: xds_PersistentPreRunE_def start_xds_def discovery_start_def NewXds_def split: outcome.splits)
  with m have "sourceless (NewXdsState cache0) (start_xds c)"
    by (simp add: sourceless_def NewStateManager_def) (simp add: start_xds_def)
  from sourceless_steps [OF assms(4) this] have q: "sourceless (NewXdsState cache0) q" .
  have "\<exists>r. xds_step api (\<lambda>_. True) q r \<and> phase (manager_state r) = Crashed NilDereference"
    if "phase (manager_state q) = Fetching" "main (life q) \<noteq> MainReturned"
  proof -
    let ?s = "manager_state q\<lparr>phase := Crashed NilDereference\<rparr>"
    have "sync_step get read order_ok build (manager_state q) ?s" for get read and order_ok :: "'o \<Rightarrow> _" and build
      using q that(1) by (intro sync_step.fetch_nil) (simp_all add: sourceless_def)
    from sync_moves [where api = api and listing = "\<lambda>_. True", OF _ _ TrueI this] that q show ?thesis
      by (fastforce simp: xds_alive_def sourceless_def)
  qed
  with q show ?thesis by (auto simp: sourceless_def shared_xds_def)
qed

definition unset_viper :: viper where
  "unset_viper = documented_viper sample_formats (\<lambda>_. None)"

lemma unset_precedence: "viper_precedence sample_formats (\<lambda>_. None) unset_viper"
  unfolding unset_viper_def by (rule documented_precedence)

theorem unconfigured_xds_crashes_witness:
  "\<exists>fs c r. initConfig sample_set (\<lambda>_. unset_viper) (Inr ''/root'') [] xds_path (default_values xds_path) = Some fs
     \<and> enableTls (flag_variables fs)
     \<and> xds_PersistentPreRunE sample_start (flag_variables fs) (7 :: nat) (\<lambda>_. fmempty) [] ''port''
         = Ok (c :: (nat, nat, nat, string, command_cache) xds_command)
     \<and> xds_step command_api (\<lambda>_. True) (start_xds c) r \<and> phase (manager_state r) = Crashed NilDereference"
proof -
  let ?fs0 = "default_values xds_path"
  obtain calls where calls: "config_calls (Inr ''/root'') [] (string_flag ?fs0 ''config'') = Some calls"
    by (simp add: config_calls_def config_file_calls_def default_source)
  then obtain fs where fs: "initConfig sample_set (\<lambda>_. unset_viper) (Inr ''/root'') [] xds_path ?fs0 = Some fs"
    by (simp add: initConfig_def)
  note kept = unset_kept [OF unset_precedence calls fs]
  have "fmlookup fs ''enable-tls'' = Some \<lparr>flag_Value = BoolValue True, Changed = False\<rparr>"
    "fmlookup fs ''tls-certificate'' = Some \<lparr>flag_Value = StringValue [], Changed = False\<rparr>"
    "fmlookup fs ''health-check-parallelism'' = Some \<lparr>flag_Value = IntValue 4, Changed = False\<rparr>"
    by (rule kept; simp add: default_values_def init_defs fmlookup_of_list root_flags_eq)+
  then have started: "enableTls (flag_variables fs)" "certFile (flag_variables fs) = []" "flag_healthCheckParallelism (flag_variables fs) = 4"
    by (simp_all add: flag_variables_def string_flag_def number_flag_def bool_flag_def)
  note source = unconfigured_source [OF fs unset_precedence]
  obtain c :: "(nat, nat, nat, string, command_cache) xds_command"
    where c: "xds_PersistentPreRunE sample_start (flag_variables fs) 7 (\<lambda>_. fmempty) [] ''port'' = Ok c"
    using started source by (simp add: xds_PersistentPreRunE_def pre_run_defs NewProvider_def sample_start_def)
  have "phase (manager_state (start_xds c)) = Fetching" "main (life (start_xds c)) \<noteq> MainReturned"
    by (simp_all add: command_manager_started [OF c] NewStateManager_def) (simp add: start_xds_def Execute_def)
  with unconfigured_xds_crashes [OF fs unset_precedence c, where api = command_api, OF rtranclp.rtrancl_refl] fs c started(1)
  show ?thesis by (metis phase.distinct(11))
qed

subsection \<open>With a role that cannot be assumed\<close>

text \<open>The client factory of the source is the one of the start, in every run.\<close>

lemma source_factory_step:
  assumes "sync_step (GetTfstate client unmarshal pages ks) read order_ok build s t"
    and "Option.bind (tfstateSource s) s3Client = Some factory"
  shows "Option.bind (tfstateSource t) s3Client = Some factory"
  using assms by (induction rule: sync_step.induct) (auto dest: GetTfstate_factory)

lemma source_factory_steps:
  assumes "xds_steps api listing p q" and "linear_cache (UpdateResources api) contents" and "xds_inv contents p"
    and "Option.bind (tfstateSource (manager_state p)) s3Client = Some factory"
  shows "Option.bind (tfstateSource (manager_state q)) s3Client = Some factory"
  using assms(1)
proof (induction rule: rtranclp_induct)
  case (step q r)
  have "xds_inv contents q" by (rule xds_inv_steps [OF step(1) assms(2,3)])
  from xds_sync_step [OF step(2) this] source_factory_step step(3) show ?case by metis
qed (rule assms(4))

text \<open>No \<open>Build\<close> is at its send when the next fetch is due.\<close>

lemma fetching_step:
  "sync_step get read order_ok build s t \<Longrightarrow> phase t = Fetching \<Longrightarrow> sync_inv s \<Longrightarrow> managers t = managers s"
  by (induction rule: sync_step.induct) (auto simp: sync_inv_def dest!: busy_count_pos)

lemma fetching_not_pending:
  assumes "xds_steps api listing p q" and "linear_cache (UpdateResources api) contents" and "xds_inv contents p"
    and "\<not> update_pending p" and "phase (manager_state q) = Fetching"
  shows "\<not> update_pending q"
  using assms(1,5)
proof (induction rule: rtranclp_induct)
  case (step q r)
  have "xds_inv contents q" by (rule xds_inv_steps [OF step(1) assms(2,3)])
  with step(2-4) show ?case
  proof (induction rule: xds_step.induct)
    case (sync_moves q pages sts unmarshal ks s)
    with fetching_step [OF sync_moves(4)] show ?case by (simp add: xds_inv_def shared_xds_def)
  qed (auto simp: store_shared_def)
qed (simp add: assms(4))

text \<open>
  C35. A role that cannot be assumed kills the process. Started with a role, the command asks STS for
  credentials at every fetch; when STS answers one with an error, the factory panics in the goroutine of
  the state manager. Whatever was done before, that fetch can only crash, no error is reported to the
  loop of the command, and nothing of the process moves again: there is no shutdown.
\<close>

theorem role_failure_crashes:
  assumes "xds_PersistentPreRunE start f grpcServer cache0 namespaces tagKey = Ok c"
    and "\<And>k. contents (cache0 k) = fmempty" and "linear_cache (UpdateResources api) contents"
    and "tfstateSourceSelector f = ''aws-s3''" and "awsS3AssumeRole f \<noteq> []"
    and "xds_steps api listing (start_xds c) p" and "phase (manager_state p) = Fetching"
    and "main (life p) \<noteq> MainReturned" and "listing pages"
    and "AssumeRole sts (awsS3AssumeRole f) = Inl e"
  shows "\<exists>q. q = p\<lparr>manager_state := (manager_state p)\<lparr>phase := Crashed (LogPanic ''error assuming role'')\<rparr>\<rparr>
    \<and> xds_step api listing p q
    \<and> (\<forall>s. sync_step (GetTfstate (factory_client sts) unmarshal pages ks) (xds_ReadFromTfstate api) xds_order_ok
          (xds_Build api) (manager_state p) s \<longrightarrow> s = manager_state q)
    \<and> (\<forall>r. \<not> xds_step api listing q r)"
proof -
  let ?q = "p\<lparr>manager_state := (manager_state p)\<lparr>phase := Crashed (LogPanic ''error assuming role'')\<rparr>\<rparr>"
  let ?get = "GetTfstate (factory_client sts) unmarshal pages ks"
  let ?sync = "sync_step ?get (xds_ReadFromTfstate api) xds_order_ok (xds_Build api) (manager_state p)"
  have start: "xds_inv contents (start_xds c)" using xds_inv_start [OF assms(1), of contents] assms(2) by blast
  have p: "xds_inv contents p" by (rule xds_inv_steps [OF assms(6,3) start])
  have "Option.bind (tfstateSource (manager_state (start_xds c))) s3Client = Some (S3ClientWithRole (awsS3AssumeRole f))"
    using assms(4,5) by (simp add: command_manager_started [OF assms(1)] NewStateManager_def NewTfstateSource_def source_factory_def)
  from source_factory_steps [OF assms(6,3) start this] obtain src
    where src: "tfstateSource (manager_state p) = Some src" "s3Client src = Some (S3ClientWithRole (awsS3AssumeRole f))"
    by (auto simp: Option.bind_eq_Some_conv)
  have "factory_client sts (S3ClientWithRole (awsS3AssumeRole f)) = Some (LogPanic ''error assuming role'')"
    using assms(10) by (simp add: GetS3ClientWithRole_def)
  then have get: "?get src = (Panic (LogPanic ''error assuming role''), src)"
    by (rule GetTfstate_factory_panics [OF src(2)])
  have same: "(manager_state p)\<lparr>phase := x, tfstateSource := Some src\<rparr> = (manager_state p)\<lparr>phase := x\<rparr>" for x
    using src(1) by (cases "manager_state p") simp
  have only: "s = manager_state ?q" if "?sync s" for s
  proof -
    have idle: "\<not> busy (status (managers (manager_state p) ! i))" if "i < length (managers (manager_state p))" for i
      using p assms(7) that by (auto simp: xds_inv_def sync_inv_def busy_count_0)
    from that show ?thesis using assms(7) src(1) get
      by (cases rule: sync_step.cases) (auto simp: same dest!: idle)
  qed
  have crash: "?sync (manager_state ?q)"
    using sync_step.fetch_panic [where get = ?get, OF assms(7) src(1) get] by (simp add: same)
  have pending: "\<not> update_pending p"
    by (rule fetching_not_pending [OF assms(6,3) start _ assms(7)]) (simp add: start_xds_def)
  then have "p\<lparr>manager_state := s, update_pending := False\<rparr> = p\<lparr>manager_state := s\<rparr>" for s by (cases p) simp
  with sync_moves [where listing = listing, OF _ pending assms(9) crash] assms(7,8) have "xds_step api listing p ?q"
    by (simp add: xds_alive_def shared_xds_def)
  moreover have "\<not> xds_step api listing ?q r" for r
    by (auto simp: xds_alive_def elim: xds_step.cases)
  ultimately show ?thesis using only by blast
qed

theorem role_failure_crashes_witness:
  "\<exists>c q. xds_PersistentPreRunE sample_start ((plain_flags ''b.tfstate'')\<lparr>awsS3AssumeRole := ''role''\<rparr>) (7 :: nat) (\<lambda>_. fmempty) [] ''port''
       = Ok (c :: (nat, nat, nat, string, command_cache) xds_command)
     \<and> xds_step command_api (\<lambda>_. True) (start_xds c) q
     \<and> phase (manager_state q) = Crashed (LogPanic ''error assuming role'')"
proof -
  let ?f = "(plain_flags ''b.tfstate'')\<lparr>awsS3AssumeRole := ''role''\<rparr>"
  obtain c :: "(nat, nat, nat, string, command_cache) xds_command"
    where c: "xds_PersistentPreRunE sample_start ?f 7 (\<lambda>_. fmempty) [] ''port'' = Ok c"
    by (simp add: xds_PersistentPreRunE_def pre_run_defs NewProvider_def sample_start_def plain_flags_def)
  have flags: "tfstateSourceSelector ?f = ''aws-s3''" "awsS3AssumeRole ?f \<noteq> []" by (simp_all add: plain_flags_def)
  have p: "phase (manager_state (start_xds c)) = Fetching" "main (life (start_xds c)) \<noteq> MainReturned"
    by (simp_all add: command_manager_started [OF c] NewStateManager_def) (simp add: start_xds_def Execute_def)
  have "AssumeRole sample_sts (awsS3AssumeRole ?f) = Inl (Foreign ''AccessDenied'')" by (simp add: sample_sts_def)
  from role_failure_crashes [where listing = "\<lambda>_. True", OF c _ command_linear_cache flags rtranclp.rtrancl_refl p TrueI this]
  obtain q where "xds_step command_api (\<lambda>_. True) (start_xds c) q"
    "phase (manager_state q) = Crashed (LogPanic ''error assuming role'')" by fastforce
  with c show ?thesis by blast
qed

end
