(* ===== verification/Router_Requests.thy ===== *)
theory Router_Requests
  imports Server Aws_Provider
begin

section \<open>The requests of the command \<^verbatim>\<open>router\<close>\<close>

text \<open>
  The way of a request through the handlers of the process: the HTTP server calls the swap handler, that
  one the router it holds, the router its mux, and the mux the handler of a route, which is a backend of
  the AWS provider. \<open>mux_Match\<close> is the choice of \<^verbatim>\<open>gorilla/mux\<close>, the index of the route whose handler it
  calls, \<open>not_found\<close> its answer when there is none, and \<open>grpc_ServeHTTP\<close> the HTTP handler of a gRPC
  server, which calls the stream handler that \<open>NewGrpcHandler\<close> has given to it.
\<close>

type_synonym http_handler = "http_request \<Rightarrow> response_writer \<Rightarrow> unit outcome \<times> response_writer"

definition grpc_handler_ServeHTTP ::
  "((string, grpcMethodBackend) grpcHandler \<Rightarrow> http_handler) \<Rightarrow> grpcBackend \<Rightarrow> http_handler"
where
  "grpc_handler_ServeHTTP grpc_ServeHTTP g = grpc_ServeHTTP (GrpcHandler g)"

text \<open>
  The environment of a request: what Lambda answers, the failure of the connection, the id of an error
  and the orders of the two loops over the headers of a response.
\<close>

record request_env =
  request_lambda :: lambda_env
  write_failure :: "go_error option"
  error_id :: string
  multi_order :: "string list"
  single_order :: "string list"

definition backend_ServeHTTP ::
  "((string, grpcMethodBackend) grpcHandler \<Rightarrow> http_handler) \<Rightarrow> request_env \<Rightarrow> lambda_backend \<Rightarrow> http_handler"
where
  "backend_ServeHTTP grpc_ServeHTTP e b =
     (case b of
        GrpcBackend g \<Rightarrow> grpc_handler_ServeHTTP grpc_ServeHTTP g
      | HttpBackend h \<Rightarrow>
          http_ServeHTTP (request_lambda e) h (write_failure e) (error_id e) (multi_order e) (single_order e))"

definition router_ServeHTTP ::
  "(lambda_backend mux_route list \<Rightarrow> http_request \<Rightarrow> nat option) \<Rightarrow> http_handler \<Rightarrow>
   ((string, grpcMethodBackend) grpcHandler \<Rightarrow> http_handler) \<Rightarrow> request_env \<Rightarrow> lambda_backend router \<Rightarrow> http_handler"
where
  "router_ServeHTTP mux_Match not_found grpc_ServeHTTP e r req w =
     (case mux_Match (rtr r) req of
        None \<Rightarrow> not_found req w
      | Some i \<Rightarrow>
          (case mux_handler (rtr r ! i) of
             None \<Rightarrow> not_found req w
           | Some b \<Rightarrow> backend_ServeHTTP grpc_ServeHTTP e b req w))"

definition handle_request ::
  "(lambda_backend mux_route list \<Rightarrow> http_request \<Rightarrow> nat option) \<Rightarrow> http_handler \<Rightarrow>
   ((string, grpcMethodBackend) grpcHandler \<Rightarrow> http_handler) \<Rightarrow> request_env \<Rightarrow>
   lambda_backend router swapHandler \<Rightarrow> http_handler"
where
  "handle_request mux_Match not_found grpc_ServeHTTP e s req w =
     (case swap_ServeHTTP s of
        Ok r \<Rightarrow> router_ServeHTTP mux_Match not_found grpc_ServeHTTP e r req w
      | Err err \<Rightarrow> (Err err, w)
      | Panic p \<Rightarrow> (Panic p, w))"

text \<open>The handler of a route of a router made with the AWS provider.\<close>

lemma NewRouter_lambda:
  assumes "get_finds_named mux_Get"
    and "NewRouter mux_Get order (routerOpts [(aws_BackendProviderKey, aws_provider)] config) = Ok r"
    and "i < length (Routes config)" and "Router_Route.Handler (Routes config ! i) = Some h"
    and "Backend h = Some (Router_Handler_AwsLambda b)"
  shows "mux_handler (rtr r ! i) = Some (if is_grpc_route (Routes config ! i)
    then GrpcBackend (NewGrpcBackend b) else HttpBackend (NewHttpBackend b))"
  using NewRouter_backend [OF assms(1-3)] assms(4,5)
  by (simp add: route_backend_def backend_key_def aws_BackendProviderKey_def aws_provider_def
      aws_ToGrpcBackend_def aws_ToHttpBackend_def split: if_splits)

lemma swapped_serves: "swap_run (r # hs) s \<Longrightarrow> received_handler s = None \<Longrightarrow> swap_ServeHTTP s = Ok r"
  using swap_run_handlers [of "r # hs" s] by (simp add: swap_ServeHTTP_def)

subsection \<open>Properties\<close>

text \<open>
  C21. A request is answered by the function of its route. When the router made from a configuration has
  been swapped in and stored, a request for which mux chooses the \<open>i\<close>-th configured route, which names a
  Lambda function and has no gRPC matcher, is sent to that function, and the client gets the status of
  its response, its body, decoded when it is base64, and its headers, those with several values first and then the
  single ones under their canonical names; for every order of the loops.
\<close>

theorem request_reaches_function:
  assumes "get_finds_named mux_Get"
    and "NewRouter mux_Get order (routerOpts [(aws_BackendProviderKey, aws_provider)] config) = Ok rt"
    and "swap_run (rt # hs) s" and "received_handler s = None"
    and "mux_Match (rtr rt) req = Some i" and "i < length (Routes config)"
    and "Router_Route.Handler (Routes config ! i) = Some h" and "Backend h = Some (Router_Handler_AwsLambda b)"
    and "\<not> is_grpc_route (Routes config ! i)" and "write_failure e = None"
    and "answered (request_lambda e) b req resp" and "200 \<le> StatusCode resp" and "StatusCode resp \<le> 999"
    and "response_bytes resp = Inr bs" and "response_MultiValueHeaders resp = Some mm" and "Headers resp = Some m"
    and "enumerates (multi_order e) mm" and "enumerates (single_order e) m"
  shows "\<exists>w hdrs. handle_request mux_Match not_found grpc_ServeHTTP e s req new_writer = (Ok (), w)
    \<and> wrote_header w = Some (StatusCode resp, hdrs)
    \<and> written w = (if body_allowed (StatusCode resp) then bs else [])
    \<and> (\<forall>k. header_values hdrs k = (case fmlookup mm k of Some vs \<Rightarrow> vs | None \<Rightarrow> [])
          @ map (\<lambda>k'. the (fmlookup m k')) (filter (\<lambda>k'. CanonicalHeaderKey k' = k) (single_order e)))"
proof -
  have "handle_request mux_Match not_found grpc_ServeHTTP e s req new_writer =
      http_ServeHTTP (request_lambda e) (NewHttpBackend b) None (error_id e) (multi_order e) (single_order e) req new_writer"
    using NewRouter_lambda [OF assms(1,2,6,7,8)] assms(5,9,10)
    by (simp add: handle_request_def swapped_serves [OF assms(3,4)] router_ServeHTTP_def backend_ServeHTTP_def)
  moreover obtain res w where "http_ServeHTTP (request_lambda e) (NewHttpBackend b) None (error_id e) (multi_order e)
      (single_order e) req new_writer = (res, w)" by fastforce
  moreover note http_answer [OF assms(11-18) this]
  ultimately show ?thesis by auto
qed

text \<open>A configuration of one route, its router swapped into a new handler, and a mux that takes that route.\<close>

definition page_route :: Router_Route where
  "page_route = \<lparr>Name = ''page'', ParentName = [], Matchers = [\<lparr>Rule = Some (Router_Route_Matcher_Path ''/'')\<rparr>],
     Handler = Some \<lparr>Backend = Some (Router_Handler_AwsLambda sample_function)\<rparr>\<rparr>"

definition page_env :: request_env where
  "page_env = \<lparr>request_lambda = fixed_env json_response, write_failure = None, error_id = ''id'',
     multi_order = [], single_order = [''content-type'']\<rparr>"

theorem request_reaches_function_witness:
  "\<exists>rt w hdrs. NewRouter named_route (\<lambda>_. []) (routerOpts [(aws_BackendProviderKey, aws_provider)] \<lparr>Routes = [page_route]\<rparr>) = Ok rt
     \<and> handle_request (\<lambda>_ _. Some 0) (\<lambda>_ w. (Ok (), w)) (\<lambda>_ _ w. (Ok (), w)) page_env
         \<lparr>handler = Some rt, received_handler = None, handlerCh_closed = False\<rparr> get_request new_writer = (Ok (), w)
     \<and> wrote_header w = Some (201, hdrs) \<and> written w = ''abc'' \<and> header_values hdrs ''Content-Type'' = [''text/plain'']"
proof -
  obtain rt where rt: "NewRouter named_route (\<lambda>_. []) (routerOpts [(aws_BackendProviderKey, aws_provider)] \<lparr>Routes = [page_route]\<rparr>) = Ok rt"
    by (simp add: NewRouter_options parseProtoRouterConfig_def parseProtoRoute_def page_route_def
        matcher_call_def backend_key_def aws_BackendProviderKey_def aws_provider_def aws_ToHttpBackend_def Let_def)
  let ?s = "\<lparr>handler = Some rt, received_handler = None, handlerCh_closed = False\<rparr>"
  have "swap_run [rt] (watchSwap_store (NewSwapHandler\<lparr>received_handler := Some rt\<rparr>))"
    by (rule run_store, rule run_swap [OF run_new]) (simp add: Swap_def NewSwapHandler_def)
  then have run: "swap_run [rt] ?s" by (simp add: watchSwap_store_def NewSwapHandler_def)
  have headers: "enumerates (multi_order page_env) (fmempty :: (string, string list) gomap)"
    "enumerates (single_order page_env) (fmupd ''content-type'' ''text/plain'' fmempty)"
    by (auto simp: page_env_def enumerates_def)
  have page: "\<not> is_grpc_route (Routes \<lparr>Routes = [page_route]\<rparr> ! 0)" "response_MultiValueHeaders json_response = Some fmempty"
    "Headers json_response = Some (fmupd ''content-type'' ''text/plain'' fmempty)" "StatusCode json_response = 201"
    by (simp_all add: page_route_def is_grpc_route_def json_response_def)
  have "answered (request_lambda page_env) sample_function get_request json_response" "write_failure page_env = None"
    by (simp_all add: page_env_def fixed_answered)
  with request_reaches_function [where mux_Match = "\<lambda>_ _. Some 0" and i = 0 and b = sample_function
      and not_found = "\<lambda>_ w. (Ok (), w)" and grpc_ServeHTTP = "\<lambda>_ _ w. (Ok (), w)",
      OF named_route_law rt run _ _ _ _ _ page(1) _ _ _ _ json_response_bytes page(2,3) headers] page(4)
  obtain w hdrs where "handle_request (\<lambda>_ _. Some 0) (\<lambda>_ w. (Ok (), w)) (\<lambda>_ _ w. (Ok (), w)) page_env ?s get_request new_writer = (Ok (), w)"
    "wrote_header w = Some (201, hdrs)" "written w = ''abc''"
    "header_values hdrs ''Content-Type'' = map (\<lambda>k'. the (fmlookup (fmupd ''content-type'' ''text/plain'' fmempty) k'))
        (filter (\<lambda>k'. CanonicalHeaderKey k' = ''Content-Type'') (single_order page_env))"
    by (fastforce simp: page_route_def body_allowed_def)
  with rt show ?thesis by (auto simp: page_env_def content_type_key)
qed

end
