(* ===== verification/Spec2Isabelle.thy ===== *)
theory Spec2Isabelle
  imports Dependency_Graph Http_Header Router_Proto State_Manager Routes_State Xds_State S3_Source
    Service_Discovery Server Http_Router Aws_Provider Tls_Context Cmd
    Grpc Grpc_Codec Lambda_Grpc Lambda_Http Cmd_Main Cmd_Init Router_Command Router_Process Xds_Command Xds_Rounds
    Xds_Failures Router_Requests
begin

text \<open>
  A model of cruiser, a small control and data plane for Envoy proxies and serverless endpoints: the
  program reads Terraform states from an S3 bucket, turns the resources in them either into Envoy
  configuration served by xDS (command \<^verbatim>\<open>xds\<close>) or into routes of an HTTP and gRPC router in front of
  AWS Lambda functions (command \<^verbatim>\<open>router\<close>), and repeats this after an interval.

  \<^bold>\<open>The program and its model.\<close> Each theory models one component; operations keep the names of the
  Go functions.

  \<^item> \<open>Go_Prelude\<close>: errors, panics and outcomes, sequencing (\<open>and_then\<close>), loops over slices (\<open>for_each\<close>)
    and Go maps. A loop over a map takes the list of the keys in the order the runtime visits them, and
    \<open>enumerates\<close> says that a list is such an order, so the theorems hold for every order.
  \<^item> \<open>Http_Header\<close>: the canonical form of header names, which both the router and the HTTP backend rely on.
  \<^item> \<open>Router_Proto\<close>: the messages of \<^verbatim>\<open>proto/server/router.proto\<close> and of the Lambda backend.
  \<^item> \<open>Tfstate_Source\<close>: Terraform states (\<^verbatim>\<open>pkg/state/terraform.go\<close>), and what the two readers of them
    have in common.
  \<^item> \<open>Dependency_Graph\<close>: \<^verbatim>\<open>pkg/state/dependency_graph.go\<close>. The locale \<open>graph_interface\<close> is the interface
    \<open>Graph[T]\<close> as its client sees it, interpreted on the model of \<open>graph[T]\<close>.
  \<^item> \<open>State_Manager\<close>: \<^verbatim>\<open>pkg/state/manager.go\<close>, the loop \<open>periodicSync\<close> and its goroutines, as the step
    relation \<open>sync_step\<close>. The locale \<open>manager\<close> is the interface \<open>Manager\<close>.
  \<^item> \<open>Routes_State\<close> and \<open>Xds_State\<close>: \<^verbatim>\<open>pkg/state/routes.go\<close> and \<^verbatim>\<open>pkg/state/xds.go\<close>, the two managers, each an
    interpretation of \<open>manager\<close>. The loop of the routes state over its graph is verified once against
    \<open>graph_interface\<close> (locale \<open>route_graph\<close>).
  \<^item> \<open>S3_Source\<close>: \<^verbatim>\<open>pkg/providers/aws/s3\<close>, the source of the states.
  \<^item> \<open>Service_Discovery\<close>: \<^verbatim>\<open>pkg/providers/aws/service_discovery\<close>, which is to set the endpoints of clusters.
  \<^item> \<open>Server\<close>: \<^verbatim>\<open>pkg/server/server.go\<close> and \<^verbatim>\<open>swap_handler.go\<close>, the life of a listener and the handler
    that is exchanged while it serves.
  \<^item> \<open>Http_Router\<close>: \<^verbatim>\<open>pkg/server/router.go\<close>, from a configuration to mux routes. The locale
    \<open>backend_contract\<close> is what it needs of a \<open>BackendProvider\<close>.
  \<^item> \<open>Aws_Provider\<close>: \<^verbatim>\<open>pkg/providers/aws/provider.go\<close>, which interprets \<open>backend_contract\<close>, and its health
    checks.
  \<^item> \<open>Grpc\<close> and \<open>Grpc_Codec\<close>: \<^verbatim>\<open>pkg/server/grpc.go\<close> and \<^verbatim>\<open>grpc_codec.go\<close>, the handler of one gRPC call with
    its two goroutines, as the step relation \<open>rpc_step\<close>, and the codec of raw frames. The locale
    \<open>status_backend\<close> is the contract of a method backend whose errors are gRPC status errors, the
    locale \<open>frame_codec\<close> what the handler relies on of its codec.
  \<^item> \<open>Base64\<close>, \<open>Lambda_Invoke\<close>, \<open>Lambda_Grpc\<close>, \<open>Lambda_Http\<close>: \<^verbatim>\<open>pkg/providers/aws/lambda\<close>, the call of a
    function, the health check, and the two backends; \<open>Lambda_Grpc\<close> interprets \<open>status_backend\<close> and runs
    the backend in the handler.
  \<^item> \<open>Tls_Context\<close> and \<open>Cmd\<close>: \<^verbatim>\<open>pkg/tls\<close> and the start-up in \<^verbatim>\<open>cmd/root.go\<close>.
  \<^item> \<open>Cmd_Main\<close>: flags from the configuration, \<open>Execute\<close> and the wait for a signal, and the objects of the
    two commands from their start-up to their shutdown. \<open>Cmd_Init\<close>: \<open>init\<close>, \<open>initXds\<close> and \<open>initConfig\<close> of
    \<^verbatim>\<open>cmd/root.go\<close> and \<^verbatim>\<open>cmd/xds.go\<close> as the lists of the calls they make on \<^verbatim>\<open>cobra\<close> and \<^verbatim>\<open>viper\<close>, from which
    the flags of a command, the bindings and the tree of the commands are computed, and the walk of
    \<open>postInitCommands\<close>, which binds and sets the typed flags command by command.
  \<^item> \<open>Router_Command\<close>: the loop of \<^verbatim>\<open>cmd/router.go\<close>, composed of the routes state, the router, the
    provider and the swap handler, as the step relation \<open>router_step\<close>. \<open>Router_Process\<close>: whole runs of the
    command from its flags on, \<open>run_step\<close>, which runs \<open>sync_step\<close> with the S3 source and the routes state,
    the loop and \<open>life_step\<close> together; it refines \<open>router_step\<close> (\<open>command_refines\<close>).
  \<^item> \<open>Xds_Command\<close>: the goroutines of \<^verbatim>\<open>cmd/xds.go\<close>, as the step relation \<open>xds_step\<close>; it runs \<open>sync_step\<close> with
    the S3 source and the xDS state, \<open>discovery_step\<close> and \<open>life_step\<close> together on the shared state. Its
    parameter \<open>listing\<close> says which pages S3 may return, and \<open>factory_client\<close> what the client factory that the
    start-up chose does at a fetch. \<open>Xds_Rounds\<close>: what whole runs of that command
    serve, from its flags and the bucket on. \<open>Xds_Failures\<close>: its starts that end in a crash.
  \<^item> \<open>Router_Requests\<close>: the way of a request through the handlers of \<^verbatim>\<open>router\<close>, from the swap handler over
    the router and the choice of its mux to a backend of the AWS provider and the function.
  \<^item> this theory: the properties that span components.

  \<^bold>\<open>How state and effects are modelled.\<close> A struct is a record and an operation is a function from the
  state to an outcome and the new state, with every return and every run-time panic of the source as a
  branch. A constructor takes the list of its functional options and folds them over the defaults, as
  the code does. Where goroutines interleave (the state manager, service discovery, health checks, the swap
  handler, a gRPC call, the two commands) the model is an inductive relation with one rule per step,
  and the properties hold for every run. The two goroutines of a gRPC call share the backend without a
  lock, so a request is given as the list of its assignments and the other goroutine can run between
  two of them; a call of \<open>Response\<close> is one step. An operation that can block for ever is \<open>None\<close> then, or a state in which no step of the
  caller is possible. No fuel is used: the only recursion that is not structural, the depth-first
  visit, is total by a measure on the unvisited nodes, so it is shown to end on cyclic graphs too.
  The tree of the commands is unfolded to depth two, which is the depth \<open>init\<close> gives it.

  \<^bold>\<open>What is a parameter.\<close> The packages the program calls are not modelled: \<^verbatim>\<open>protojson\<close> and \<^verbatim>\<open>json\<close> are
  functions from a document to an error or a message; the AWS calls of a round are the results they
  return; \<^verbatim>\<open>LinearCache\<close> of go-control-plane is an opaque type with the law \<open>linear_cache\<close>;
  the AWS Lambda client, the JSON encoding of the events, gRPC metadata, the random ids and the
  protobuf codec are fields of \<open>lambda_env\<close> or arguments of the codec; \<^verbatim>\<open>viper\<close> is a record of what it
  answers for its bindings and the flags, with the law \<open>viper_precedence\<close>, and the \<open>Set\<close> of a flag a function with the law
  \<open>set_flag_law\<close>; \<^verbatim>\<open>gorilla/mux\<close> is the list of the calls made on it with the laws \<open>get_finds_named\<close> and
  \<open>headers_matcher\<close>, and its choice of a route is an argument; what STS and the AWS configuration answer is a
  record \<open>sts_env\<close>; \<^verbatim>\<open>net/http\<close> and \<^verbatim>\<open>crypto/tls\<close> are the results of their calls. Each law is
  documented behaviour and is shown to hold for a concrete instance by a witness.

  \<^bold>\<open>What the properties show.\<close>

  \<^item> For every order of the map loops and every interleaving, the synchronisation reads and builds as it
    is meant to: \<open>completed_round\<close>, \<open>round_publishes_bucket\<close>, \<open>routes_read_stages\<close>, \<open>xds_read_stages\<close>, \<open>routes_Build_outcome\<close>,
    \<open>routes_Build_graph\<close>, \<open>xds_Build_serves_staged\<close>, \<open>xds_Build_error_prefix\<close>, \<open>GetTfstate_current\<close>,
    \<open>sort_nodes_topological\<close>, \<open>NewRouter_structure\<close>, \<open>NewRouter_with_aws\<close>, \<open>Open_once\<close>,
    \<open>swap_handler_serves_last\<close>, \<open>health_checks_once\<close>, \<open>FromFile_loads_all\<close>, \<open>PersistentPreRunE_outcome\<close>.
  \<^item> A gRPC call reports the result of its flows (\<open>Handle_result\<close>, \<open>Handle_error_type\<close>), frames pass through the Lambda
    backend unchanged in every run that asks for the response after the request (\<open>lambda_call_roundtrip\<close>), and both backends translate responses as
    \<open>lambda_Response_by_status\<close> and \<open>http_response\<close> say. A request is answered by the function of its
    route (\<open>request_reaches_function\<close>). The caches of a running \<^verbatim>\<open>xds\<close> hold what the last
    \<open>Build\<close> published (\<open>xds_caches_follow_builds\<close>) and its updates never block before a signal
    (\<open>xds_updates_drained\<close>). A command sets its flags from the command line, the environment and the
    file (\<open>initConfig_values\<close>) and shuts down (\<open>router_start_to_shutdown\<close>).
  \<^item> Where it does not do what it is meant to, the theorems say so exactly: a bucket that stops
    changing loses its configuration (\<open>unchanged_bucket_withdrawn\<close>, and for one round
    \<open>unchanged_round_empties_caches\<close>), a state is looked for under the bucket's name, so nothing is ever
    served from most buckets (\<open>bucket_name_serves_nothing\<close>), the command without a configuration
    crashes (\<open>unconfigured_xds_crashes\<close>), and so does one whose role cannot be assumed at some fetch
    (\<open>role_failure_crashes\<close>), the sorted routes cannot be read (\<open>GetRoutes_panics_after_Build\<close>) and
    would be in the wrong order (\<open>sorted_routes_crash_router\<close>), routes are never updated
    (\<open>routes_never_updated\<close>), a failed manager blocks all rounds (\<open>failed_manager_stops_sync\<close>), discovered
    endpoints are dropped (\<open>discovery_has_no_effect\<close>), and the crashes and deadlocks of the server, the
    health checks and the start-up. The router command never serves a route
    (\<open>router_serves_no_route\<close>) and can lock itself up (\<open>router_locks_up\<close>); a failed invocation
    crashes the process (\<open>failed_invocation_crashes\<close>), a response can be lost
    (\<open>half_written_response_lost\<close>), 410 ends only when the stream fails (\<open>gone_ended_by_stream_only\<close>), flows are abandoned
    (\<open>abandoned_flow_never_ends\<close>), HTTP errors come too late (\<open>http_late_error\<close>,
    \<open>http_status_out_of_range\<close>), and a command may not wait at all (\<open>command_waits_for_signal\<close>).

  \<^bold>\<open>What is not modelled.\<close> Locks: the operations of a state that hold its lock are single steps, except
  where a lock is held across a send (\<open>Router_Command\<close>, \<open>Xds_Command\<close>). Timing: an interval may end at any step.
  The reflection code of the generated messages, the output of the loggers (\<open>InitializeLog\<close> makes them in
  \<open>Cmd_Init\<close>), and the construction of the AWS clients of the provider are left out; \<^verbatim>\<open>main.go\<close> only
  calls \<open>Execute\<close>, and the hooks package is empty. A call of \<open>Response\<close> of the Lambda backend reads its
  fields in one step.
\<close>

section \<open>Properties that span components\<close>

subsection \<open>The source and the xDS state\<close>

lemma staged_empty_build:
  assumes "linear_cache (UpdateResources api) contents" and "xds_order_ok ord s" and "mirrored contents s"
    and "staged_of s = (\<lambda>_. fmempty)" and "xds_Build api ord s = (Ok (), s')"
  shows "contents (cache_of s' k) = fmempty"
  using xds_Build_mirrors [OF assms(1,2,3,5)] assms(4) by (simp add: mirrored_def)

text \<open>
  When no Terraform state in the bucket changed since the last round, the next round of the
  synchronisation withdraws the whole configuration: the source returns no states, so nothing is
  staged, and a \<open>Build\<close> that succeeds leaves every xDS cache empty, whatever the previous round had
  published.
\<close>

theorem unchanged_round_empties_caches:
  assumes "\<forall>p \<in> set pages. page_unchanged (bucket src) (tfstateObjects src) p"
    and "GetTfstate client unmarshal pages ks src = (Ok tfs, src')"
    and "linear_cache (UpdateResources api) contents" and "\<And>k. contents (cache0 k) = fmempty"
    and "xds_reach api (NewXdsState cache0) s0" and "xds_order_ok ord0 s0" and "xds_Build api ord0 s0 = (Ok (), s)"
    and "xds_order_ok ord s"
    and "run_manager (xds_ReadFromTfstate api) (xds_Build api ord) tfs s = (Ok (), s')"
  shows "\<forall>k. contents (cache_of s k) = staged_of s0 k \<and> contents (cache_of s' k) = fmempty"
proof -
  obtain st where "for_each (scan_page (bucket src) unmarshal) pages
      \<lparr>tfstates = [], existingObjects = [], needUpdate = False, objects = tfstateObjects src\<rparr> = (Ok (), st)"
    "needUpdate st = False"
    using scan_unchanged [of pages "bucket src" "\<lparr>tfstates = [], existingObjects = [], needUpdate = False,
        objects = tfstateObjects src\<rparr>"] assms(1) by auto
  with assms(2) have "tfs = []" by (simp add: GetTfstate_def split: option.splits)
  with assms(9) have build: "xds_Build api ord s = (Ok (), s')" by (simp add: run_manager_def)
  have "mirrored contents s0"
    using xds_reach_mirrored [OF assms(5,3)] mirrored_init assms(4) by blast
  from xds_Build_mirrors [OF assms(3,6) this assms(7)] have s: "mirrored contents s" "retained_of s = staged_of s0"
    by simp_all
  moreover have "staged_of s = (\<lambda>_. fmempty)" using xds_Build_done [OF assms(7)] by simp
  ultimately show ?thesis
    using staged_empty_build [OF assms(3,8) s(1) _ build] by (simp add: mirrored_def)
qed

lemma sample_second_order: "xds_order_ok (\<lambda>k. if k = Listeners then ([], [''l'']) else ([], []))
    (snd (xds_Build sample_api sample_order sample_listed))"
  by (simp add: xds_order_ok_def all_kinds xds_Build_def transact_clusters_def transact_assignments_def
      transact_listeners_def transact_virtual_hosts_def transact_route_configurations_def transactXdsResource_def
      sample_order_def sample_listed_eq sample_xds_def NewXdsState_def sample_api_def sample_update_def
      finish_build_def transact_order_def) (simp add: enumerates_def)

theorem unchanged_round_empties_caches_witness:
  "\<exists>s'. run_manager (xds_ReadFromTfstate sample_api)
      (xds_Build sample_api (\<lambda>k. if k = Listeners then ([], [''l'']) else ([], []))) []
      (snd (xds_Build sample_api sample_order sample_listed)) = (Ok (), s')
    \<and> listenerCache (snd (xds_Build sample_api sample_order sample_listed)) = fmmap Message (fmupd ''l'' ''l'' fmempty)
    \<and> listenerCache s' = fmempty"
proof -
  let ?s = "snd (xds_Build sample_api sample_order sample_listed)"
  let ?ord = "\<lambda>k. if k = Listeners then ([], [''l'']) else ([], [])"
  let ?s' = "snd (xds_Build sample_api ?ord ?s)"
  have reach: "xds_reach sample_api (NewXdsState (\<lambda>_. fmempty)) sample_listed"
    unfolding sample_listed_def sample_xds_def by (intro xds_read xds_refl)
  have first: "xds_Build sample_api sample_order sample_listed = (Ok (), ?s)"
    using sample_xds_Build by (metis prod.collapse)
  have "fst (xds_Build sample_api ?ord ?s) = Ok ()"
    by (simp add: xds_Build_def transact_clusters_def transact_assignments_def
      transact_listeners_def transact_virtual_hosts_def transact_route_configurations_def transactXdsResource_def
      sample_order_def sample_listed_eq sample_xds_def NewXdsState_def sample_api_def sample_update_def
      finish_build_def)
  then have run: "run_manager (xds_ReadFromTfstate sample_api) (xds_Build sample_api ?ord) [] ?s = (Ok (), ?s')"
    by (simp add: run_manager_def) (metis prod.collapse)
  have pages: "\<forall>p \<in> set []. page_unchanged (bucket (NewTfstateSource GetS3Client b)) (tfstateObjects (NewTfstateSource GetS3Client b)) p" for b
    by simp
  have "GetTfstate no_panic sample_decode_state [] [] (NewTfstateSource GetS3Client ''b'') = (Ok [], NewTfstateSource GetS3Client ''b'')"
    by (simp add: GetTfstate_def NewTfstateSource_def)
  from unchanged_round_empties_caches [OF pages this sample_linear_cache _ reach sample_order_ok first sample_second_order run]
  have "\<forall>k. id (cache_of ?s k) = staged_of sample_listed k \<and> id (cache_of ?s' k) = fmempty" by simp
  from this [rule_format, of Listeners] run show ?thesis by (simp add: sample_listed_eq)
qed

subsection \<open>The routes state and the router\<close>

text \<open>
  C13. The order in which the routes state sorts its routes is the reverse of the one the router needs.
  For every graph of routes whose parents form no cycle and that has a route with a parent, the values
  of the sorted list, in its order, are a configuration that makes \<open>NewRouter\<close> panic.
\<close>

theorem sorted_routes_crash_router:
  assumes "graph_ok Name g" and "acyclic (edges g)" and "enumerates ks (nodes g)"
    and "node_value g a = Some v" and "(a, ParentName v) \<in> edges g" and "ParentName v \<noteq> ''''"
    and "sort_nodes g ks = (None, st)" and "get_finds_named mux_Get"
  shows "\<exists>p. NewRouter mux_Get order (routerOpts providers
      \<lparr>Routes = map (\<lambda>k. the (node_value g k)) (ptr_keys (sorted_list st))\<rparr>) = Panic p"
proof -
  have wf: "wf_graph g" "keyGetter g = Name" using assms(1) by (simp_all add: graph_ok_def)
  let ?L = "ptr_keys (sorted_list st)"
  obtain st' where st': "sort_nodes g ks = (None, st')" "distinct (listed st')" "set (listed st') = fmdom' (nodes g)"
    using sort_nodes_effect [OF wf(1) assms(3)] by metis
  with assms(7) have L: "distinct ?L" "set ?L = fmdom' (nodes g)" by simp_all
  have name: "Name (the (node_value g k)) = k" if "k \<in> set ?L" for k
  proof -
    from that L(2) obtain n where "fmlookup (nodes g) k = Some n" by (auto simp: fmlookup_dom'_iff)
    with wf_graph_key [OF wf(1)] wf(2) show ?thesis by (simp add: node_value_def)
  qed
  have "deps_follow g ?L"
    using visit_roots_order [OF wf(1) assms(2), of "\<lparr>visited = fmempty, sorted_list = []\<rparr>" ks] assms(3,7)
    by (simp add: sort_nodes_def sort_ok_def on_stack_def pushed_def enumerates_def)
  moreover have "a \<in> fmdom' (nodes g)"
    using assms(4) by (cases "fmlookup (nodes g) a") (simp_all add: node_value_def fmdom'I)
  then have "a \<in> set ?L" unfolding L(2) .
  ultimately obtain us vs ws where split: "?L = us @ a # vs @ ParentName v # ws"
    using deps_follow_precedes assms(5) unfolding precedes_def by metis
  let ?routes = "map (\<lambda>k. the (node_value g k)) ?L"
  have "ParentName v \<notin> set us" using L(1) unfolding split by auto
  moreover have "Name ` set (take (length us) ?routes) = set us"
  proof -
    have "map (Name \<circ> (\<lambda>k. the (node_value g k))) us = us"
      using name unfolding split by (intro map_idI) simp
    moreover have "take (length us) ?routes = map (\<lambda>k. the (node_value g k)) us"
      unfolding split by simp
    ultimately show ?thesis by (metis list.set_map map_map)
  qed
  ultimately have "ParentName v \<notin> Name ` set (take (length us) ?routes)" by simp
  moreover have "?routes ! length us = v" unfolding split using assms(4) by (simp add: nth_append)
  moreover have "length us < length ?routes" unfolding split by simp
  ultimately have "\<not> parents_first ?routes" using assms(6) unfolding parents_first_def by metis
  then have "\<forall>r. NewRouter mux_Get order (routerOpts providers \<lparr>Routes = ?routes\<rparr>) \<noteq> Ok r"
    using NewRouter_Ok_parents_first [OF assms(8)] by fastforce
  then show ?thesis
    by (cases "NewRouter mux_Get order (routerOpts providers \<lparr>Routes = ?routes\<rparr>)") (auto simp: NewRouter_not_Err)
qed

theorem sorted_routes_crash_router_witness:
  "\<exists>p. NewRouter named_route (\<lambda>_. []) (routerOpts [(aws_BackendProviderKey, aws_provider)]
      \<lparr>Routes = map (\<lambda>k. the (node_value (routes sample_built) k))
         (ptr_keys (sorted_list (snd (sort_nodes (routes sample_built) [''leaf'', ''root'']))))\<rparr>) = Panic p"
proof (rule sorted_routes_crash_router [OF _ _ _ _ _ _ _ named_route_law])
  show "graph_ok Name (routes sample_built)"
    using routes_reach_inv [OF sample_reach(2) routes_inv_init] by (simp add: routes_inv_def)
  have edges: "edges (routes sample_built) = {(''leaf'', ''root'')}"
    by (simp add: sample_built_def routes_of_Build sample_staged_map AddSingleNode_def edges_AddEdge
        edges_NewGraph)
  show "acyclic (edges (routes sample_built))"
    unfolding edges by (simp add: acyclic_insert) (simp add: acyclic_def)
  show order: "enumerates [''leaf'', ''root''] (nodes (routes sample_built))"
    by (auto simp: enumerates_def sample_built_def routes_of_Build sample_staged_map AddSingleNode_def NewGraph_def)
  show "node_value (routes sample_built) ''leaf'' = Some (sample_route ''leaf'' ''root'')"
    by (rule sample_built_leaf)
  show "(''leaf'', ParentName (sample_route ''leaf'' ''root'')) \<in> edges (routes sample_built)"
    by (simp add: edges)
  show "ParentName (sample_route ''leaf'' ''root'') \<noteq> ''''" by simp
  have "wf_graph (routes sample_built)"
    using routes_reach_inv [OF sample_reach(2) routes_inv_init] by (simp add: routes_inv_def graph_ok_def)
  from sort_nodes_effect [OF this order] show "sort_nodes (routes sample_built) [''leaf'', ''root'']
      = (None, snd (sort_nodes (routes sample_built) [''leaf'', ''root'']))"
    by (metis snd_conv)
qed

end
